(* ===== verification/Doh_Prelude.thy ===== *)
theory Doh_Prelude
  imports Main "HOL-Library.Word"
begin

section \<open>Prelude: machine integers, panics and list facts shared by the components\<close>

text \<open>
  Names and lemmas every component uses.  A Go run-time panic is the left injection of a sum
  (\<open>go_panic\<close>), a Go \<open>error\<close> value is a string, and an \<open>int32\<close> is an \<open>int\<close> kept in range by
  \<open>wrap32\<close>, the two's complement wrap-around of Go's signed arithmetic.  Unsigned values on which
  the program works bitwise (\<open>uint8\<close>, \<open>uint16\<close>, \<open>uint32\<close>) are words.
\<close>

named_theorems wrap_simps \<open>arithmetic on int32 values that stay in range\<close>
named_theorems weight_simps \<open>what an adjustment of an upstream's weight leaves unchanged\<close>

type_synonym u8 = "8 word"
type_synonym u16 = "16 word"
type_synonym u32 = "32 word"
type_synonym bytes = "u8 list"

datatype go_panic =
    IndexOutOfRange
  | DivideByZero
  | NilDereference
  | TypeAssertion
  | InvalidArgument string
  | ExplicitPanic string

lemma unat_u8_less [simp]: "unat (b :: u8) < 256"
  using unsigned_less [of b] by simp

subsection \<open>int32\<close>

definition wrap32 :: "int \<Rightarrow> int" where
  "wrap32 x = (x + 2147483648) mod 4294967296 - 2147483648"

definition in32 :: "int \<Rightarrow> bool" where
  "in32 x \<longleftrightarrow> -2147483648 \<le> x \<and> x < 2147483648"

lemma wrap32_id [wrap_simps]: "in32 x \<Longrightarrow> wrap32 x = x"
  by (simp add: wrap32_def in32_def)

lemma in32_wrap32 [simp, intro]: "in32 (wrap32 x)"
proof -
  have "0 \<le> (x + 2147483648) mod 4294967296" "(x + 2147483648) mod 4294967296 < 4294967296"
    by simp_all
  then show ?thesis unfolding in32_def wrap32_def by linarith
qed

lemma wrap32_mod [simp]: "wrap32 x mod 4294967296 = x mod 4294967296"
  by (simp add: wrap32_def mod_simps)

lemma wrap32_cong: "x mod 4294967296 = y mod 4294967296 \<Longrightarrow> wrap32 x = wrap32 y"
  unfolding wrap32_def by (metis mod_add_left_eq)

lemma wrap32_add_wrap [simp]: "wrap32 (wrap32 x + y) = wrap32 (x + y)"
  by (rule wrap32_cong) (metis mod_add_left_eq wrap32_mod)

lemma wrap32_ex: "\<exists>k. wrap32 x = x + 4294967296 * k"
proof -
  have "x + 2147483648 = 4294967296 * ((x + 2147483648) div 4294967296) + (x + 2147483648) mod 4294967296"
    by (simp only: mult_div_mod_eq)
  then have "wrap32 x = x + 4294967296 * (- ((x + 2147483648) div 4294967296))"
    unfolding wrap32_def by linarith
  then show ?thesis by blast
qed

lemma in32_mono: "in32 b \<Longrightarrow> in32 c \<Longrightarrow> b \<le> x \<Longrightarrow> x \<le> c \<Longrightarrow> in32 x"
  by (simp add: in32_def)

text \<open>Go's integer division and remainder truncate towards zero.\<close>

definition go_rem :: "int \<Rightarrow> int \<Rightarrow> int" where
  "go_rem x y = sgn x * (\<bar>x\<bar> mod \<bar>y\<bar>)"

definition go_quot :: "int \<Rightarrow> int \<Rightarrow> int" where
  "go_quot x y = sgn x * sgn y * (\<bar>x\<bar> div \<bar>y\<bar>)"

lemma go_rem_nonneg [simp]: "0 \<le> x \<Longrightarrow> 0 < y \<Longrightarrow> go_rem x y = x mod y"
  by (cases "x = 0") (simp_all add: go_rem_def)

lemma go_quot_nonneg [simp]: "0 \<le> x \<Longrightarrow> 0 < y \<Longrightarrow> go_quot x y = x div y"
  by (cases "x = 0") (simp_all add: go_quot_def)

text \<open>\<open>rand.Intn(n)\<close> panics for \<open>n \<le> 0\<close> and otherwise returns some value below \<open>n\<close>; the draw \<open>r\<close>
  stands for the state of the generator.\<close>

definition rand_Intn :: "nat \<Rightarrow> nat \<Rightarrow> go_panic + nat" where
  "rand_Intn r n = (if n = 0 then Inl (InvalidArgument ''invalid argument to Intn'') else Inr (r mod n))"

lemma rand_Intn_pos: "0 < n \<Longrightarrow> \<exists>k < n. rand_Intn r n = Inr k"
  by (simp add: rand_Intn_def)

lemma rand_Intn_less: "rand_Intn r n = Inr k \<Longrightarrow> k < n"
  by (auto simp: rand_Intn_def split: if_splits)

subsection \<open>Lists\<close>

lemma sum_list_update_int:
  "k < length xs \<Longrightarrow> sum_list (xs[k := (y :: int)]) = sum_list xs + y - xs ! k"
  by (induction xs arbitrary: k) (auto split: nat.splits)

lemma sum_list_lower_bound:
  fixes xs :: "int list"
  shows "\<forall>x \<in> set xs. - B \<le> x \<Longrightarrow> - (int (length xs) * B) \<le> sum_list xs"
  by (induction xs) (auto simp: algebra_simps)

lemma map_upt_nth: "map (\<lambda>i. f (xs ! i)) [0..<length xs] = map f xs"
  by (rule nth_equalityI) simp_all

lemma sum_list_pos_ex:
  "(0 :: int) < sum_list xs \<Longrightarrow> \<exists>i < length xs. 0 < xs ! i"
proof (rule ccontr)
  assume pos: "0 < sum_list xs" and "\<not> (\<exists>i < length xs. 0 < xs ! i)"
  then have "\<forall>x \<in> set xs. x \<le> 0" by (metis in_set_conv_nth not_less)
  then have "sum_list xs \<le> 0" by (simp add: sum_list_nonpos)
  with pos show False by simp
qed

lemma sum_list_le_eq_nth:
  fixes xs ys :: "int list"
  assumes "length xs = length ys" "\<forall>i < length ys. xs ! i \<le> ys ! i" "sum_list xs = sum_list ys"
  shows "xs = ys"
  using assms
proof (induction xs ys rule: list_induct2)
  case Nil
  then show ?case by simp
next
  case (Cons x xs y ys)
  have le: "x \<le> y" "\<forall>i < length ys. xs ! i \<le> ys ! i"
    using Cons.prems(1) by (auto dest: spec [of _ "Suc _"] spec [of _ 0])
  have "sum_list xs \<le> sum_list ys"
    using le(2) Cons.hyps by (metis length_map map_nth sum_list_mono2)
  with le(1) Cons.prems(2) have "x = y" "sum_list xs = sum_list ys" by auto
  with le(2) Cons.IH show ?case by simp
qed

lemma sum_count_list:
  fixes js :: "nat list"
  shows "set js \<subseteq> {..<n} \<Longrightarrow> (\<Sum>i<n. int (count_list js i)) = int (length js)"
proof (induction js)
  case Nil
  then show ?case by simp
next
  case (Cons j js)
  have "(\<Sum>i<n. int (count_list (j # js) i))
      = (\<Sum>i<n. (if i = j then 1 else 0) + int (count_list js i))"
    by (rule sum.cong) auto
  also have "\<dots> = (\<Sum>i<n. (if i = j then 1 else 0)) + (\<Sum>i<n. int (count_list js i))"
    by (rule sum.distrib)
  also have "\<dots> = 1 + int (length js)" using Cons by simp
  finally show ?case by simp
qed

end
