(* ===== verification/Go_Time.thy ===== *)
theory Go_Time
  imports Go_Strings
begin

section \<open>Times, durations and the two date formats the program uses\<close>

text \<open>
  An instant is the number of nanoseconds since 1970-01-01 00:00:00 UTC, a \<open>time.Duration\<close> the
  number of nanoseconds kept in the range of \<open>int64\<close>.  \<open>http.TimeFormat\<close> and \<open>time.RFC1123\<close> differ in
  the end only: the first requires the letters GMT, the second takes any time zone abbreviation.
  The offset an abbreviation has in the machine's time zone is the argument \<open>loc\<close>; abbreviations
  it does not know are read as UTC, as Go does.
\<close>

definition Second :: int where "Second = 1000000000"

definition clamp64 :: "int \<Rightarrow> int" where
  "clamp64 x = max (-9223372036854775808) (min 9223372036854775807 x)"

definition wrap64 :: "int \<Rightarrow> int" where
  "wrap64 x = (x + 9223372036854775808) mod 18446744073709551616 - 9223372036854775808"

lemma wrap64_id: "-9223372036854775808 \<le> x \<Longrightarrow> x < 9223372036854775808 \<Longrightarrow> wrap64 x = x"
  by (simp add: wrap64_def)

text \<open>\<open>t.Sub(u)\<close> saturates.\<close>

definition time_Sub :: "int \<Rightarrow> int \<Rightarrow> int" where
  "time_Sub t u = clamp64 (t - u)"

subsection \<open>The calendar\<close>

definition leap :: "int \<Rightarrow> bool" where
  "leap y \<longleftrightarrow> y mod 4 = 0 \<and> (y mod 100 \<noteq> 0 \<or> y mod 400 = 0)"

definition days_in :: "int \<Rightarrow> int \<Rightarrow> int" where
  "days_in m y = (if m = 2 then (if leap y then 29 else 28) else if m \<in> {4, 6, 9, 11} then 30 else 31)"

text \<open>Days since 1970-01-01 of a date, and back; years are counted from March so that the leap day
  is the last day of the year.\<close>

definition days_of_civil :: "int \<Rightarrow> int \<Rightarrow> int \<Rightarrow> int" where
  "days_of_civil y m d =
     (let y' = (if m \<le> 2 then y - 1 else y); yoe = y' mod 400;
          doy = (153 * (if m > 2 then m - 3 else m + 9) + 2) div 5 + d - 1
      in y' div 400 * 146097 + yoe * 365 + yoe div 4 - yoe div 100 + doy - 719468)"

definition civil_of_days :: "int \<Rightarrow> int \<times> int \<times> int" where
  "civil_of_days z =
     (let doe = (z + 719468) mod 146097;
          n100 = min 3 (doe div 36524); d100 = doe - 36524 * n100;
          n4 = d100 div 1461; d4 = d100 mod 1461;
          n1 = min 3 (d4 div 365); doy = d4 - 365 * n1;
          mp = (5 * doy + 2) div 153;
          m = (if mp < 10 then mp + 3 else mp - 9)
      in ((z + 719468) div 146097 * 400 + 100 * n100 + 4 * n4 + n1 + (if m \<le> 2 then 1 else 0), m,
          doy - (153 * mp + 2) div 5 + 1))"

definition day_names :: "string list" where
  "day_names = [''Sun'', ''Mon'', ''Tue'', ''Wed'', ''Thu'', ''Fri'', ''Sat'']"

definition month_names :: "string list" where
  "month_names = [''Jan'', ''Feb'', ''Mar'', ''Apr'', ''May'', ''Jun'', ''Jul'', ''Aug'', ''Sep'', ''Oct'', ''Nov'', ''Dec'']"

definition pad :: "nat \<Rightarrow> nat \<Rightarrow> string" where
  "pad w n = (let s = FormatUint n in replicate (w - length s) CHR ''0'' @ s)"

text \<open>\<open>Mon, 02 Jan 2006 15:04:05 \<close> of the instant in UTC.\<close>

definition format_datetime :: "int \<Rightarrow> string" where
  "format_datetime t =
     (let secs = t div Second; days = secs div 86400; sod = secs mod 86400 in
      case civil_of_days days of (y, m, d) \<Rightarrow>
        day_names ! nat ((days + 4) mod 7) @ '', '' @ pad 2 (nat d) @ '' '' @ month_names ! nat (m - 1) @ '' '' @
        (if y < 0 then ''-'' @ pad 4 (nat (- y)) else pad 4 (nat y)) @ '' '' @
        pad 2 (nat (sod div 3600)) @ '':'' @ pad 2 (nat (sod div 60 mod 60)) @ '':'' @ pad 2 (nat (sod mod 60)) @ '' '')"

definition format_http :: "int \<Rightarrow> string" where
  "format_http t = format_datetime t @ ''GMT''"

definition format_rfc1123 :: "int \<Rightarrow> string" where
  "format_rfc1123 t = format_datetime t @ ''UTC''"

subsection \<open>time.Parse\<close>

text \<open>Reading an element returns its value and the rest of the text.\<close>

fun skip :: "string \<Rightarrow> string \<Rightarrow> string option" where
  "skip v [] = Some v"
| "skip v (p # ps) =
     (if p = CHR '' '' then
        (if v \<noteq> [] \<and> hd v \<noteq> CHR '' '' then None else skip (dropWhile (\<lambda>c. c = CHR '' '') v) ps)
      else if v \<noteq> [] \<and> hd v = p then skip (tl v) ps else None)"

definition same_letters :: "string \<Rightarrow> string \<Rightarrow> bool" where
  "same_letters s t \<longleftrightarrow> map lower_char s = map lower_char t"

definition lookup_name :: "string list \<Rightarrow> string \<Rightarrow> (nat \<times> string) option" where
  "lookup_name names v =
     (case find (\<lambda>i. same_letters (take (length (names ! i)) v) (names ! i)) [0..<length names] of
        None \<Rightarrow> None
      | Some i \<Rightarrow> Some (i, drop (length (names ! i)) v))"

definition getnum :: "bool \<Rightarrow> string \<Rightarrow> (nat \<times> string) option" where
  "getnum fixed v =
     (if v = [] \<or> \<not> is_digit (hd v) then None
      else if tl v = [] \<or> \<not> is_digit (hd (tl v))
        then (if fixed then None else Some (digit_val (hd v), tl v))
      else Some (digits_val (take 2 v), drop 2 v))"

definition getyear :: "string \<Rightarrow> (nat \<times> string) option" where
  "getyear v = (if length v < 4 \<or> \<not> list_all is_digit (take 4 v) then None
     else Some (digits_val (take 4 v), drop 4 v))"

definition getsecond :: "string \<Rightarrow> (nat \<times> nat \<times> string) option" where
  "getsecond v = (case getnum True v of
       None \<Rightarrow> None
     | Some (s, r) \<Rightarrow>
         if 60 \<le> s then None
         else if 2 \<le> length r \<and> hd r \<in> set '',.'' \<and> is_digit (hd (tl r)) then
           (let ds = takeWhile is_digit (tl r); f = take 9 ds
            in Some (s, digits_val f * 10 ^ (9 - length f), drop (length ds) (tl r)))
         else Some (s, 0, r))"

text \<open>The common part of the two layouts, up to and including the seconds.\<close>

definition parse_datetime :: "string \<Rightarrow> (int \<times> string) option" where
  "parse_datetime v =
     Option.bind (lookup_name day_names v) (\<lambda>(_, v).
     Option.bind (skip v '', '') (\<lambda>v.
     Option.bind (getnum True v) (\<lambda>(d, v).
     Option.bind (skip v '' '') (\<lambda>v.
     Option.bind (lookup_name month_names v) (\<lambda>(m, v).
     Option.bind (skip v '' '') (\<lambda>v.
     Option.bind (getyear v) (\<lambda>(y, v).
     Option.bind (skip v '' '') (\<lambda>v.
     Option.bind (getnum False v) (\<lambda>(h, v).
     if 24 \<le> h then None else
     Option.bind (skip v '':'') (\<lambda>v.
     Option.bind (getnum True v) (\<lambda>(mi, v).
     if 60 \<le> mi then None else
     Option.bind (skip v '':'') (\<lambda>v.
     Option.bind (getsecond v) (\<lambda>(s, ns, v).
     if d < 1 \<or> days_in (int m + 1) (int y) < int d then None
     else Some ((days_of_civil (int y) (int m + 1) (int d) * 86400 + int (h * 3600 + mi * 60 + s)) * Second + int ns, v))))))))))))))"

definition is_upper :: "char \<Rightarrow> bool" where
  "is_upper c \<longleftrightarrow> 65 \<le> (of_char c :: nat) \<and> (of_char c :: nat) \<le> 90"

definition signed_offset_length :: "string \<Rightarrow> nat" where
  "signed_offset_length v =
     (if v = [] \<or> hd v \<notin> set ''+-'' then 0
      else let ds = takeWhile is_digit (tl v)
        in if ds = [] \<or> 23 < digits_val ds then 0 else 1 + length ds)"

text \<open>The length of the time zone abbreviation at the start of a text.\<close>

definition zone_length :: "string \<Rightarrow> nat option" where
  "zone_length v =
     (if length v < 3 then None
      else if take 4 v = ''ChST'' \<or> take 4 v = ''MeST'' then Some 4
      else if take 3 v = ''GMT'' then Some (3 + signed_offset_length (drop 3 v))
      else if hd v \<in> set ''+-'' then (let n = signed_offset_length v in if 0 < n then Some n else None)
      else let n = length (takeWhile is_upper (take 6 v)) in
        if n = 5 then (if v ! 4 = CHR ''T'' then Some 5 else None)
        else if n = 4 then (if v ! 3 = CHR ''T'' \<or> take 4 v = ''WITA'' then Some 4 else None)
        else if n = 3 then Some 3 else None)"

definition parse_http :: "string \<Rightarrow> int option" where
  "parse_http v = Option.bind (parse_datetime v) (\<lambda>(t, v).
     if skip v '' GMT'' = Some [] then Some t else None)"

definition parse_rfc1123 :: "(string \<Rightarrow> int \<Rightarrow> int option) \<Rightarrow> string \<Rightarrow> int option" where
  "parse_rfc1123 loc v =
     Option.bind (parse_datetime v) (\<lambda>(t, v).
     Option.bind (skip v '' '') (\<lambda>v.
     if take 3 v = ''UTC'' then (if drop 3 v = [] then Some t else None)
     else case zone_length v of
        None \<Rightarrow> None
      | Some n \<Rightarrow>
          if drop n v \<noteq> [] then None
          else case loc (take n v) (t div Second) of
            None \<Rightarrow> Some t
          | Some off \<Rightarrow> Some (t - off * Second)))"

subsection \<open>Facts about the calendar\<close>

text \<open>A day of the 400-year cycle as a year of the cycle and a day of that year.\<close>

lemma year_of_cycle:
  fixes doe :: int
  assumes "0 \<le> doe" "doe < 146097"
  defines "n100 \<equiv> min 3 (doe div 36524)"
  defines "d100 \<equiv> doe - 36524 * n100"
  defines "n4 \<equiv> d100 div 1461" and "d4 \<equiv> d100 mod 1461"
  defines "n1 \<equiv> min 3 (d4 div 365)"
  defines "doy \<equiv> d4 - 365 * n1"
  shows "0 \<le> doy" "doy \<le> 365" "0 \<le> n1" "n1 \<le> 3" "0 \<le> n4" "n4 \<le> 24" "0 \<le> n100" "n100 \<le> 3"
    and "doe = 36524 * n100 + 1461 * n4 + 365 * n1 + doy"
    and "doy = 365 \<Longrightarrow> n1 = 3 \<and> (n4 = 24 \<longrightarrow> n100 = 3)"
proof -
  have h: "0 \<le> n100" "n100 \<le> 3" "0 \<le> d100" "d100 \<le> 36524" "n100 \<noteq> 3 \<Longrightarrow> d100 < 36524"
    using assms(1,2) unfolding d100_def n100_def by linarith+
  have q: "d100 = 1461 * n4 + d4" "0 \<le> d4" "d4 < 1461" unfolding n4_def d4_def by simp_all
  then have n4: "0 \<le> n4" "n4 \<le> 24" using h by linarith+
  have y: "0 \<le> n1" "n1 \<le> 3" "0 \<le> doy" "doy \<le> 365" "doy = 365 \<Longrightarrow> n1 = 3 \<and> d4 = 1460"
    using q(2,3) unfolding doy_def n1_def by linarith+
  show "0 \<le> doy" "doy \<le> 365" "0 \<le> n1" "n1 \<le> 3" "0 \<le> n4" "n4 \<le> 24" "0 \<le> n100" "n100 \<le> 3"
    using h n4 y by simp_all
  show "doe = 36524 * n100 + 1461 * n4 + 365 * n1 + doy" using q unfolding d100_def doy_def by simp
  assume "doy = 365"
  then show "n1 = 3 \<and> (n4 = 24 \<longrightarrow> n100 = 3)" using y(5) q(1) h(5) by auto
qed

text \<open>The month (counted from March) and day of month of a day of the year.\<close>

lemma month_of_year:
  fixes doy :: int
  assumes "0 \<le> doy" "doy \<le> 365"
  defines "mp \<equiv> (5 * doy + 2) div 153"
  defines "d \<equiv> doy - (153 * mp + 2) div 5 + 1"
  shows "0 \<le> mp" "mp \<le> 11" "1 \<le> d"
    and "d \<le> (if mp = 11 then (if doy = 365 then 29 else 28) else if mp \<in> {1, 3, 6, 8} then 30 else 31)"
proof -
  define r where "r = (5 * doy + 2) mod 153"
  have "5 * doy + 2 = 153 * mp + r" "0 \<le> r" "r < 153" unfolding mp_def r_def by simp_all
  then have mp: "153 * mp \<le> 5 * doy + 2" "5 * doy + 2 < 153 * (mp + 1)" by simp_all
  show b: "0 \<le> mp" "mp \<le> 11" using mp assms(1,2) by simp_all
  have "mp \<in> {0, 1, 2, 3, 4, 5, 6, 7, 8, 9, 10, 11}" using b by simp presburger
  then show "1 \<le> d" "d \<le> (if mp = 11 then (if doy = 365 then 29 else 28) else if mp \<in> {1, 3, 6, 8} then 30 else 31)"
    using mp assms(1,2) unfolding d_def by auto
qed

lemma leap_cycle: "leap (400 * k + y) = leap y"
proof -
  have "(400 * k + y) mod c = y mod c" if "400 * k = c * j" for c j
    unfolding that by simp
  from this [of 4 "100 * k"] this [of 100 "4 * k"] this [of 400 k]
  show ?thesis unfolding leap_def by simp
qed

lemma civil_of_days_correct:
  assumes "civil_of_days z = (y, m, d)"
  shows "days_of_civil y m d = z" "1 \<le> m" "m \<le> 12" "1 \<le> d" "d \<le> days_in m y"
proof -
  define era doe where "era = (z + 719468) div 146097" and "doe = (z + 719468) mod 146097"
  define n100 where "n100 = min 3 (doe div 36524)"
  define n4 where "n4 = (doe - 36524 * n100) div 1461"
  define n1 where "n1 = min 3 ((doe - 36524 * n100) mod 1461 div 365)"
  define doy where "doy = (doe - 36524 * n100) mod 1461 - 365 * n1"
  define mp where "mp = (5 * doy + 2) div 153"
  have doe: "0 \<le> doe" "doe < 146097" unfolding doe_def by simp_all
  note yc = year_of_cycle [OF doe, folded n100_def, folded n4_def n1_def, folded doy_def]
  note mo = month_of_year [OF yc(1,2), folded mp_def]
  have m: "m = (if mp < 10 then mp + 3 else mp - 9)"
    and d: "d = doy - (153 * mp + 2) div 5 + 1"
    and y: "y = era * 400 + 100 * n100 + 4 * n4 + n1 + (if m \<le> 2 then 1 else 0)"
    using assms unfolding civil_of_days_def Let_def era_def [symmetric] doe_def [symmetric] n100_def [symmetric]
      n4_def [symmetric] n1_def [symmetric] doy_def [symmetric] mp_def [symmetric]
    by auto
  show m12: "1 \<le> m" "m \<le> 12" using mo(1,2) m by auto
  show "1 \<le> d" using mo(3) d by simp
  define y' where "y' = (if m \<le> 2 then y - 1 else y)"
  define yoe where "yoe = 100 * n100 + 4 * n4 + n1"
  have yoe: "0 \<le> yoe" "yoe < 400" "yoe div 4 = 25 * n100 + n4" "yoe div 100 = n100"
    using yc(3-8) unfolding yoe_def by linarith+
  have y': "y' = yoe + era * 400" using y unfolding y'_def yoe_def by auto
  have e: "y' div 400 = era" "y' mod 400 = yoe" unfolding y' using yoe(1,2) by simp_all
  have mp': "(if m > 2 then m - 3 else m + 9) = mp" using m mo(1,2) by auto
  have "days_of_civil y m d = era * 146097 + yoe * 365 + yoe div 4 - yoe div 100 + ((153 * mp + 2) div 5 + d - 1) - 719468"
    unfolding days_of_civil_def Let_def y'_def [symmetric] mp' e ..
  also have "\<dots> = era * 146097 + doe - 719468"
    using yc(9) yoe(3,4) yoe_def d by linarith
  also have "\<dots> = z" unfolding era_def doe_def by simp
  finally show "days_of_civil y m d = z" .
  have leap: "leap y" if "mp = 11" "doy = 365"
  proof -
    have "y = 400 * era + (100 * n100 + 4 * n4 + 4)" using y yc(10) [OF that(2)] m that(1) by simp
    moreover have "leap (100 * n100 + 4 * n4 + 4)"
    proof (cases "n4 = 24")
      case True
      then show ?thesis using yc(10) [OF that(2)] by (simp add: leap_def)
    next
      case False
      have "(100 * n100 + (4 * n4 + 4)) mod 100 = (4 * n4 + 4) mod 100" by simp
      also have "\<dots> = 4 * n4 + 4" using yc(5,6) False by (intro mod_pos_pos_trivial) auto
      finally have "(100 * n100 + 4 * n4 + 4) mod 100 \<noteq> 0" using yc(5) by (simp add: add.assoc)
      moreover have "(100 * n100 + 4 * n4 + 4) mod 4 = (4 * (25 * n100 + n4 + 1)) mod 4" by simp
      ultimately show ?thesis by (simp add: leap_def)
    qed
    ultimately show ?thesis by (simp add: leap_cycle)
  qed
  have "mp \<in> {0, 1, 2, 3, 4, 5, 6, 7, 8, 9, 10, 11}" using mo(1,2) by simp presburger
  then show "d \<le> days_in m y" using mo(4) leap unfolding d [symmetric] m days_in_def
    by (auto split: if_splits)
qed

subsection \<open>Reading back what was printed\<close>

lemma FormatUint_length: "n < 10 ^ Suc w \<Longrightarrow> length (FormatUint n) \<le> Suc w"
proof (induction w arbitrary: n)
  case 0
  then show ?case by (subst FormatUint.simps) simp
next
  case (Suc w)
  then have "n div 10 < 10 ^ Suc w" by (simp add: less_mult_imp_div_less)
  then have "length (FormatUint (n div 10)) \<le> Suc w" by (rule Suc.IH)
  then show ?case by (subst FormatUint.simps) simp
qed

lemma digits_val_zeros: "digits_val (replicate k CHR ''0'' @ s) = digits_val s"
  by (induction k) (simp_all add: digits_val_def digit_val_def)

lemma pad_facts:
  assumes "n < 10 ^ w" "0 < w"
  shows "length (pad w n) = w" "list_all is_digit (pad w n)" "digits_val (pad w n) = n"
proof -
  obtain v where "w = Suc v" using assms(2) by (cases w) auto
  then have "length (FormatUint n) \<le> w" using FormatUint_length assms(1) by simp
  then show "length (pad w n) = w" "list_all is_digit (pad w n)" "digits_val (pad w n) = n"
    using FormatUint_digits [of n]
    by (simp_all add: pad_def Let_def digits_val_zeros) (simp add: list_all_iff is_digit_def)
qed

lemma getnum_pad: "n < 100 \<Longrightarrow> getnum fixed (pad 2 n @ v) = Some (n, v)"
proof -
  assume "n < 100"
  then have p: "length (pad 2 n) = 2" "list_all is_digit (pad 2 n)" "digits_val (pad 2 n) = n"
    using pad_facts [of n 2] by simp_all
  from p(1) obtain a b where "pad 2 n = [a, b]" by (auto simp: numeral_2_eq_2 length_Suc_conv)
  with p(2,3) show ?thesis by (simp add: getnum_def)
qed

lemma getyear_pad: "n < 10000 \<Longrightarrow> getyear (pad 4 n @ v) = Some (n, v)"
  using pad_facts [of n 4] by (simp add: getyear_def)

lemma lookup_name_nth:
  assumes "\<forall>s \<in> set names. length s = k" "distinct (map (map lower_char) names)" "i < length names"
  shows "lookup_name names (names ! i @ v) = Some (i, v)"
proof -
  have len: "length (names ! j) = k" if "j < length names" for j using assms(1) that by simp
  have P: "same_letters (take (length (names ! j)) (names ! i @ v)) (names ! j) \<longleftrightarrow> i = j"
    if "j < length names" for j
    using nth_eq_iff_index_eq [OF assms(2), of i j] assms(3) that len
    by (simp add: same_letters_def)
  have "find (\<lambda>j. same_letters (take (length (names ! j)) (names ! i @ v)) (names ! j)) [0..<length names] = Some i"
    unfolding find_Some_iff using assms(3) P by (intro exI [of _ i]) (auto simp: same_letters_def)
  then show ?thesis by (simp add: lookup_name_def)
qed

lemma lookup_day: "i < 7 \<Longrightarrow> lookup_name day_names (day_names ! i @ v) = Some (i, v)"
  by (rule lookup_name_nth [of _ 3]) (simp_all add: day_names_def lower_char_def)

lemma lookup_month: "i < 12 \<Longrightarrow> lookup_name month_names (month_names ! i @ v) = Some (i, v)"
  by (rule lookup_name_nth [of _ 3]) (simp_all add: month_names_def lower_char_def)

lemma digit_not_space: "is_digit c \<Longrightarrow> c \<noteq> CHR '' ''"
  by (auto simp: is_digit_def)

lemma dropWhile_space:
  assumes "s \<noteq> []" "hd s \<noteq> CHR '' ''"
  shows "dropWhile (\<lambda>c. c = CHR '' '') (s @ v) = s @ v"
  using assms by (cases s) auto

lemma pad_hd:
  assumes "n < 10 ^ w" "0 < w"
  shows "pad w n \<noteq> [] \<and> hd (pad w n) \<noteq> CHR '' ''"
proof -
  have "pad w n \<noteq> []" using pad_facts(1) [OF assms] assms(2) by auto
  then show ?thesis using pad_facts(2) [OF assms] digit_not_space by (cases "pad w n") auto
qed

lemma skip_pad:
  assumes "n < 10 ^ w" "0 < w"
  shows "skip (CHR '' '' # pad w n @ v) '' '' = Some (pad w n @ v)"
  using dropWhile_space [of "pad w n" v] pad_hd [OF assms] by simp

lemma skip_comma_pad:
  assumes "n < 10 ^ w" "0 < w"
  shows "skip (CHR '','' # CHR '' '' # pad w n @ v) '', '' = Some (pad w n @ v)"
  using dropWhile_space [of "pad w n" v] pad_hd [OF assms] by simp

lemma skip_month:
  assumes "i < 12"
  shows "skip (CHR '' '' # month_names ! i @ v) '' '' = Some (month_names ! i @ v)"
proof -
  have "\<forall>s \<in> set month_names. s \<noteq> [] \<and> hd s \<noteq> CHR '' ''" by (simp add: month_names_def)
  moreover have "month_names ! i \<in> set month_names" using assms by (intro nth_mem) (simp add: month_names_def)
  ultimately show ?thesis using dropWhile_space [of "month_names ! i" v] by simp
qed

lemma getsecond_pad: "n < 60 \<Longrightarrow> getsecond (pad 2 n @ CHR '' '' # v) = Some (n, 0, CHR '' '' # v)"
  by (simp add: getsecond_def getnum_pad)

text \<open>The instants whose year has four digits.\<close>

definition printable :: "int \<Rightarrow> bool" where
  "printable t \<longleftrightarrow> (let y = fst (civil_of_days (t div Second div 86400)) in 0 \<le> y \<and> y < 10000)"

lemma parse_format_datetime:
  assumes "printable t"
  shows "parse_datetime (format_datetime t @ v) = Some (t div Second * Second, CHR '' '' # v)"
proof -
  define secs where "secs = t div Second"
  define days sod where "days = secs div 86400" and "sod = secs mod 86400"
  obtain y m d where c: "civil_of_days days = (y, m, d)" by (cases "civil_of_days days") auto
  have y: "0 \<le> y" "y < 10000" using assms c by (simp_all add: printable_def days_def secs_def)
  note cd = civil_of_days_correct [OF c]
  define i where "i = nat ((days + 4) mod 7)"
  define h mi s where "h = nat (sod div 3600)" and "mi = nat (sod div 60 mod 60)" and "s = nat (sod mod 60)"
  have "0 \<le> (days + 4) mod 7" "(days + 4) mod 7 < 7" by simp_all
  then have i: "i < 7" unfolding i_def by simp
  have sod: "0 \<le> sod" "sod < 86400" unfolding sod_def by simp_all
  then have b: "h < 24" "mi < 60" "s < 60" unfolding h_def mi_def s_def by auto
  have "sod div 3600 = sod div 60 div 60" using zdiv_zmult2_eq [of 60 sod 60] by simp
  then have "sod div 3600 * 3600 + sod div 60 mod 60 * 60 + sod mod 60 = sod"
    using div_mult_mod_eq [of "sod div 60" 60] div_mult_mod_eq [of sod 60] by linarith
  then have hms: "int (h * 3600 + mi * 60 + s) = sod"
    using sod unfolding h_def mi_def s_def by (simp add: pos_imp_zdiv_nonneg_iff)
  have d31: "nat d < 100" "1 \<le> nat d" using cd(4,5) by (auto simp: days_in_def split: if_splits)
  have mn: "nat (m - 1) < 12" "int (nat (m - 1)) + 1 = m" using cd(2,3) by auto
  have f: "format_datetime t @ v = day_names ! i @ CHR '','' # CHR '' '' # pad 2 (nat d) @ CHR '' '' #
      month_names ! nat (m - 1) @ CHR '' '' # pad 4 (nat y) @ CHR '' '' # pad 2 h @ CHR '':'' # pad 2 mi
      @ CHR '':'' # pad 2 s @ CHR '' '' # v"
    unfolding format_datetime_def Let_def secs_def [symmetric] days_def [symmetric] sod_def [symmetric]
      i_def [symmetric] h_def [symmetric] mi_def [symmetric] s_def [symmetric] c
    using y by simp
  have t: "(days * 86400 + sod) * Second = t div Second * Second"
    by (simp add: days_def sod_def secs_def)
  note steps = lookup_day [OF i] skip_comma_pad [of "nat d" 2] getnum_pad skip_month [OF mn(1)] lookup_month [OF mn(1)]
    skip_pad getyear_pad getsecond_pad
  have "parse_datetime (format_datetime t @ v) =
      Some ((days_of_civil (int (nat y)) (int (nat (m - 1)) + 1) (int (nat d)) * 86400
        + int (h * 3600 + mi * 60 + s)) * Second + int 0, CHR '' '' # v)"
    unfolding f parse_datetime_def using steps b d31 y cd(4,5) mn(2) by simp
  then show ?thesis using cd(1,4) y(1) mn(2) hms t by simp
qed

lemma parse_format_http: "printable t \<Longrightarrow> parse_http (format_http t) = Some (t div Second * Second)"
  by (simp add: parse_http_def format_http_def parse_format_datetime)

lemma parse_format_rfc1123: "printable t \<Longrightarrow> parse_rfc1123 loc (format_rfc1123 t) = Some (t div Second * Second)"
  by (simp add: parse_rfc1123_def format_rfc1123_def parse_format_datetime)

end
