(* ===== verification/Client_Config.thy ===== *)
theory Client_Config
  imports Go_Time
begin

section \<open>doh-client/config/config.go\<close>

text \<open>
  The configuration of the client, nested as its TOML tables are, and the defaults \<open>LoadConfig\<close>
  fills in.  Reading the file is done by a package outside the repository: the argument of
  \<open>LoadConfig\<close> is its result, an error or the decoded configuration with the keys that had no field.
\<close>

definition Random :: string where "Random = ''random''"
definition NginxWRR :: string where "NginxWRR = ''weighted_round_robin''"
definition LVSWRR :: string where "LVSWRR = ''lvs_weighted_round_robin''"

record upstreamDetail =
  udURL :: string
  udWeight :: int

record upstream_conf =
  UpstreamGoogle :: "upstreamDetail list"
  UpstreamIETF :: "upstreamDetail list"
  UpstreamSelector :: string

record others =
  Bootstrap :: "string list"
  Passthrough :: "string list"
  confTimeout :: nat
  Interface :: string
  NoCookies :: bool
  NoECS :: bool
  NoIPv6 :: bool
  NoUserAgent :: bool
  confVerbose :: bool
  debugHTTPHeaders :: "string list"
  TLSInsecureSkipVerify :: bool

record Config =
  confListen :: "string list"
  confUpstream :: upstream_conf
  Other :: others

definition client_defaults :: "Config \<Rightarrow> Config" where
  "client_defaults conf =
     (let conf = (if confListen conf = [] then conf\<lparr>confListen := [''127.0.0.1:53'', ''[::1]:53'']\<rparr> else conf);
          up = confUpstream conf;
          up = (if UpstreamGoogle up = [] \<and> UpstreamIETF up = []
            then up\<lparr>UpstreamGoogle := [\<lparr>udURL = ''https://dns.google.com/resolve'', udWeight = 50\<rparr>]\<rparr> else up);
          oth = Other conf;
          oth = (if confTimeout oth = 0 then oth\<lparr>confTimeout := 10\<rparr> else oth);
          up = (if UpstreamSelector up = [] then up\<lparr>UpstreamSelector := Random\<rparr> else up)
      in conf\<lparr>confUpstream := up, Other := oth\<rparr>)"

definition LoadConfig :: "(string \<Rightarrow> string) \<Rightarrow> string + Config \<times> string list \<Rightarrow> string + Config" where
  "LoadConfig quote decoded =
     (case decoded of
        Inl err \<Rightarrow> Inl err
      | Inr (conf, undecoded) \<Rightarrow>
          if undecoded \<noteq> [] then Inl (''unknown option '' @ quote (hd undecoded))
          else Inr (client_defaults conf))"

text \<open>\<open>time.Duration(conf.Other.Timeout) * time.Second\<close>\<close>

definition timeout_duration :: "Config \<Rightarrow> int" where
  "timeout_duration conf = wrap64 (wrap64 (int (confTimeout (Other conf))) * Second)"

definition upstream_count :: "Config \<Rightarrow> nat" where
  "upstream_count conf = length (UpstreamGoogle (confUpstream conf)) + length (UpstreamIETF (confUpstream conf))"

definition client_config_ok :: "Config \<Rightarrow> bool" where
  "client_config_ok conf \<longleftrightarrow> confListen conf \<noteq> [] \<and> 0 < upstream_count conf
     \<and> 0 < confTimeout (Other conf) \<and> UpstreamSelector (confUpstream conf) \<noteq> []"

lemma client_defaults_ok: "client_config_ok (client_defaults conf)"
  by (simp add: client_config_ok_def client_defaults_def upstream_count_def Let_def Random_def)

lemma client_defaults_id: "client_config_ok conf \<Longrightarrow> client_defaults conf = conf"
  by (auto simp: client_config_ok_def client_defaults_def upstream_count_def Let_def)

lemma client_defaults_other:
  "Other (client_defaults conf) = Other conf\<lparr>confTimeout := (if confTimeout (Other conf) = 0 then 10 else confTimeout (Other conf))\<rparr>"
  by (simp add: client_defaults_def Let_def)

subsection \<open>Properties\<close>

text \<open>A configuration the client starts with has an address to listen on, at least one
  upstream, a positive timeout and the name of a selector; a file that sets all of these is taken as
  it is, and the only decoded configurations that are rejected are those with an unknown key.\<close>

theorem LoadConfig_ok:
  "case LoadConfig quote (Inr (conf, undecoded)) of
     Inl err \<Rightarrow> undecoded \<noteq> []
   | Inr conf' \<Rightarrow> undecoded = [] \<and> client_config_ok conf' \<and> (client_config_ok conf \<longrightarrow> conf' = conf)
       \<and> Other conf' = Other conf\<lparr>confTimeout := confTimeout (Other conf')\<rparr>"
  using client_defaults_ok [of conf] client_defaults_id [of conf] client_defaults_other [of conf]
  by (simp add: LoadConfig_def)

definition empty_client_config :: Config where
  "empty_client_config = \<lparr>confListen = [], confUpstream = \<lparr>UpstreamGoogle = [], UpstreamIETF = [], UpstreamSelector = []\<rparr>,
     Other = \<lparr>Bootstrap = [], Passthrough = [], confTimeout = 0, Interface = [], NoCookies = False, NoECS = False,
       NoIPv6 = False, NoUserAgent = False, confVerbose = False, debugHTTPHeaders = [], TLSInsecureSkipVerify = False\<rparr>\<rparr>"

theorem LoadConfig_ok_witness:
  "\<exists>conf. LoadConfig id (Inr (empty_client_config, [])) = Inr conf \<and> client_config_ok conf
     \<and> UpstreamSelector (confUpstream conf) = ''random''"
  using LoadConfig_ok [where quote = id and conf = empty_client_config and undecoded = "[]"]
  by (simp add: LoadConfig_def client_defaults_def empty_client_config_def Random_def)

end
