(* ===== verification/Go_Net.thy ===== *)
theory Go_Net
  imports Go_Strings
begin

unbundle bit_operations_syntax

section \<open>The functions of package net the program calls\<close>

text \<open>
  A \<open>net.IP\<close> is a byte slice or nil, here \<open>bytes option\<close>; a method that may return nil returns an
  option.  \<open>ParseIP\<close> accepts dotted IPv4 and all forms of IPv6 without a zone and returns 16
  bytes, as in Go.  Host name resolution is input and output and is an argument where it is used.
\<close>

type_synonym ip = "bytes option"

definition v4InV6Prefix :: bytes where
  "v4InV6Prefix = replicate 10 0 @ [0xff, 0xff]"

definition IPv4 :: "u8 \<Rightarrow> u8 \<Rightarrow> u8 \<Rightarrow> u8 \<Rightarrow> bytes" where
  "IPv4 a b c d = v4InV6Prefix @ [a, b, c, d]"

definition To4 :: "bytes \<Rightarrow> bytes option" where
  "To4 x =
     (if length x = 4 then Some x
      else if length x = 16 \<and> take 12 x = v4InV6Prefix then Some (drop 12 x) else None)"

definition CIDRMask :: "nat \<Rightarrow> nat \<Rightarrow> bytes" where
  "CIDRMask ones bits = map (\<lambda>i. if 8 * i + 8 \<le> ones then 0xff
     else if ones \<le> 8 * i then 0 else NOT (mask (8 * i + 8 - ones))) [0..<bits div 8]"

definition Mask :: "bytes \<Rightarrow> bytes \<Rightarrow> bytes option" where
  "Mask x msk =
     (let msk' = (if length msk = 16 \<and> length x = 4 \<and> (\<forall>b \<in> set (take 12 msk). b = 0xff) then drop 12 msk else msk);
          x' = (if length msk' = 4 \<and> length x = 16 \<and> take 12 x = v4InV6Prefix then drop 12 x else x)
      in if length x' \<noteq> length msk' then None else Some (map2 (AND) x' msk'))"

record IPNet =
  netIP :: bytes
  netMask :: bytes

text \<open>The set an \<open>IPNet\<close> stands for, for a network whose address and mask have the same length.\<close>

definition net_contains :: "IPNet \<Rightarrow> bytes \<Rightarrow> bool" where
  "net_contains n x =
     (let x' = (case To4 x of Some v \<Rightarrow> v | None \<Rightarrow> x)
      in length x' = length (netIP n) \<and> map2 (AND) (netIP n) (netMask n) = map2 (AND) x' (netMask n))"

subsection \<open>Parsing addresses\<close>

definition parse_octet :: "string \<Rightarrow> u8 option" where
  "parse_octet s =
     (if s = [] \<or> \<not> list_all is_digit s \<or> (hd s = CHR ''0'' \<and> 1 < length s) \<or> 255 < digits_val s
      then None else Some (of_nat (digits_val s)))"

definition parseIPv4 :: "string \<Rightarrow> bytes option" where
  "parseIPv4 s =
     (let fields = map parse_octet (Split s CHR ''.'')
      in if length fields = 4 \<and> None \<notin> set fields then Some (map the fields) else None)"

definition is_hex :: "char \<Rightarrow> bool" where
  "is_hex c = (let n = of_char c :: nat in
     (48 \<le> n \<and> n \<le> 57) \<or> (97 \<le> n \<and> n \<le> 102) \<or> (65 \<le> n \<and> n \<le> 70))"

definition hexdigit_val :: "char \<Rightarrow> nat" where
  "hexdigit_val c = (let n = of_char c :: nat in
     if n \<le> 57 then n - 48 else if 97 \<le> n then n - 87 else n - 55)"

definition hexes_val :: "string \<Rightarrow> nat" where
  "hexes_val = foldl (\<lambda>n c. 16 * n + hexdigit_val c) 0"

definition expand_ellipsis :: "bytes \<Rightarrow> nat option \<Rightarrow> bytes option" where
  "expand_ellipsis acc e =
     (if length acc < 16
      then (case e of None \<Rightarrow> None
            | Some k \<Rightarrow> Some (take k acc @ replicate (16 - length acc) 0 @ drop k acc))
      else if e = None then Some acc else None)"

text \<open>One turn of the loop of the IPv6 parser: \<open>acc\<close> holds the bytes read so far, \<open>e\<close> the place
  of "::".\<close>

datatype turn = Done "bytes option" | More string bytes "nat option"

definition parse6_turn :: "string \<Rightarrow> bytes \<Rightarrow> nat option \<Rightarrow> turn" where
  "parse6_turn s acc e =
     (let hs = takeWhile is_hex s; rest = dropWhile is_hex s;
          acc' = acc @ [of_nat (hexes_val hs div 256), of_nat (hexes_val hs mod 256)] in
      if hs = [] \<or> 4 < length hs then Done None
      else if rest = [] then Done (expand_ellipsis acc' e)
      else if hd rest = CHR ''.'' then
        (if (e = None \<and> length acc \<noteq> 12) \<or> 16 < length acc + 4 then Done None
         else Done (case parseIPv4 s of None \<Rightarrow> None | Some v \<Rightarrow> expand_ellipsis (acc @ v) e))
      else if hd rest \<noteq> CHR '':'' \<or> tl rest = [] then Done None
      else if hd (tl rest) \<noteq> CHR '':'' then More (tl rest) acc' e
      else if e \<noteq> None then Done None
      else if tl (tl rest) = [] then Done (expand_ellipsis acc' (Some (length acc')))
      else More (tl (tl rest)) acc' (Some (length acc')))"

lemma parse6_turn_More: "parse6_turn s acc e = More t acc' e' \<Longrightarrow> length acc' = length acc + 2"
  by (auto simp: parse6_turn_def Let_def split: if_splits)

function parse6 :: "string \<Rightarrow> bytes \<Rightarrow> nat option \<Rightarrow> bytes option" where
  "parse6 s acc e =
     (if 16 \<le> length acc then (if s = [] then expand_ellipsis acc e else None)
      else case parse6_turn s acc e of
        Done r \<Rightarrow> r
      | More t acc' e' \<Rightarrow> parse6 t acc' e')"
  by pat_completeness auto

termination
  by (relation "measure (\<lambda>(s, acc, e). 16 - length acc)") (auto dest: parse6_turn_More)

declare parse6.simps [simp del]

definition parseIPv6 :: "string \<Rightarrow> bytes option" where
  "parseIPv6 s =
     (if take 2 s = ''::'' then (if length s = 2 then Some (replicate 16 0) else parse6 (drop 2 s) [] (Some 0))
      else parse6 s [] None)"

definition ParseIP :: "string \<Rightarrow> ip" where
  "ParseIP s =
     (case find (\<lambda>c. c \<in> set ''.:%'') s of
        None \<Rightarrow> None
      | Some c \<Rightarrow>
          if CHR ''%'' \<in> set s then None
          else if c = CHR ''.'' then map_option ((@) v4InV6Prefix) (parseIPv4 s)
          else parseIPv6 s)"

subsection \<open>Printing addresses\<close>

definition dotted :: "bytes \<Rightarrow> string" where
  "dotted x = (case map (FormatUint \<circ> unat) x of
      [] \<Rightarrow> [] | f # fs \<Rightarrow> f @ concat (map ((#) CHR ''.'') fs))"

fun hex_lower :: "nat \<Rightarrow> string" where
  "hex_lower n = (let d = (if n mod 16 < 10 then char_of (48 + n mod 16) else char_of (87 + n mod 16))
     in if n < 16 then [d] else hex_lower (n div 16) @ [d])"

declare hex_lower.simps [simp del]

fun groups :: "bytes \<Rightarrow> nat list" where
  "groups (a # b # r) = (256 * unat a + unat b) # groups r"
| "groups _ = []"

definition zero_run :: "nat list \<Rightarrow> nat \<Rightarrow> nat" where
  "zero_run gs i = length (takeWhile (\<lambda>g. g = 0) (drop i gs))"

text \<open>The first longest run of at least two zero groups.\<close>

definition longest_run :: "nat list \<Rightarrow> (nat \<times> nat) option" where
  "longest_run gs = foldl (\<lambda>best i.
     let l = zero_run gs i in
     if 2 \<le> l \<and> (case best of None \<Rightarrow> True | Some (a, b) \<Rightarrow> b - a < l) then Some (i, i + l) else best)
     None [0..<length gs]"

definition colons :: "nat list \<Rightarrow> string" where
  "colons gs = (case map hex_lower gs of [] \<Rightarrow> [] | f # fs \<Rightarrow> f @ concat (map ((#) CHR '':'') fs))"

definition IPv6_String :: "bytes \<Rightarrow> string" where
  "IPv6_String x =
     (let gs = groups x in
      case longest_run gs of
        None \<Rightarrow> colons gs
      | Some (a, b) \<Rightarrow> colons (take a gs) @ ''::'' @ colons (drop b gs))"

definition IP_String :: "bytes \<Rightarrow> string" where
  "IP_String x =
     (if x = [] then ''<nil>''
      else case To4 x of
        Some v \<Rightarrow> dotted v
      | None \<Rightarrow>
          if length x = 16 then IPv6_String x
          else ''?'' @ concat (map (\<lambda>b. let h = hex_lower (unat b) in if unat b < 16 then CHR ''0'' # h else h) x))"

subsection \<open>Host and port\<close>

definition SplitHostPort :: "string \<Rightarrow> (string \<times> string) option" where
  "SplitHostPort s =
     (case IndexByte (rev s) CHR '':'' of
        None \<Rightarrow> None
      | Some r \<Rightarrow>
          let i = length s - 1 - r in
          if hd s = CHR ''['' then
            (case IndexByte s CHR '']'' of
               None \<Rightarrow> None
             | Some n \<Rightarrow>
                 if n + 1 \<noteq> i then None
                 else if CHR ''['' \<in> set (tl s) \<or> CHR '']'' \<in> set (drop (n + 1) s) then None
                 else Some (take (n - 1) (tl s), drop (i + 1) s))
          else if CHR '':'' \<in> set (take i s) then None
          else if CHR ''['' \<in> set s \<or> CHR '']'' \<in> set s then None
          else Some (take i s, drop (i + 1) s))"

definition JoinHostPort :: "string \<Rightarrow> string \<Rightarrow> string" where
  "JoinHostPort host port =
     (if CHR '':'' \<in> set host then ''['' @ host @ '']:'' @ port else host @ '':'' @ port)"

text \<open>\<open>net.ParseCIDR\<close>, of which the program uses the address and whether there was an error.\<close>

definition ParseCIDR :: "string \<Rightarrow> bytes option" where
  "ParseCIDR s =
     (case IndexByte s CHR ''/'' of
        None \<Rightarrow> None
      | Some i \<Rightarrow>
          let addr = take i s; msk = drop (i + 1) s;
              bits = (if find (\<lambda>c. c \<in> set ''.:'') addr = Some CHR ''.'' then 32 else 128) in
          (case ParseIP addr of
             None \<Rightarrow> None
           | Some x \<Rightarrow>
               if msk = [] \<or> \<not> list_all is_digit msk \<or> bits < digits_val msk then None else Some x))"

subsection \<open>Facts\<close>

lemma length_v4InV6Prefix [simp]: "length v4InV6Prefix = 12"
  by (simp add: v4InV6Prefix_def)

lemma To4_length: "To4 x = Some v \<Longrightarrow> length v = 4"
  by (auto simp: To4_def split: if_splits)

lemma To4_4 [simp]: "length x = 4 \<Longrightarrow> To4 x = Some x"
  by (simp add: To4_def)

lemma To4_mapped [simp]: "length x = 4 \<Longrightarrow> To4 (v4InV6Prefix @ x) = Some x"
  by (simp add: To4_def)

lemma To4_None_length: "To4 x = None \<Longrightarrow> length x \<noteq> 4"
  by (auto simp: To4_def)

lemma To4_idem: "To4 x = Some v \<Longrightarrow> To4 v = Some v"
  by (frule To4_length) simp

lemma expand_ellipsis_length: "length acc \<le> 16 \<Longrightarrow> expand_ellipsis acc e = Some x \<Longrightarrow> length x = 16"
  by (auto simp: expand_ellipsis_def split: if_splits option.splits)

lemma parseIPv4_length: "parseIPv4 s = Some v \<Longrightarrow> length v = 4"
  by (auto simp: parseIPv4_def Let_def split: if_splits)

lemma parse6_turn_Done:
  assumes "parse6_turn s acc e = Done (Some x)" "length acc < 16" "even (length acc)"
  shows "length x = 16"
proof -
  define hs rest where "hs = takeWhile is_hex s" and "rest = dropWhile is_hex s"
  define acc' :: bytes where "acc' = acc @ [of_nat (hexes_val hs div 256), of_nat (hexes_val hs mod 256)]"
  have "length acc' \<le> 16" using assms(2,3) by (simp add: acc'_def) presburger
  note e = expand_ellipsis_length [OF this]
  from assms(1) consider (last) k where "expand_ellipsis acc' k = Some x"
    | (v4) v where "parseIPv4 s = Some v" "expand_ellipsis (acc @ v) e = Some x" "length acc + 4 \<le> 16"
    unfolding parse6_turn_def Let_def hs_def [symmetric] rest_def [symmetric] acc'_def [symmetric]
    by (simp split: if_split_asm option.split_asm)
  then show ?thesis
  proof cases
    case last
    then show ?thesis by (rule e)
  next
    case v4
    then show ?thesis using parseIPv4_length by (intro expand_ellipsis_length [OF _ v4(2)]) simp
  qed
qed

lemma parse6_length:
  "parse6 s acc e = Some x \<Longrightarrow> length acc \<le> 16 \<Longrightarrow> even (length acc) \<Longrightarrow> length x = 16"
proof (induction s acc e rule: parse6.induct)
  case (1 s acc e)
  show ?case
  proof (cases "16 \<le> length acc")
    case True
    then show ?thesis using 1(2-4) expand_ellipsis_length [of acc e x]
      by (simp add: parse6.simps split: if_splits)
  next
    case False
    show ?thesis
    proof (cases "parse6_turn s acc e")
      case (Done r)
      then show ?thesis using parse6_turn_Done [of s acc e x] False 1(2,4) by (simp add: parse6.simps)
    next
      case (More t acc' e')
      have "parse6 t acc' e' = Some x" using 1(2) False More by (simp add: parse6.simps [of s])
      moreover have "length acc' \<le> 16" "even (length acc')"
        using parse6_turn_More [OF More] False 1(4) by (simp_all, presburger)
      ultimately show ?thesis using 1(1) [OF False More] by blast
    qed
  qed
qed

lemma ParseIP_length: "ParseIP s = Some x \<Longrightarrow> length x = 16"
  by (auto simp: ParseIP_def parseIPv6_def dest!: parseIPv4_length
      split: option.splits if_splits elim!: parse6_length)

subsubsection \<open>Dotted addresses\<close>

lemma FormatUint_head: "0 < n \<Longrightarrow> hd (FormatUint n) \<noteq> CHR ''0''"
proof (induction n rule: FormatUint.induct)
  case (1 n)
  have "char_of (48 + n) \<noteq> CHR ''0''" if "n < 10"
  proof
    assume "char_of (48 + n) = CHR ''0''"
    then have "digit_val (char_of (48 + n)) = digit_val CHR ''0''" by simp
    then show False using that 1(2) by (simp add: digit_val_def)
  qed
  then show ?case using 1 by (subst FormatUint.simps) auto
qed

lemma parse_octet_FormatUint: "parse_octet (FormatUint (unat b)) = Some b"
proof -
  have "\<not> 255 < unat b" using unat_u8_less [of b] by linarith
  moreover have "\<not> (hd (FormatUint (unat b)) = CHR ''0'' \<and> 1 < length (FormatUint (unat b)))"
  proof (cases "unat b = 0")
    case True
    then show ?thesis by (simp add: FormatUint.simps)
  next
    case False
    then show ?thesis using FormatUint_head by simp
  qed
  ultimately show ?thesis by (auto simp: parse_octet_def)
qed

lemma dot_not_digit [simp]: "CHR ''.'' \<notin> set (FormatUint n)" "CHR '':'' \<notin> set (FormatUint n)"
  "CHR ''%'' \<notin> set (FormatUint n)" "CHR ''/'' \<notin> set (FormatUint n)"
  by (simp_all add: FormatUint_no_char is_digit_def)

lemma length_4_cases:
  assumes "length x = 4"
  obtains a b c d where "x = [a, b, c, d]"
  using assms by (auto simp: numeral_eq_Suc length_Suc_conv)

lemma parseIPv4_dotted:
  assumes "length x = 4"
  shows "parseIPv4 (dotted x) = Some x"
proof -
  obtain a b c d where x: "x = [a, b, c, d]" by (rule length_4_cases [OF assms])
  have "Split (dotted x) CHR ''.'' = map (FormatUint \<circ> unat) [a, b, c, d]"
    by (simp add: x dotted_def Split_append Split_no_sep)
  then show ?thesis by (simp add: parseIPv4_def parse_octet_FormatUint x Let_def)
qed

lemma find_append_Some: "\<forall>x \<in> set a. \<not> P x \<Longrightarrow> P y \<Longrightarrow> find P (a @ y # b) = Some y"
  by (induction a) auto

lemma ParseIP_dotted:
  assumes "length x = 4"
  shows "ParseIP (dotted x) = Some (v4InV6Prefix @ x)"
proof -
  obtain a b c d where x: "x = [a, b, c, d]" by (rule length_4_cases [OF assms])
  have "find (\<lambda>c. c \<in> set ''.:%'') (dotted x) = Some CHR ''.''"
  proof -
    have "\<forall>y \<in> set (FormatUint (unat a)). y \<notin> set ''.:%''"
      using dot_not_digit by auto
    then show ?thesis unfolding x dotted_def by (simp add: find_append_Some)
  qed
  moreover have "CHR ''%'' \<notin> set (dotted x)" by (simp add: x dotted_def)
  ultimately show ?thesis using parseIPv4_dotted [OF assms] by (simp add: ParseIP_def)
qed

lemma ParseIP_IP_String_v4: "To4 x = Some v \<Longrightarrow> ParseIP (IP_String x) = Some (v4InV6Prefix @ v)"
  using ParseIP_dotted [OF To4_length] by (auto simp: IP_String_def To4_def)

lemma slash_not_dotted: "length x = 4 \<Longrightarrow> CHR ''/'' \<notin> set (dotted x)"
  by (erule length_4_cases) (simp add: dotted_def)

subsubsection \<open>Masks\<close>

lemma Mask_same_length: "length x = length m \<Longrightarrow> Mask x m = Some (map2 (AND) x m)"
  by (auto simp: Mask_def)

lemma CIDRMask_24: "CIDRMask 24 32 = [0xff, 0xff, 0xff, 0]"
  by (simp add: CIDRMask_def upt_rec)

lemma CIDRMask_56: "CIDRMask 56 128 = replicate 7 0xff @ replicate 9 0"
  by code_simp

lemma and_0xff [simp]: "(x :: u8) AND 0xff = x"
proof -
  have "(0xff :: u8) = -1" by simp
  then show ?thesis by (simp only: and.right_neutral)
qed

lemma map2_and_prefix:
  "n \<le> length x \<Longrightarrow> length x = n + k \<Longrightarrow>
   map2 (AND) x (replicate n 0xff @ replicate k (0::u8)) = take n x @ replicate k 0"
proof (induction n arbitrary: x)
  case 0
  then show ?case by (intro nth_equalityI) auto
next
  case (Suc n)
  then show ?case by (cases x) auto
qed

lemma Mask_24: "length x = 4 \<Longrightarrow> Mask x (CIDRMask 24 32) = Some (take 3 x @ [0])"
  using Mask_same_length [of x "CIDRMask 24 32"] map2_and_prefix [of 3 x 1]
  by (simp add: CIDRMask_24 numeral_3_eq_3)

lemma Mask_56: "length x = 16 \<Longrightarrow> Mask x (CIDRMask 56 128) = Some (take 7 x @ replicate 9 0)"
  using Mask_same_length [of x "CIDRMask 56 128"] map2_and_prefix [of 7 x 9]
  by (simp add: CIDRMask_56)

subsubsection \<open>Masked bytes as ranges\<close>

lemma unat_high_bits: "unat ((x :: u8) AND NOT (mask k)) = unat x div 2 ^ k * 2 ^ k"
proof -
  have "x AND NOT (mask k) = push_bit k (drop_bit k x)"
    by (rule bit_word_eqI) (auto simp: bit_simps)
  also have "drop_bit k x = of_nat (unat x div 2 ^ k)"
    by (simp flip: unat_drop_bit_eq drop_bit_eq_div)
  also have "push_bit k (of_nat (unat x div 2 ^ k)) = (of_nat (unat x div 2 ^ k) * 2 ^ k :: u8)"
    by (rule push_bit_eq_mult)
  also have "\<dots> = of_nat (unat x div 2 ^ k * 2 ^ k)" by simp
  finally have "unat (x AND NOT (mask k)) = unat x div 2 ^ k * 2 ^ k mod 256"
    by (simp only: unat_of_nat) simp
  moreover have "unat x div 2 ^ k * 2 ^ k < 256"
    using div_times_less_eq_dividend [of "unat x" "2 ^ k"] unat_u8_less [of x] by linarith
  ultimately show ?thesis by simp
qed
lemma div_block:
  fixes n :: nat
  assumes "0 < d"
  shows "n div d * d = q * d \<longleftrightarrow> q * d \<le> n \<and> n < (q + 1) * d"
  using assms by (metis div_nat_eqI dividend_less_div_times div_times_less_eq_dividend mult_cancel2 nat_less_le add.commute mult.commute Suc_eq_plus1 mult_Suc)
lemma masked_block:
  assumes "m = NOT (mask k)" "unat y = q * 2 ^ k"
  shows "(x :: u8) AND m = y \<longleftrightarrow> q * 2 ^ k \<le> unat x \<and> unat x < (q + 1) * 2 ^ k"
proof -
  have "x AND m = y \<longleftrightarrow> unat x div 2 ^ k * 2 ^ k = q * 2 ^ k"
    unfolding assms(1) word_unat_eq_iff unat_high_bits assms(2) ..
  then show ?thesis using div_block [of "2 ^ k" "unat x" q] by simp
qed

lemma masked_bytes:
  fixes x :: u8
  shows "x AND 192 = 64 \<longleftrightarrow> 64 \<le> x \<and> x \<le> 127"
    "x AND 192 = 128 \<longleftrightarrow> 128 \<le> x \<and> x \<le> 191"
    "x AND 240 = 16 \<longleftrightarrow> 16 \<le> x \<and> x \<le> 31"
    "x AND 240 = 240 \<longleftrightarrow> 240 \<le> x"
    "x AND 248 = 0 \<longleftrightarrow> x \<le> 7"
    "x AND 254 = 0 \<longleftrightarrow> x \<le> 1"
    "x AND 254 = 252 \<longleftrightarrow> 252 \<le> x \<and> x \<le> 253"
proof -
  note m = mask_eq_exp_minus_1 word_le_nat_alt
  show "x AND 192 = 64 \<longleftrightarrow> 64 \<le> x \<and> x \<le> 127"
    by (subst masked_block [where k = 6 and q = 1]) (auto simp: m)
  show "x AND 192 = 128 \<longleftrightarrow> 128 \<le> x \<and> x \<le> 191"
    by (subst masked_block [where k = 6 and q = 2]) (auto simp: m)
  show "x AND 240 = 16 \<longleftrightarrow> 16 \<le> x \<and> x \<le> 31"
    by (subst masked_block [where k = 4 and q = 1]) (auto simp: m)
  show "x AND 240 = 240 \<longleftrightarrow> 240 \<le> x"
    by (subst masked_block [where k = 4 and q = 15]) (auto simp: m)
  show "x AND 248 = 0 \<longleftrightarrow> x \<le> 7"
    by (subst masked_block [where k = 3 and q = 0]) (auto simp: m)
  show "x AND 254 = 0 \<longleftrightarrow> x \<le> 1"
    by (subst masked_block [where k = 1 and q = 0]) (auto simp: m)
  show "x AND 254 = 252 \<longleftrightarrow> 252 \<le> x \<and> x \<le> 253"
    by (subst masked_block [where k = 1 and q = 126]) (auto simp: m)
qed

end
