(* ===== verification/Client_Net.thy ===== *)
theory Client_Net
  imports Client_Config Go_Net
begin

section \<open>Connections of the client: getInterfaceIPs, newHTTPClient and the two dialers\<close>

text \<open>
  The parts of doh-client/client.go that decide from which local address a connection is made.  The
  network itself is the argument \<open>net_env\<close>: the addresses of an interface, the resolver, the dialer and
  the HTTP/2 setup.  The dial functions return, beside their result, the list of the connection
  attempts they made, each with its local address, network and remote address, so that one can state
  what leaves the machine from where.
\<close>

record udp_addr =
  uaIP :: ip
  uaPort :: nat
  uaZone :: string

definition ip_text :: "ip \<Rightarrow> string" where
  "ip_text x = (case x of None \<Rightarrow> [] | Some b \<Rightarrow> if b = [] then [] else IP_String b)"

definition udp_String :: "udp_addr \<Rightarrow> string" where
  "udp_String a = JoinHostPort (if uaZone a \<noteq> [] then ip_text (uaIP a) @ ''%'' @ uaZone a else ip_text (uaIP a))
     (FormatUint (uaPort a))"

text \<open>An attempt to connect: local address, network and remote address.\<close>

type_synonym attempt = "ip \<times> string \<times> string"

record 'conn net_env =
  InterfaceByName :: "string \<Rightarrow> string + (string + string list)"
  DialContext :: "attempt \<Rightarrow> string + 'conn"
  LookupIPAddr :: "string \<Rightarrow> string + (bytes \<times> string) list"
  ConfigureTransport :: "string option"

subsection \<open>getInterfaceIPs\<close>

fun scan_addrs :: "bool \<Rightarrow> string list \<Rightarrow> ip \<Rightarrow> ip \<Rightarrow> ip \<times> ip" where
  "scan_addrs noIPv6 [] v4 v6 = (v4, v6)"
| "scan_addrs noIPv6 (addr # addrs) v4 v6 =
     (case ParseCIDR addr of
        None \<Rightarrow> scan_addrs noIPv6 addrs v4 v6
      | Some x \<Rightarrow>
          (case To4 x of
             Some x4 \<Rightarrow> scan_addrs noIPv6 addrs (if v4 = None then Some x4 else v4) v6
           | None \<Rightarrow> scan_addrs noIPv6 addrs v4 (if v6 = None \<and> \<not> noIPv6 then Some x else v6)))"

definition getInterfaceIPs :: "'conn net_env \<Rightarrow> Config \<Rightarrow> string + ip \<times> ip" where
  "getInterfaceIPs N conf =
     (if Interface (Other conf) = [] then Inr (None, None)
      else case InterfaceByName N (Interface (Other conf)) of
        Inl err \<Rightarrow> Inl err
      | Inr (Inl err) \<Rightarrow> Inl err
      | Inr (Inr addrs) \<Rightarrow>
          (case scan_addrs (NoIPv6 (Other conf)) addrs None None of (v4, v6) \<Rightarrow>
             if v4 = None \<and> v6 = None
             then Inl (''no valid IP addresses found on interface '' @ Interface (Other conf))
             else Inr (v4, v6)))"

subsection \<open>The transport\<close>

text \<open>What the closure of \<open>newHTTPClient\<close> captures, and the settings of the transport.\<close>

record http_transport =
  trLocalV4 :: ip
  trLocalV6 :: ip
  trTimeout :: int
  trInsecureSkipVerify :: bool

record http_client =
  httpTransport :: "http_transport option"
  httpClientLastCreate :: "int option"

definition newHTTPClient :: "'conn net_env \<Rightarrow> Config \<Rightarrow> int \<Rightarrow> http_client \<Rightarrow> string + http_client" where
  "newHTTPClient N conf now h =
     (if (case httpClientLastCreate h of None \<Rightarrow> False | Some t \<Rightarrow> time_Sub now t < timeout_duration conf) then Inr h
      else case getInterfaceIPs N conf of
        Inl err \<Rightarrow> Inl err
      | Inr (localV4, localV6) \<Rightarrow>
          (case ConfigureTransport N of
             Some err \<Rightarrow> Inl err
           | None \<Rightarrow> Inr (h\<lparr>httpTransport := Some \<lparr>trLocalV4 = localV4, trLocalV6 = localV6,
                 trTimeout = timeout_duration conf, trInsecureSkipVerify = TLSInsecureSkipVerify (Other conf)\<rparr>,
               httpClientLastCreate := Some now\<rparr>)))"

definition ipaddr_String :: "bytes \<times> string \<Rightarrow> string" where
  "ipaddr_String a = (if snd a \<noteq> [] then ip_text (Some (fst a)) @ ''%'' @ snd a else ip_text (Some (fst a)))"

fun dial_each ::
  "'conn net_env \<Rightarrow> http_transport \<Rightarrow> string \<Rightarrow> (bytes \<times> string) list \<Rightarrow> string option \<Rightarrow> attempt list \<times> (string option + 'conn)" where
  "dial_each N tr port [] lastErr = ([], Inl lastErr)"
| "dial_each N tr port (a # as) lastErr =
     (case (if To4 (fst a) \<noteq> None then trLocalV4 tr else trLocalV6 tr) of
        None \<Rightarrow> dial_each N tr port as lastErr
      | Some local \<Rightarrow>
          let at = (Some local, ''tcp'', JoinHostPort (ipaddr_String a) port) in
          (case DialContext N at of
             Inr conn \<Rightarrow> ([at], Inr conn)
           | Inl err \<Rightarrow> (case dial_each N tr port as (Some err) of (ats, res) \<Rightarrow> (at # ats, res))))"

definition dial_bound :: "'conn net_env \<Rightarrow> Config \<Rightarrow> http_transport \<Rightarrow> string \<Rightarrow> string \<Rightarrow> attempt list \<times> (string + 'conn)" where
  "dial_bound N conf tr network addr =
     (if Interface (Other conf) = [] then ([(None, network, addr)], DialContext N (None, network, addr))
      else if network = ''tcp4'' \<and> trLocalV4 tr \<noteq> None
      then ([(trLocalV4 tr, network, addr)], DialContext N (trLocalV4 tr, network, addr))
      else if network = ''tcp6'' \<and> trLocalV6 tr \<noteq> None
      then ([(trLocalV6 tr, network, addr)], DialContext N (trLocalV6 tr, network, addr))
      else
        let (host, port) = (case SplitHostPort addr of Some hp \<Rightarrow> hp | None \<Rightarrow> ([], [])) in
        case LookupIPAddr N host of
          Inl err \<Rightarrow> ([], Inl err)
        | Inr ips \<Rightarrow>
            (case dial_each N tr port ips None of
               (ats, Inr conn) \<Rightarrow> (ats, Inr conn)
             | (ats, Inl (Some err)) \<Rightarrow> (ats, Inl err)
             | (ats, Inl None) \<Rightarrow> (ats, Inl (''connection to '' @ addr @
                 '' failed: no matching local/remote IP families on interface '' @ Interface (Other conf)))))"

definition transport_dial :: "'conn net_env \<Rightarrow> Config \<Rightarrow> http_transport \<Rightarrow> string \<Rightarrow> string \<Rightarrow> attempt list \<times> (string + 'conn)" where
  "transport_dial N conf tr network addr =
     dial_bound N conf tr (if NoIPv6 (Other conf) \<and> HasPrefix network ''tcp'' then ''tcp4'' else network) addr"

subsection \<open>The bootstrap resolver\<close>

definition bootstrap_local :: "ip \<Rightarrow> ip \<Rightarrow> string \<Rightarrow> ip" where
  "bootstrap_local localV4 localV6 bootstrap =
     (case ParseIP (case SplitHostPort bootstrap of Some (host, _) \<Rightarrow> host | None \<Rightarrow> []) of
        None \<Rightarrow> None
      | Some x \<Rightarrow> if To4 x \<noteq> None then localV4 else localV6)"

definition bootstrap_dial ::
  "'conn net_env \<Rightarrow> Config \<Rightarrow> string list \<Rightarrow> nat \<Rightarrow> string \<Rightarrow> go_panic + attempt \<times> (string + 'conn)" where
  "bootstrap_dial N conf bootstrap draw network =
     (case rand_Intn draw (length bootstrap) of
        Inl p \<Rightarrow> Inl p
      | Inr i \<Rightarrow>
          let local = (if Interface (Other conf) = [] then None
                else case getInterfaceIPs N conf of
                  Inl err \<Rightarrow> None
                | Inr (v4, v6) \<Rightarrow> bootstrap_local v4 v6 (bootstrap ! i));
              at = (local, network, bootstrap ! i)
          in Inr (at, DialContext N at))"

subsection \<open>Facts\<close>

definition cidr_v4 :: "string \<Rightarrow> ip" where
  "cidr_v4 a = Option.bind (ParseCIDR a) To4"

definition cidr_v6 :: "string \<Rightarrow> ip" where
  "cidr_v6 a = Option.bind (ParseCIDR a) (\<lambda>x. if To4 x = None then Some x else None)"

fun first_of :: "('a \<Rightarrow> 'b option) \<Rightarrow> 'a list \<Rightarrow> 'b option" where
  "first_of f [] = None"
| "first_of f (x # xs) = (case f x of Some y \<Rightarrow> Some y | None \<Rightarrow> first_of f xs)"

lemma first_of_SomeD: "first_of f xs = Some y \<Longrightarrow> \<exists>x \<in> set xs. f x = Some y"
  by (induction xs) (auto split: option.splits)

lemma scan_addrs_eq:
  "scan_addrs no6 addrs v4 v6 =
     (case v4 of Some _ \<Rightarrow> v4 | None \<Rightarrow> first_of cidr_v4 addrs,
      case v6 of Some _ \<Rightarrow> v6 | None \<Rightarrow> if no6 then None else first_of cidr_v6 addrs)"
  by (induction addrs arbitrary: v4 v6) (auto simp: cidr_v4_def cidr_v6_def split: option.splits)

lemma getInterfaceIPs_InrD:
  assumes "getInterfaceIPs N conf = Inr (v4, v6)" "Interface (Other conf) \<noteq> []"
  shows "v4 \<noteq> None \<or> v6 \<noteq> None"
    "\<exists>addrs. InterfaceByName N (Interface (Other conf)) = Inr (Inr addrs) \<and> v4 = first_of cidr_v4 addrs
       \<and> v6 = (if NoIPv6 (Other conf) then None else first_of cidr_v6 addrs)"
  using assms by (auto simp: getInterfaceIPs_def scan_addrs_eq split: sum.splits if_splits)

text \<open>The addresses of the configured interface that may be used.\<close>

definition interface_address :: "'conn net_env \<Rightarrow> Config \<Rightarrow> bytes \<Rightarrow> bool" where
  "interface_address N conf x \<longleftrightarrow> (\<exists>addrs. InterfaceByName N (Interface (Other conf)) = Inr (Inr addrs)
     \<and> (\<exists>a \<in> set addrs. cidr_v4 a = Some x \<or> cidr_v6 a = Some x \<and> \<not> NoIPv6 (Other conf)))"

lemma getInterfaceIPs_address:
  assumes "getInterfaceIPs N conf = Inr (v4, v6)" "Interface (Other conf) \<noteq> []" "v4 = Some x \<or> v6 = Some x"
  shows "interface_address N conf x"
proof -
  obtain addrs where a: "InterfaceByName N (Interface (Other conf)) = Inr (Inr addrs)" "v4 = first_of cidr_v4 addrs"
    "v6 = (if NoIPv6 (Other conf) then None else first_of cidr_v6 addrs)"
    using getInterfaceIPs_InrD(2) [OF assms(1,2)] by blast
  have "first_of cidr_v4 addrs = Some x \<or> first_of cidr_v6 addrs = Some x \<and> \<not> NoIPv6 (Other conf)"
    using assms(3) a(2,3) by (simp split: if_splits)
  then have "\<exists>a \<in> set addrs. cidr_v4 a = Some x \<or> cidr_v6 a = Some x \<and> \<not> NoIPv6 (Other conf)"
    using first_of_SomeD by metis
  with a(1) show ?thesis by (simp add: interface_address_def)
qed

text \<open>An attempt of the transport is bound when its local address is one the closure captured.\<close>

definition bound_attempt :: "http_transport \<Rightarrow> attempt \<Rightarrow> bool" where
  "bound_attempt tr at \<longleftrightarrow> fst at \<noteq> None \<and> fst at \<in> {trLocalV4 tr, trLocalV6 tr}"

lemma dial_each_bound:
  "dial_each N tr port as lastErr = (ats, res) \<Longrightarrow> at \<in> set ats \<Longrightarrow> bound_attempt tr at"
proof (induction "as" arbitrary: lastErr ats res)
  case (Cons a "as")
  let ?local = "if To4 (fst a) \<noteq> None then trLocalV4 tr else trLocalV6 tr"
  show ?case
  proof (cases ?local)
    case None
    then show ?thesis using Cons by (auto split: if_splits)
  next
    case (Some l)
    then have "bound_attempt tr (Some l, x)" for x by (auto simp: bound_attempt_def split: if_splits)
    then show ?thesis using Some Cons by (auto simp: Let_def split: sum.splits prod.splits)
  qed
qed simp

lemma dial_each_result:
  assumes "dial_each N tr port as lastErr = (ats, Inr conn)"
  shows "\<exists>at \<in> set ats. DialContext N at = Inr conn"
  using assms
  by (induction "as" arbitrary: lastErr ats)
    (auto simp: Let_def split: option.splits sum.splits prod.splits if_splits)

lemma dial_bound_attempts:
  assumes "Interface (Other conf) \<noteq> []" "at \<in> set (fst (dial_bound N conf tr network addr))"
  shows "bound_attempt tr at"
  using assms dial_each_bound [of N tr _ _ _ _ _ at]
  by (auto simp: dial_bound_def bound_attempt_def [of tr "(_, _, _)"] Let_def split: prod.splits sum.splits if_splits option.splits)

lemma dial_bound_result:
  assumes "dial_bound N conf tr network addr = (ats, Inr conn)"
  shows "\<exists>at \<in> set ats. DialContext N at = Inr conn"
  using assms by (auto simp: dial_bound_def Let_def dest: dial_each_result split: prod.splits sum.splits if_splits option.splits)

subsection \<open>Properties\<close>

text \<open>Property C28.  When an interface is configured, the HTTP transport never opens a connection from
  any other address: each attempt has a local address that is one of the interface's own, an IPv4
  address if IPv6 is disabled, and a connection it returns is one of those attempts.\<close>

theorem transport_bound_to_interface:
  assumes "Interface (Other conf) \<noteq> []"
    "newHTTPClient N conf now \<lparr>httpTransport = None, httpClientLastCreate = None\<rparr> = Inr h"
    "httpTransport h = Some tr" "transport_dial N conf tr network addr = (ats, res)"
  shows "(\<forall>at \<in> set ats. \<exists>x. fst at = Some x \<and> interface_address N conf x)
    \<and> (\<forall>conn. res = Inr conn \<longrightarrow> (\<exists>at \<in> set ats. DialContext N at = Inr conn))"
proof (intro conjI ballI allI impI)
  fix at assume at: "at \<in> set ats"
  obtain v4 v6 where g: "getInterfaceIPs N conf = Inr (v4, v6)" and tr: "trLocalV4 tr = v4" "trLocalV6 tr = v6"
    using assms(2,3) by (auto simp: newHTTPClient_def split: sum.splits prod.splits option.splits)
  have "bound_attempt tr at"
    by (rule dial_bound_attempts [OF assms(1), of _ N tr "if NoIPv6 (Other conf) \<and> HasPrefix network ''tcp'' then ''tcp4'' else network" addr])
      (use at assms(4) in \<open>simp add: transport_dial_def\<close>)
  then obtain x where "fst at = Some x" "v4 = Some x \<or> v6 = Some x" using tr by (auto simp: bound_attempt_def)
  then show "\<exists>x. fst at = Some x \<and> interface_address N conf x" using getInterfaceIPs_address [OF g assms(1)] by blast
next
  fix conn assume "res = Inr conn"
  then show "\<exists>at \<in> set ats. DialContext N at = Inr conn" using assms(4) by (auto simp: transport_dial_def intro: dial_bound_result)
qed

definition sample_net :: "string net_env" where
  "sample_net = \<lparr>InterfaceByName = (\<lambda>n. if n = ''eth1'' then Inr (Inr [''10.0.0.2/24'']) else Inl ''no such network interface''),
     DialContext = (\<lambda>(local, nw, ra). Inr ra), LookupIPAddr = (\<lambda>h. Inr [([8, 8, 8, 8], [])]), ConfigureTransport = None\<rparr>"

definition eth1_config :: Config where
  "eth1_config = client_defaults (empty_client_config\<lparr>Other := (Other empty_client_config)\<lparr>Interface := ''eth1''\<rparr>\<rparr>)"

lemma eth1_client:
  "newHTTPClient sample_net eth1_config 0 \<lparr>httpTransport = None, httpClientLastCreate = None\<rparr> =
     Inr \<lparr>httpTransport = Some \<lparr>trLocalV4 = Some [10, 0, 0, 2], trLocalV6 = None, trTimeout = 10000000000, trInsecureSkipVerify = False\<rparr>,
       httpClientLastCreate = Some 0\<rparr>"
  by code_simp

lemma eth1_dial:
  "transport_dial sample_net eth1_config \<lparr>trLocalV4 = Some [10, 0, 0, 2], trLocalV6 = None, trTimeout = 10000000000, trInsecureSkipVerify = False\<rparr>
     ''tcp'' ''dns.google:443'' = ([(Some [10, 0, 0, 2], ''tcp'', ''8.8.8.8:443'')], Inr ''8.8.8.8:443'')"
  by code_simp

theorem transport_bound_to_interface_witness:
  "interface_address sample_net eth1_config [10, 0, 0, 2]"
  using transport_bound_to_interface [OF _ eth1_client _ eth1_dial]
  by (simp add: eth1_config_def client_defaults_def empty_client_config_def)

end
