(* ===== verification/Dns_Message.thy ===== *)
theory Dns_Message
  imports Go_Net
begin

section \<open>DNS messages and the DNS library\<close>

text \<open>
  The message types are those of the DNS package the program imports, which is not part of the
  repository: the records below have the fields the program reads or writes, and the package's
  functions are the fields of the argument \<open>dns_lib\<close>.  \<open>dns_lib_ok\<close> collects what the package
  documents about them: \<open>IsEdns0\<close> finds an OPT record of the additional section if there is one, the
  setters of the OPT header change their own field only, the UDP size is not kept in the TTL, an unpacked message has OPT records
  for type 41 and client subnet options for option code 8 only, and no record read from its text is
  an OPT record, which has no text form.  The constants are those of the
  IANA registries and the package's two message sizes.

  A resource record is an OPT record with its options, or a record of any other type with its data.
  Records of a message are reached through pointers in Go; where the program changes a record in
  place the model updates the list of records at its position.
\<close>

record rr_header =
  hdrName :: string
  Rrtype :: u16
  hdrClass :: u16
  Ttl :: u32
  Rdlength :: u16

record edns0_subnet =
  ecsCode :: u16
  ecsFamily :: u16
  SourceNetmask :: u8
  SourceScope :: u8
  ecsAddress :: ip

datatype edns0 = EDNS0_SUBNET edns0_subnet | EDNS0_Other u16 bytes

datatype rr = OPT rr_header "edns0 list" | RData rr_header bytes

record dns_question =
  qName :: string
  Qtype :: u16
  Qclass :: u16

record dns_msg =
  Id :: u16
  Response :: bool
  Opcode :: int
  Authoritative :: bool
  Truncated :: bool
  RecursionDesired :: bool
  RecursionAvailable :: bool
  Zero :: bool
  AuthenticatedData :: bool
  CheckingDisabled :: bool
  Rcode :: int
  Compress :: bool
  msgQuestion :: "dns_question list"
  msgAnswer :: "rr list"
  msgNs :: "rr list"
  msgExtra :: "rr list"

definition new_msg :: dns_msg where
  "new_msg = \<lparr>Id = 0, Response = False, Opcode = 0, Authoritative = False, Truncated = False,
     RecursionDesired = False, RecursionAvailable = False, Zero = False, AuthenticatedData = False,
     CheckingDisabled = False, Rcode = 0, Compress = False,
     msgQuestion = [], msgAnswer = [], msgNs = [], msgExtra = []\<rparr>"

definition new_header :: rr_header where
  "new_header = \<lparr>hdrName = [], Rrtype = 0, hdrClass = 0, Ttl = 0, Rdlength = 0\<rparr>"

fun rr_hdr :: "rr \<Rightarrow> rr_header" where
  "rr_hdr (OPT h os) = h"
| "rr_hdr (RData h d) = h"

fun map_hdr :: "(rr_header \<Rightarrow> rr_header) \<Rightarrow> rr \<Rightarrow> rr" where
  "map_hdr f (OPT h os) = OPT (f h) os"
| "map_hdr f (RData h d) = RData (f h) d"

definition TypeOPT :: u16 where "TypeOPT = 41"
definition TypeSOA :: u16 where "TypeSOA = 6"
definition TypeIXFR :: u16 where "TypeIXFR = 251"
definition TypeAXFR :: u16 where "TypeAXFR = 252"
definition ClassINET :: u16 where "ClassINET = 1"
definition EDNS0SUBNET :: u16 where "EDNS0SUBNET = 8"
definition RcodeSuccess :: int where "RcodeSuccess = 0"
definition RcodeFormatError :: int where "RcodeFormatError = 1"
definition RcodeServerFailure :: int where "RcodeServerFailure = 2"
definition RcodeRefused :: int where "RcodeRefused = 5"
definition DefaultMsgSize :: u16 where "DefaultMsgSize = 4096"
definition MaxMsgSize :: int where "MaxMsgSize = 65535"

fun Option_code :: "edns0 \<Rightarrow> u16" where
  "Option_code (EDNS0_SUBNET s) = EDNS0SUBNET"
| "Option_code (EDNS0_Other c d) = c"

text \<open>
  The loop over the options of an OPT record that stops at the first client subnet:
  \<open>option.Option() == dns.EDNS0SUBNET\<close> followed by the type assertion \<open>option.(*dns.EDNS0_SUBNET)\<close>.
\<close>

fun find_subnet :: "edns0 list \<Rightarrow> go_panic + edns0_subnet option" where
  "find_subnet [] = Inr None"
| "find_subnet (op # ops) =
     (if Option_code op = EDNS0SUBNET then
        (case op of EDNS0_SUBNET s \<Rightarrow> Inr (Some s) | EDNS0_Other _ _ \<Rightarrow> Inl TypeAssertion)
      else find_subnet ops)"

record dns_lib =
  IsEdns0 :: "dns_msg \<Rightarrow> nat option"
  SetUDPSize :: "u16 \<Rightarrow> rr_header \<Rightarrow> rr_header"
  UDPSize :: "rr_header \<Rightarrow> u16"
  SetDo :: "bool \<Rightarrow> rr_header \<Rightarrow> rr_header"
  getDo :: "rr_header \<Rightarrow> bool"
  TypeToString :: "u16 \<Rightarrow> string option"
  ClassToString :: "u16 \<Rightarrow> string option"
  StringToType :: "string \<Rightarrow> u16 option"
  NewRR :: "string \<Rightarrow> string + rr"
  RR_String :: "rr \<Rightarrow> string"
  Pack :: "dns_msg \<Rightarrow> string + bytes"
  Unpack :: "bytes \<Rightarrow> string + dns_msg"
  Truncate :: "int \<Rightarrow> dns_msg \<Rightarrow> dns_msg"
  Fqdn :: "string \<Rightarrow> string"
  SetQuestion :: "u16 \<Rightarrow> string \<Rightarrow> u16 \<Rightarrow> dns_msg \<Rightarrow> dns_msg"

definition wf_option :: "edns0 \<Rightarrow> bool" where
  "wf_option op \<longleftrightarrow> (case op of EDNS0_SUBNET s \<Rightarrow> True | EDNS0_Other c d \<Rightarrow> c \<noteq> EDNS0SUBNET)"

definition wf_rr :: "rr \<Rightarrow> bool" where
  "wf_rr r \<longleftrightarrow> (case r of OPT h os \<Rightarrow> Rrtype h = TypeOPT \<and> list_all wf_option os
     | RData h d \<Rightarrow> Rrtype h \<noteq> TypeOPT)"

definition wf_msg :: "dns_msg \<Rightarrow> bool" where
  "wf_msg m \<longleftrightarrow> list_all wf_rr (msgAnswer m) \<and> list_all wf_rr (msgNs m) \<and> list_all wf_rr (msgExtra m)"

definition dns_lib_ok :: "dns_lib \<Rightarrow> bool" where
  "dns_lib_ok L \<longleftrightarrow>
     (\<forall>m. case IsEdns0 L m of
        Some i \<Rightarrow> i < length (msgExtra m) \<and> Rrtype (rr_hdr (msgExtra m ! i)) = TypeOPT
      | None \<Rightarrow> (\<forall>r \<in> set (msgExtra m). Rrtype (rr_hdr r) \<noteq> TypeOPT)) \<and>
     (\<forall>n h. UDPSize L (SetUDPSize L n h) = n \<and> Rrtype (SetUDPSize L n h) = Rrtype h
        \<and> hdrName (SetUDPSize L n h) = hdrName h \<and> Ttl (SetUDPSize L n h) = Ttl h) \<and>
     (\<forall>h t. UDPSize L (h\<lparr>Ttl := t\<rparr>) = UDPSize L h) \<and>
     (\<forall>b h. getDo L (SetDo L b h) = b \<and> Rrtype (SetDo L b h) = Rrtype h
        \<and> hdrName (SetDo L b h) = hdrName h \<and> UDPSize L (SetDo L b h) = UDPSize L h) \<and>
     (\<forall>b m. Unpack L b = Inr m \<longrightarrow> wf_msg m) \<and>
     (\<forall>s r. NewRR L s = Inr r \<longrightarrow> wf_rr r \<and> Rrtype (rr_hdr r) \<noteq> TypeOPT) \<and>
     (\<forall>i name t m. SetQuestion L i name t m = m\<lparr>Id := i, RecursionDesired := True,
        msgQuestion := [\<lparr>qName = name, Qtype = t, Qclass = ClassINET\<rparr>]\<rparr>)"

text \<open>\<open>opt := new(dns.OPT)\<close> with the name, the type and the size set, and the DO bit as given.\<close>

definition new_opt :: "dns_lib \<Rightarrow> u16 \<Rightarrow> bool \<Rightarrow> rr_header" where
  "new_opt L n dnssec =
     SetDo L dnssec (SetUDPSize L n (new_header\<lparr>hdrName := ''.'', Rrtype := TypeOPT\<rparr>))"

text \<open>
  \<open>opt := msg.IsEdns0()\<close>, followed by putting a new OPT record in front of the additional section if
  there was none; the OPT record is given by its position.  Appending an option changes that record
  in place.
\<close>

definition ensure_opt :: "dns_lib \<Rightarrow> dns_msg \<Rightarrow> dns_msg \<times> nat" where
  "ensure_opt L m = (case IsEdns0 L m of
       Some i \<Rightarrow> (m, i)
     | None \<Rightarrow> (m\<lparr>msgExtra := OPT (new_opt L DefaultMsgSize False) [] # msgExtra m\<rparr>, 0))"

fun rr_options :: "rr \<Rightarrow> edns0 list" where
  "rr_options (OPT h os) = os"
| "rr_options (RData h d) = []"

fun add_option :: "edns0 \<Rightarrow> rr \<Rightarrow> rr" where
  "add_option op (OPT h os) = OPT h (os @ [op])"
| "add_option op (RData h d) = RData h d"

definition append_option :: "nat \<Rightarrow> edns0 \<Rightarrow> dns_msg \<Rightarrow> dns_msg" where
  "append_option i op m = m\<lparr>msgExtra := (msgExtra m)[i := add_option op (msgExtra m ! i)]\<rparr>"

subsection \<open>Facts\<close>

lemma rr_hdr_map [simp]: "rr_hdr (map_hdr f r) = f (rr_hdr r)"
  by (cases r) auto

lemma wf_rr_map: "Rrtype (f (rr_hdr r)) = Rrtype (rr_hdr r) \<Longrightarrow> wf_rr (map_hdr f r) = wf_rr r"
  by (cases r) (auto simp: wf_rr_def)

lemma find_subnet_wf:
  "list_all wf_option os \<Longrightarrow>
   find_subnet os = Inr (case filter (\<lambda>op. Option_code op = EDNS0SUBNET) os of
     EDNS0_SUBNET s # _ \<Rightarrow> Some s | _ \<Rightarrow> None)"
  by (induction os) (auto simp: wf_option_def split: edns0.splits)

lemma find_subnet_total: "list_all wf_option os \<Longrightarrow> \<exists>r. find_subnet os = Inr r"
  by (simp add: find_subnet_wf)

lemma find_subnet_SomeD: "find_subnet os = Inr (Some s) \<Longrightarrow> EDNS0_SUBNET s \<in> set os"
  by (induction os) (auto split: if_splits edns0.splits)

lemma IsEdns0_SomeD:
  assumes "dns_lib_ok L" "IsEdns0 L m = Some i" "list_all wf_rr (msgExtra m)"
  obtains h os where "i < length (msgExtra m)" "msgExtra m ! i = OPT h os" "list_all wf_option os" "Rrtype h = TypeOPT"
proof -
  have "case IsEdns0 L m of
      Some i \<Rightarrow> i < length (msgExtra m) \<and> Rrtype (rr_hdr (msgExtra m ! i)) = TypeOPT
    | None \<Rightarrow> (\<forall>r \<in> set (msgExtra m). Rrtype (rr_hdr r) \<noteq> TypeOPT)"
    using assms(1) unfolding dns_lib_ok_def by blast
  then have i: "i < length (msgExtra m)" "Rrtype (rr_hdr (msgExtra m ! i)) = TypeOPT" using assms(2) by simp_all
  then have "wf_rr (msgExtra m ! i)" using assms(3) by (simp add: list_all_length)
  then show ?thesis using i that by (cases "msgExtra m ! i") (auto simp: wf_rr_def)
qed

lemma IsEdns0_NoneD:
  assumes "dns_lib_ok L" "IsEdns0 L m = None" "r \<in> set (msgExtra m)"
  shows "Rrtype (rr_hdr r) \<noteq> TypeOPT"
proof -
  have "case IsEdns0 L m of
      Some i \<Rightarrow> i < length (msgExtra m) \<and> Rrtype (rr_hdr (msgExtra m ! i)) = TypeOPT
    | None \<Rightarrow> (\<forall>r \<in> set (msgExtra m). Rrtype (rr_hdr r) \<noteq> TypeOPT)"
    using assms(1) unfolding dns_lib_ok_def by blast
  then show ?thesis using assms(2,3) by simp
qed

lemma dns_lib_okD:
  assumes "dns_lib_ok L"
  shows "UDPSize L (SetUDPSize L n h) = n" "Rrtype (SetUDPSize L n h) = Rrtype h"
    "Ttl (SetUDPSize L n h) = Ttl h" "hdrName (SetUDPSize L n h) = hdrName h"
    "getDo L (SetDo L b h) = b" "Rrtype (SetDo L b h) = Rrtype h" "UDPSize L (SetDo L b h) = UDPSize L h"
    "hdrName (SetDo L b h) = hdrName h" "Unpack L bs = Inr m \<Longrightarrow> wf_msg m"
    "UDPSize L (h\<lparr>Ttl := ttl\<rparr>) = UDPSize L h"
    "NewRR L s = Inr r \<Longrightarrow> wf_rr r" "NewRR L s = Inr r \<Longrightarrow> Rrtype (rr_hdr r) \<noteq> TypeOPT"
    "SetQuestion L i nm t m = m\<lparr>Id := i, RecursionDesired := True,
        msgQuestion := [\<lparr>qName = nm, Qtype = t, Qclass = ClassINET\<rparr>]\<rparr>"
  using assms unfolding dns_lib_ok_def by blast+

lemma new_opt_facts:
  assumes "dns_lib_ok L"
  shows "Rrtype (new_opt L n b) = TypeOPT" "UDPSize L (new_opt L n b) = n" "getDo L (new_opt L n b) = b"
    "hdrName (new_opt L n b) = ''.''"
  by (simp_all add: new_opt_def dns_lib_okD [OF assms])

lemma ensure_opt_facts:
  assumes "dns_lib_ok L" "wf_msg m" "ensure_opt L m = (m', i)"
  obtains h os where "i < length (msgExtra m')" "msgExtra m' ! i = OPT h os" "list_all wf_option os"
    "wf_msg m'" "m' = m\<lparr>msgExtra := msgExtra m'\<rparr>" "Rrtype h = TypeOPT"
proof (cases "IsEdns0 L m")
  case None
  then have "m' = m\<lparr>msgExtra := OPT (new_opt L DefaultMsgSize False) [] # msgExtra m\<rparr>" "i = 0"
    using assms(3) by (simp_all add: ensure_opt_def)
  then show ?thesis using that assms(2) new_opt_facts(1) [OF assms(1)] by (simp add: wf_msg_def wf_rr_def)
next
  case (Some j)
  then have e: "m' = m" "i = j" using assms(3) by (simp_all add: ensure_opt_def)
  have w: "list_all wf_rr (msgExtra m)" using assms(2) by (simp add: wf_msg_def)
  show ?thesis by (rule IsEdns0_SomeD [OF assms(1) Some w]) (use that e assms(2) in auto)
qed

lemma wf_append_option:
  assumes "wf_msg m" "wf_option op" "i < length (msgExtra m)"
  shows "wf_msg (append_option i op m)"
proof -
  have "wf_rr (msgExtra m ! i)" using assms(1,3) by (simp add: wf_msg_def list_all_length)
  then have "wf_rr (add_option op (msgExtra m ! i))" using assms(2) by (cases "msgExtra m ! i") (auto simp: wf_rr_def)
  then show ?thesis using assms(1)
    by (auto simp: wf_msg_def append_option_def list_all_iff dest!: set_update_subset_insert [THEN subsetD])
qed

subsection \<open>An instance of the library\<close>

text \<open>
  A concrete library for evaluating examples: the last OPT record is found, the OPT header is encoded
  as RFC 6891 says, and the packed form is left empty.
\<close>

definition last_opt :: "rr list \<Rightarrow> nat option" where
  "last_opt rs = (case filter (\<lambda>i. Rrtype (rr_hdr (rs ! i)) = TypeOPT) [0..<length rs] of
     [] \<Rightarrow> None | is \<Rightarrow> Some (last is))"

definition sample_lib :: dns_lib where
  "sample_lib = \<lparr>IsEdns0 = (\<lambda>m. last_opt (msgExtra m)),
     SetUDPSize = (\<lambda>n h. h\<lparr>hdrClass := n\<rparr>), UDPSize = hdrClass,
     SetDo = (\<lambda>b h. h\<lparr>Ttl := (if b then set_bit 15 (Ttl h) else unset_bit 15 (Ttl h))\<rparr>),
     getDo = (\<lambda>h. bit (Ttl h) 15),
     TypeToString = (\<lambda>t. if t = 1 then Some ''A'' else if t = 28 then Some ''AAAA'' else None),
     ClassToString = (\<lambda>c. if c = 1 then Some ''IN'' else None),
     StringToType = (\<lambda>s. if s = ''A'' then Some 1 else if s = ''AAAA'' then Some 28 else None),
     NewRR = (\<lambda>s. Inr (RData (new_header\<lparr>hdrName := takeWhile (\<lambda>c. c \<noteq> CHR '' '') s, Rrtype := 1, hdrClass := 1\<rparr>) (bytes_of_string s))),
     RR_String = (\<lambda>r. hdrName (rr_hdr r) @ [CHR 0x09] @ FormatUint (unat (Ttl (rr_hdr r)))
        @ [CHR 0x09] @ ''IN'' @ [CHR 0x09] @ ''A'' @ [CHR 0x09]
        @ (case r of RData h d \<Rightarrow> string_of_bytes d | OPT h os \<Rightarrow> [])),
     Pack = (\<lambda>m. Inr []), Unpack = (\<lambda>b. Inr new_msg), Truncate = (\<lambda>n m. m),
     Fqdn = (\<lambda>s. if HasSuffix s ''.'' then s else s @ ''.''),
     SetQuestion = (\<lambda>i nm t m. m\<lparr>Id := i, RecursionDesired := True,
        msgQuestion := [\<lparr>qName = nm, Qtype = t, Qclass = ClassINET\<rparr>]\<rparr>)\<rparr>"

lemma last_opt_ok:
  "case last_opt rs of
     Some i \<Rightarrow> i < length rs \<and> Rrtype (rr_hdr (rs ! i)) = TypeOPT
   | None \<Rightarrow> (\<forall>r \<in> set rs. Rrtype (rr_hdr r) \<noteq> TypeOPT)"
proof (cases "filter (\<lambda>i. Rrtype (rr_hdr (rs ! i)) = TypeOPT) [0..<length rs]")
  case Nil
  then show ?thesis by (auto simp: last_opt_def filter_empty_conv in_set_conv_nth)
next
  case (Cons i js)
  have "last (i # js) \<in> set (filter (\<lambda>i. Rrtype (rr_hdr (rs ! i)) = TypeOPT) [0..<length rs])"
    unfolding Cons by simp
  then have "last (i # js) < length rs \<and> Rrtype (rr_hdr (rs ! last (i # js))) = TypeOPT" by auto
  then show ?thesis by (simp only: last_opt_def Cons list.case option.case)
qed

lemma sample_lib_ok: "dns_lib_ok sample_lib"
proof -
  have "bit (set_bit 15 (w :: u32)) 15" "\<not> bit (unset_bit 15 (w :: u32)) 15" for w
    by (simp_all add: bit_set_bit_iff bit_unset_bit_iff)
  then show ?thesis using last_opt_ok
    by (auto simp: dns_lib_ok_def sample_lib_def new_msg_def wf_msg_def wf_rr_def TypeOPT_def)
qed

end
