(* ===== verification/Json_Marshal.thy ===== *)
theory Json_Marshal
  imports Dns_Message Go_Time
begin

unbundle bit_operations_syntax

section \<open>response.go and marshal.go: from a DNS message to the JSON response\<close>

text \<open>
  The records are the structs of response.go; the fields the JSON encoder skips (\<open>HaveTTL\<close>,
  \<open>LeastTTL\<close>, \<open>EarliestExpires\<close>, \<open>Expires\<close>) are there too, because the HTTP caching headers are made
  from them.  \<open>Marshal\<close> takes the current time as an argument and panics where the type assertions of
  the code fail.  The lemmas show that it never does on well-formed messages, what each section of
  the response is, and that the caching fields are the least TTL over all records but OPT.
\<close>

record json_question =
  jqName :: string
  jqType :: u16

record json_rr =
  jrName :: string
  jrType :: u16
  jrTTL :: u32
  jrExpires :: int
  jrExpiresStr :: string
  jrData :: string

record json_response =
  Status :: u32
  TC :: bool
  RD :: bool
  RA :: bool
  AD :: bool
  CD :: bool
  Question :: "json_question list"
  Answer :: "json_rr list"
  Authority :: "json_rr list"
  Additional :: "json_rr list"
  Comment :: string
  EdnsClientSubnet :: string
  HaveTTL :: bool
  LeastTTL :: u32
  EarliestExpires :: int

text \<open>The zero value; the zero \<open>time.Time\<close> is the start of the year 1.\<close>

definition zero_time :: int where "zero_time = -62135596800000000000"

definition new_response :: json_response where
  "new_response = \<lparr>Status = 0, TC = False, RD = False, RA = False, AD = False, CD = False,
     Question = [], Answer = [], Authority = [], Additional = [], Comment = [], EdnsClientSubnet = [],
     HaveTTL = False, LeastTTL = 0, EarliestExpires = zero_time\<rparr>"

text \<open>A question list may be sent as one object instead of an array of them.\<close>

definition QuestionList_UnmarshalJSON ::
  "(bytes \<Rightarrow> string + json_question list) \<Rightarrow> (bytes \<Rightarrow> string + json_question) \<Rightarrow> bytes \<Rightarrow> string + json_question list" where
  "QuestionList_UnmarshalJSON decList decOne b =
     (if 0 < length b \<and> b ! 0 = 91 then decList b
      else case decOne b of Inl err \<Rightarrow> Inl err | Inr q \<Rightarrow> Inr [q])"

subsection \<open>Marshal\<close>

definition marshalRR :: "dns_lib \<Rightarrow> int \<Rightarrow> rr \<Rightarrow> json_rr" where
  "marshalRR L now r =
     (let h = rr_hdr r; expires = now + wrap64 (uint (Ttl h) * Second);
          data = SplitN (RR_String L r) CHR 0x09 5
      in \<lparr>jrName = hdrName h, jrType = Rrtype h, jrTTL = Ttl h, jrExpires = expires,
          jrExpiresStr = format_rfc1123 expires, jrData = (if 5 \<le> length data then data ! 4 else [])\<rparr>)"

text \<open>\<open>if !resp.HaveTTL || jsonRR.TTL < resp.LeastTTL\<close>\<close>

definition note_ttl :: "json_rr \<Rightarrow> json_response \<Rightarrow> json_response" where
  "note_ttl j resp =
     (if \<not> HaveTTL resp \<or> jrTTL j < LeastTTL resp
      then resp\<lparr>HaveTTL := True, LeastTTL := jrTTL j, EarliestExpires := jrExpires j\<rparr> else resp)"

fun marshal_answers :: "dns_lib \<Rightarrow> int \<Rightarrow> rr list \<Rightarrow> json_response \<Rightarrow> json_response" where
  "marshal_answers L now [] resp = resp"
| "marshal_answers L now (r # rs) resp =
     (let j = marshalRR L now r; resp' = note_ttl j resp
      in marshal_answers L now rs (resp'\<lparr>Answer := Answer resp' @ [j]\<rparr>))"

fun marshal_authorities :: "dns_lib \<Rightarrow> int \<Rightarrow> rr list \<Rightarrow> json_response \<Rightarrow> json_response" where
  "marshal_authorities L now [] resp = resp"
| "marshal_authorities L now (r # rs) resp =
     (let j = marshalRR L now r; resp' = note_ttl j resp
      in marshal_authorities L now rs (resp'\<lparr>Authority := Authority resp' @ [j]\<rparr>))"

definition subnet_text :: "edns0_subnet \<Rightarrow> string" where
  "subnet_text s =
     (let addr = (case ecsAddress s of
          None \<Rightarrow> [0, 0, 0, 0]
        | Some x \<Rightarrow> (case To4 x of Some v \<Rightarrow> v | None \<Rightarrow> x))
      in IP_String addr @ ''/'' @ FormatUint (unat (SourceScope s)))"

fun marshal_options :: "edns0 list \<Rightarrow> json_response \<Rightarrow> go_panic + json_response" where
  "marshal_options [] resp = Inr resp"
| "marshal_options (op # ops) resp =
     (if Option_code op = EDNS0SUBNET then
        (case op of
           EDNS0_SUBNET s \<Rightarrow> marshal_options ops (resp\<lparr>EdnsClientSubnet := subnet_text s\<rparr>)
         | EDNS0_Other _ _ \<Rightarrow> Inl TypeAssertion)
      else marshal_options ops resp)"

definition ext_status :: "u32 \<Rightarrow> u32 \<Rightarrow> u32" where
  "ext_status ttl st = drop_bit 20 (ttl AND 0xff000000) OR (st AND 0xff)"

fun marshal_extra :: "dns_lib \<Rightarrow> int \<Rightarrow> rr list \<Rightarrow> json_response \<Rightarrow> go_panic + json_response" where
  "marshal_extra L now [] resp = Inr resp"
| "marshal_extra L now (r # rs) resp =
     (let j = marshalRR L now r in
      if Rrtype (rr_hdr r) = TypeOPT then
        (case r of
           RData _ _ \<Rightarrow> Inl TypeAssertion
         | OPT h os \<Rightarrow>
             (case marshal_options os (resp\<lparr>Status := ext_status (Ttl h) (Status resp)\<rparr>) of
                Inl p \<Rightarrow> Inl p
              | Inr resp' \<Rightarrow> marshal_extra L now rs resp'))
      else let resp' = note_ttl j resp
        in marshal_extra L now rs (resp'\<lparr>Additional := Additional resp' @ [j]\<rparr>))"

definition Marshal :: "dns_lib \<Rightarrow> int \<Rightarrow> dns_msg \<Rightarrow> go_panic + json_response" where
  "Marshal L now msg =
     (let resp = new_response\<lparr>Status := word_of_int (Rcode msg), TC := Truncated msg, RD := RecursionDesired msg,
            RA := RecursionAvailable msg, AD := AuthenticatedData msg, CD := CheckingDisabled msg,
            Question := map (\<lambda>q. \<lparr>jqName = qName q, jqType = Qtype q\<rparr>) (msgQuestion msg)\<rparr>;
          resp = marshal_answers L now (msgAnswer msg) resp;
          resp = marshal_authorities L now (msgNs msg) resp
      in marshal_extra L now (msgExtra msg) resp)"

subsection \<open>What the loops compute\<close>

definition least_noted :: "json_rr list \<Rightarrow> json_response \<Rightarrow> bool" where
  "least_noted js resp \<longleftrightarrow> (HaveTTL resp \<longleftrightarrow> js \<noteq> []) \<and>
     (js \<noteq> [] \<longrightarrow> (\<exists>j \<in> set js. LeastTTL resp = jrTTL j \<and> EarliestExpires resp = jrExpires j) \<and>
        (\<forall>j \<in> set js. LeastTTL resp \<le> jrTTL j))"

lemma least_noted_step: "least_noted js resp \<Longrightarrow> least_noted (js @ [j]) (note_ttl j resp)"
  by (auto simp: least_noted_def note_ttl_def not_less intro: order_trans less_imp_le)

lemma least_noted_update [simp]:
  "least_noted js (resp\<lparr>Answer := a\<rparr>) = least_noted js resp"
  "least_noted js (resp\<lparr>Authority := a\<rparr>) = least_noted js resp"
  "least_noted js (resp\<lparr>Additional := a\<rparr>) = least_noted js resp"
  "least_noted js (resp\<lparr>Status := s\<rparr>) = least_noted js resp"
  "least_noted js (resp\<lparr>EdnsClientSubnet := e\<rparr>) = least_noted js resp"
  by (simp_all add: least_noted_def)

lemma note_ttl_fields [simp]:
  "Status (note_ttl j resp) = Status resp" "TC (note_ttl j resp) = TC resp" "RD (note_ttl j resp) = RD resp"
  "RA (note_ttl j resp) = RA resp" "AD (note_ttl j resp) = AD resp" "CD (note_ttl j resp) = CD resp"
  "Question (note_ttl j resp) = Question resp" "Answer (note_ttl j resp) = Answer resp"
  "Authority (note_ttl j resp) = Authority resp" "Additional (note_ttl j resp) = Additional resp"
  "Comment (note_ttl j resp) = Comment resp" "EdnsClientSubnet (note_ttl j resp) = EdnsClientSubnet resp"
  by (simp_all add: note_ttl_def)

text \<open>The fields that the loops over the sections leave alone.\<close>

definition flags :: "json_response \<Rightarrow> bool \<times> bool \<times> bool \<times> bool \<times> bool \<times> json_question list \<times> string" where
  "flags resp = (TC resp, RD resp, RA resp, AD resp, CD resp, Question resp, Comment resp)"

lemma flags_simps [simp]:
  "flags (note_ttl j resp) = flags resp" "flags (resp\<lparr>Answer := a\<rparr>) = flags resp"
  "flags (resp\<lparr>Authority := a\<rparr>) = flags resp" "flags (resp\<lparr>Additional := a\<rparr>) = flags resp"
  "flags (resp\<lparr>Status := s\<rparr>) = flags resp" "flags (resp\<lparr>EdnsClientSubnet := e\<rparr>) = flags resp"
  by (simp_all add: flags_def)

lemma marshal_answers_spec:
  assumes "least_noted js resp"
  shows "least_noted (js @ map (marshalRR L now) rs) (marshal_answers L now rs resp)
    \<and> Answer (marshal_answers L now rs resp) = Answer resp @ map (marshalRR L now) rs
    \<and> flags (marshal_answers L now rs resp) = flags resp \<and> Status (marshal_answers L now rs resp) = Status resp
    \<and> Authority (marshal_answers L now rs resp) = Authority resp
    \<and> Additional (marshal_answers L now rs resp) = Additional resp
    \<and> EdnsClientSubnet (marshal_answers L now rs resp) = EdnsClientSubnet resp"
  using assms
proof (induction rs arbitrary: js resp)
  case (Cons r rs)
  let ?j = "marshalRR L now r"
  have "least_noted (js @ [?j]) (note_ttl ?j resp\<lparr>Answer := Answer (note_ttl ?j resp) @ [?j]\<rparr>)"
    using least_noted_step [OF Cons.prems] by simp
  from Cons.IH [OF this] show ?case by (simp add: Let_def)
qed simp

lemma marshal_authorities_spec:
  assumes "least_noted js resp"
  shows "least_noted (js @ map (marshalRR L now) rs) (marshal_authorities L now rs resp)
    \<and> Authority (marshal_authorities L now rs resp) = Authority resp @ map (marshalRR L now) rs
    \<and> flags (marshal_authorities L now rs resp) = flags resp \<and> Status (marshal_authorities L now rs resp) = Status resp
    \<and> Answer (marshal_authorities L now rs resp) = Answer resp
    \<and> Additional (marshal_authorities L now rs resp) = Additional resp
    \<and> EdnsClientSubnet (marshal_authorities L now rs resp) = EdnsClientSubnet resp"
  using assms
proof (induction rs arbitrary: js resp)
  case (Cons r rs)
  let ?j = "marshalRR L now r"
  have "least_noted (js @ [?j]) (note_ttl ?j resp\<lparr>Authority := Authority (note_ttl ?j resp) @ [?j]\<rparr>)"
    using least_noted_step [OF Cons.prems] by simp
  from Cons.IH [OF this] show ?case by (simp add: Let_def)
qed simp

fun last_subnet :: "string \<Rightarrow> edns0 list \<Rightarrow> string" where
  "last_subnet e [] = e"
| "last_subnet e (EDNS0_SUBNET s # ops) = last_subnet (subnet_text s) ops"
| "last_subnet e (EDNS0_Other c d # ops) = last_subnet e ops"

lemma last_subnet_append: "last_subnet e (xs @ ys) = last_subnet (last_subnet e xs) ys"
  by (induction e xs rule: last_subnet.induct) auto

lemma marshal_options_eq:
  "list_all wf_option os \<Longrightarrow>
   marshal_options os resp = Inr (resp\<lparr>EdnsClientSubnet := last_subnet (EdnsClientSubnet resp) os\<rparr>)"
proof (induction os arbitrary: resp)
  case (Cons op os)
  then show ?case by (cases op) (auto simp: wf_option_def)
qed simp

definition is_opt :: "rr \<Rightarrow> bool" where
  "is_opt r \<longleftrightarrow> Rrtype (rr_hdr r) = TypeOPT"

lemma marshal_extra_spec:
  assumes "list_all wf_rr rs" "least_noted js resp"
  shows "\<exists>resp'. marshal_extra L now rs resp = Inr resp'
    \<and> least_noted (js @ map (marshalRR L now) (filter (Not \<circ> is_opt) rs)) resp'
    \<and> Additional resp' = Additional resp @ map (marshalRR L now) (filter (Not \<circ> is_opt) rs)
    \<and> Status resp' = foldl (\<lambda>s r. ext_status (Ttl (rr_hdr r)) s) (Status resp) (filter is_opt rs)
    \<and> EdnsClientSubnet resp' = last_subnet (EdnsClientSubnet resp) (concat (map rr_options rs))
    \<and> flags resp' = flags resp \<and> Answer resp' = Answer resp \<and> Authority resp' = Authority resp"
  using assms
proof (induction rs arbitrary: js resp)
  case (Cons r rs)
  show ?case
  proof (cases r)
    case (OPT h os)
    then have h: "Rrtype h = TypeOPT" "list_all wf_option os" using Cons.prems(1) by (auto simp: wf_rr_def)
    let ?r = "resp\<lparr>Status := ext_status (Ttl h) (Status resp), EdnsClientSubnet := last_subnet (EdnsClientSubnet resp) os\<rparr>"
    have "marshal_extra L now (r # rs) resp = marshal_extra L now rs ?r"
      using h OPT by (simp add: marshal_options_eq)
    moreover have "least_noted js ?r" using Cons.prems(2) by simp
    ultimately show ?thesis
      using Cons.IH [of js ?r] Cons.prems(1) h OPT by (simp add: is_opt_def last_subnet_append)
  next
    case (RData h d)
    then have h: "Rrtype h \<noteq> TypeOPT" using Cons.prems(1) by (auto simp: wf_rr_def)
    let ?j = "marshalRR L now r"
    let ?r = "note_ttl ?j resp\<lparr>Additional := Additional resp @ [?j]\<rparr>"
    have "marshal_extra L now (r # rs) resp = marshal_extra L now rs ?r" using h RData by (simp add: Let_def)
    moreover have "least_noted (js @ [?j]) ?r" using least_noted_step [OF Cons.prems(2)] by simp
    ultimately show ?thesis
      using Cons.IH [of "js @ [?j]" ?r] Cons.prems(1) h RData by (simp add: is_opt_def)
  qed
qed simp

lemma marshalRR_simps [simp]:
  "jrTTL (marshalRR L now r) = Ttl (rr_hdr r)" "jrName (marshalRR L now r) = hdrName (rr_hdr r)"
  "jrType (marshalRR L now r) = Rrtype (rr_hdr r)" "jrExpiresStr (marshalRR L now r) = format_rfc1123 (jrExpires (marshalRR L now r))"
  by (simp_all add: marshalRR_def Let_def)

lemma uint_u32_less: "uint (w :: u32) < 4294967296"
  using uint_lt2p [of w] by simp

lemma marshalRR_Expires [simp]: "jrExpires (marshalRR L now r) = now + uint (Ttl (rr_hdr r)) * Second"
proof -
  have "uint (Ttl (rr_hdr r)) * Second < 9223372036854775808" "0 \<le> uint (Ttl (rr_hdr r)) * Second"
    using uint_u32_less [of "Ttl (rr_hdr r)"] by (simp_all add: Second_def)
  then have "wrap64 (uint (Ttl (rr_hdr r)) * Second) = uint (Ttl (rr_hdr r)) * Second"
    by (intro wrap64_id) auto
  then show ?thesis by (simp add: marshalRR_def Let_def)
qed

lemma marshalRR_Data:
  assumes "RR_String L r = a @ CHR 0x09 # b @ CHR 0x09 # c @ CHR 0x09 # d @ CHR 0x09 # e"
    "CHR 0x09 \<notin> set (a @ b @ c @ d)"
  shows "jrData (marshalRR L now r) = e"
  using assms by (simp add: marshalRR_def Let_def SplitN_append eval_nat_numeral)

text \<open>The records whose TTL counts: all but the OPT records of the additional section.\<close>

definition ttl_records :: "dns_msg \<Rightarrow> rr list" where
  "ttl_records msg = msgAnswer msg @ msgNs msg @ filter (Not \<circ> is_opt) (msgExtra msg)"

lemma Marshal_spec:
  assumes "wf_msg msg"
  shows "\<exists>resp. Marshal L now msg = Inr resp
    \<and> least_noted (map (marshalRR L now) (ttl_records msg)) resp
    \<and> Answer resp = map (marshalRR L now) (msgAnswer msg)
    \<and> Authority resp = map (marshalRR L now) (msgNs msg)
    \<and> Additional resp = map (marshalRR L now) (filter (Not \<circ> is_opt) (msgExtra msg))
    \<and> Status resp = foldl (\<lambda>s r. ext_status (Ttl (rr_hdr r)) s) (word_of_int (Rcode msg)) (filter is_opt (msgExtra msg))
    \<and> EdnsClientSubnet resp = last_subnet [] (concat (map rr_options (msgExtra msg)))
    \<and> flags resp = (Truncated msg, RecursionDesired msg, RecursionAvailable msg, AuthenticatedData msg,
        CheckingDisabled msg, map (\<lambda>q. \<lparr>jqName = qName q, jqType = Qtype q\<rparr>) (msgQuestion msg), [])"
proof -
  define r0 where "r0 = new_response\<lparr>Status := word_of_int (Rcode msg), TC := Truncated msg, RD := RecursionDesired msg,
    RA := RecursionAvailable msg, AD := AuthenticatedData msg, CD := CheckingDisabled msg,
    Question := map (\<lambda>q. \<lparr>jqName = qName q, jqType = Qtype q\<rparr>) (msgQuestion msg)\<rparr>"
  define r1 where "r1 = marshal_answers L now (msgAnswer msg) r0"
  define r2 where "r2 = marshal_authorities L now (msgNs msg) r1"
  have r0: "least_noted [] r0" by (simp add: r0_def least_noted_def new_response_def)
  note s1 = marshal_answers_spec [OF r0, of L now "msgAnswer msg", folded r1_def, simplified]
  note s2 = marshal_authorities_spec [of _ r1 L now "msgNs msg", folded r2_def, OF conjunct1 [OF s1]]
  have "list_all wf_rr (msgExtra msg)" using assms by (simp add: wf_msg_def)
  from marshal_extra_spec [OF this conjunct1 [OF s2], of L now]
  obtain resp where r: "marshal_extra L now (msgExtra msg) r2 = Inr resp"
    "least_noted ((map (marshalRR L now) (msgAnswer msg) @ map (marshalRR L now) (msgNs msg))
        @ map (marshalRR L now) (filter (Not \<circ> is_opt) (msgExtra msg))) resp"
    "Additional resp = Additional r2 @ map (marshalRR L now) (filter (Not \<circ> is_opt) (msgExtra msg))"
    "Status resp = foldl (\<lambda>s r. ext_status (Ttl (rr_hdr r)) s) (Status r2) (filter is_opt (msgExtra msg))"
    "EdnsClientSubnet resp = last_subnet (EdnsClientSubnet r2) (concat (map rr_options (msgExtra msg)))"
    "flags resp = flags r2" "Answer resp = Answer r2" "Authority resp = Authority r2"
    by blast
  have "Marshal L now msg = Inr resp"
    using r(1) by (simp add: Marshal_def Let_def r0_def r1_def r2_def)
  moreover have "Answer r0 = []" "Authority r0 = []" "Additional r0 = []" "EdnsClientSubnet r0 = []"
    "Status r0 = word_of_int (Rcode msg)"
    "flags r0 = (Truncated msg, RecursionDesired msg, RecursionAvailable msg, AuthenticatedData msg,
        CheckingDisabled msg, map (\<lambda>q. \<lparr>jqName = qName q, jqType = Qtype q\<rparr>) (msgQuestion msg), [])"
    by (simp_all add: r0_def new_response_def flags_def)
  ultimately show ?thesis using r(2-8) s1 s2 by (intro exI [of _ resp]) (simp add: ttl_records_def)
qed

lemma of_nat_unat_id: "of_nat (unat w) = (w :: u32)"
  by simp

lemma ext_status_value:
  assumes "unat st < 16"
  shows "unat (ext_status ttl st) = unat ttl div 16777216 * 16 + unat st"
proof -
  have hi: "drop_bit 20 (ttl AND 0xff000000) = push_bit 4 (drop_bit 24 ttl)"
  proof -
    have m: "(0xff000000 :: u32) = NOT (mask 24)" by (simp add: mask_eq_exp_minus_1)
    show ?thesis unfolding m by (rule bit_word_eqI) (auto simp: bit_simps dest: bit_imp_le_length)
  qed
  have lo: "st AND 0xff = st"
  proof -
    have "st AND mask 8 = st"
      using assms by (simp flip: take_bit_eq_mask) (simp add: take_bit_eq_mod word_unat_eq_iff unat_mod)
    then show ?thesis by (simp add: mask_eq_exp_minus_1)
  qed
  have "st = take_bit 4 st" using assms by (simp add: take_bit_eq_mod word_unat_eq_iff unat_mod)
  then have "\<not> bit (push_bit 4 (drop_bit 24 ttl)) n \<or> \<not> bit st n" for n
    by (metis bit_push_bit_iff bit_take_bit_iff not_le)
  then have sum: "ext_status ttl st = push_bit 4 (drop_bit 24 ttl) + st"
    unfolding ext_status_def hi lo by (simp only: disjunctive_add)
  have t: "unat ttl < 4294967296" using unsigned_less [of ttl] by simp
  have "unat (drop_bit 24 ttl) = unat ttl div 16777216"
    unfolding unat_drop_bit_eq drop_bit_nat_def by simp
  then have "drop_bit 24 ttl = of_nat (unat ttl div 16777216)"
    using of_nat_unat_id [of "drop_bit 24 ttl"] by (simp only:)
  then have "ext_status ttl st = of_nat (unat ttl div 16777216 * 16 + unat st)"
    by (simp add: sum push_bit_eq_mult)
  moreover have "unat ttl div 16777216 * 16 + unat st < 4294967296" using t assms by linarith
  ultimately show ?thesis by (simp only: unat_of_nat) simp
qed

lemma Marshal_ttl_fields:
  assumes "wf_msg msg"
  shows "\<exists>resp. Marshal L now msg = Inr resp \<and> (HaveTTL resp \<longleftrightarrow> ttl_records msg \<noteq> []) \<and>
    (ttl_records msg \<noteq> [] \<longrightarrow> LeastTTL resp = Min (set (map (Ttl \<circ> rr_hdr) (ttl_records msg)))
       \<and> EarliestExpires resp = now + uint (LeastTTL resp) * Second)"
proof -
  let ?rs = "ttl_records msg"
  obtain resp where M: "Marshal L now msg = Inr resp" "least_noted (map (marshalRR L now) ?rs) resp"
    using Marshal_spec [OF assms] by blast
  have "LeastTTL resp = Min (set (map (Ttl \<circ> rr_hdr) ?rs)) \<and>
      EarliestExpires resp = now + uint (LeastTTL resp) * Second" if ne: "?rs \<noteq> []"
  proof -
    from M(2) ne obtain r where r: "r \<in> set ?rs" "LeastTTL resp = Ttl (rr_hdr r)"
      "EarliestExpires resp = now + uint (Ttl (rr_hdr r)) * Second"
      by (auto simp: least_noted_def)
    moreover have "\<forall>r \<in> set ?rs. LeastTTL resp \<le> Ttl (rr_hdr r)" using M(2) by (auto simp: least_noted_def)
    ultimately have "LeastTTL resp = Min (set (map (Ttl \<circ> rr_hdr) ?rs))"
      by (intro Min_eqI [symmetric]) auto
    then show ?thesis using r(2,3) by simp
  qed
  then show ?thesis using M by (auto simp: least_noted_def)
qed

subsection \<open>Properties\<close>

text \<open>Property C31.  On a well-formed message \<open>Marshal\<close> returns, \<open>HaveTTL\<close> is set exactly if some record
  other than OPT is present, \<open>LeastTTL\<close> is then the minimum of the TTLs of these records and
  \<open>EarliestExpires\<close> lies that many seconds after the current time.\<close>

theorem Marshal_least_TTL:
  assumes "wf_msg msg"
  shows "\<exists>resp. Marshal L now msg = Inr resp \<and> (HaveTTL resp \<longleftrightarrow> ttl_records msg \<noteq> []) \<and>
    (ttl_records msg \<noteq> [] \<longrightarrow> LeastTTL resp = Min (set (map (Ttl \<circ> rr_hdr) (ttl_records msg)))
       \<and> EarliestExpires resp = now + uint (LeastTTL resp) * Second)"
  by (rule Marshal_ttl_fields [OF assms])

definition sample_rr :: "u32 \<Rightarrow> rr" where
  "sample_rr ttl = RData (new_header\<lparr>hdrName := ''a.'', Rrtype := 1, hdrClass := 1, Ttl := ttl\<rparr>) [1, 2, 3, 4]"

definition sample_msg :: dns_msg where
  "sample_msg = new_msg\<lparr>Rcode := 3, msgAnswer := [sample_rr 300, sample_rr 60], msgNs := [sample_rr 900],
     msgExtra := [OPT (new_header\<lparr>hdrName := ''.'', Rrtype := 41, Ttl := 0x01000000\<rparr>)
       [EDNS0_SUBNET \<lparr>ecsCode = 8, ecsFamily = 1, SourceNetmask = 24, SourceScope = 16, ecsAddress = Some [192, 0, 2, 0]\<rparr>]]\<rparr>"

lemma sample_msg_wf: "wf_msg sample_msg"
  by (simp add: wf_msg_def sample_msg_def wf_rr_def sample_rr_def new_header_def new_msg_def TypeOPT_def wf_option_def)

lemma sample_msg_records: "ttl_records sample_msg = [sample_rr 300, sample_rr 60, sample_rr 900]"
  by (simp add: ttl_records_def sample_msg_def new_msg_def is_opt_def TypeOPT_def)

theorem Marshal_least_TTL_witness:
  "\<exists>resp. Marshal sample_lib 1000 sample_msg = Inr resp \<and> HaveTTL resp \<and> LeastTTL resp = 60
     \<and> EarliestExpires resp = 60000001000"
  using Marshal_least_TTL [OF sample_msg_wf, of sample_lib 1000]
  by (auto simp: sample_msg_records sample_rr_def Second_def)

text \<open>On a well-formed message \<open>Marshal\<close> turns every record of the answer, authority and
  additional sections into one JSON record, in order, except that OPT records are left out, and
  copies the question and the flags.\<close>

theorem Marshal_sections:
  assumes "wf_msg msg"
  shows "\<exists>resp. Marshal L now msg = Inr resp
    \<and> Answer resp = map (marshalRR L now) (msgAnswer msg) \<and> Authority resp = map (marshalRR L now) (msgNs msg)
    \<and> Additional resp = map (marshalRR L now) (filter (\<lambda>r. Rrtype (rr_hdr r) \<noteq> TypeOPT) (msgExtra msg))
    \<and> map jqName (Question resp) = map qName (msgQuestion msg) \<and> map jqType (Question resp) = map Qtype (msgQuestion msg)
    \<and> TC resp = Truncated msg \<and> RD resp = RecursionDesired msg \<and> RA resp = RecursionAvailable msg
    \<and> AD resp = AuthenticatedData msg \<and> CD resp = CheckingDisabled msg"
  using Marshal_spec [OF assms, of L now] by (auto simp: flags_def is_opt_def comp_def)

theorem Marshal_sections_witness:
  "\<exists>resp. Marshal sample_lib 0 sample_msg = Inr resp \<and> length (Answer resp) = 2 \<and> Additional resp = []"
  using Marshal_sections [OF sample_msg_wf, of sample_lib 0]
  by (auto simp: sample_msg_def new_msg_def TypeOPT_def)

text \<open>The status is the 12-bit extended response code: for a message with one OPT record
  the upper eight bits come from the top byte of the OPT record's TTL and the lower four from the
  header; without OPT record it is the header's response code.\<close>

theorem Marshal_status:
  assumes "wf_msg msg" "0 \<le> Rcode msg" "Rcode msg < 16"
    "filter (\<lambda>r. Rrtype (rr_hdr r) = TypeOPT) (msgExtra msg) \<in> {[], [opt]}"
  shows "\<exists>resp. Marshal L now msg = Inr resp \<and> uint (Status resp) =
    (if \<exists>r \<in> set (msgExtra msg). Rrtype (rr_hdr r) = TypeOPT
     then 16 * (uint (Ttl (rr_hdr opt)) div 16777216) else 0) + Rcode msg"
proof -
  obtain resp where M: "Marshal L now msg = Inr resp" "Status resp =
      foldl (\<lambda>s r. ext_status (Ttl (rr_hdr r)) s) (word_of_int (Rcode msg)) (filter is_opt (msgExtra msg))"
    using Marshal_spec [OF assms(1)] by blast
  have rc: "uint (word_of_int (Rcode msg) :: u32) = Rcode msg"
    using assms(2,3) by (simp add: unsigned_of_int take_bit_eq_mod)
  have f: "filter (\<lambda>r. Rrtype (rr_hdr r) = TypeOPT) (msgExtra msg) = filter is_opt (msgExtra msg)"
    by (simp add: is_opt_def [abs_def])
  show ?thesis
  proof (cases "filter is_opt (msgExtra msg) = []")
    case True
    then have "\<not> (\<exists>r \<in> set (msgExtra msg). Rrtype (rr_hdr r) = TypeOPT)" by (auto simp: filter_empty_conv is_opt_def)
    then show ?thesis using M True rc by simp
  next
    case False
    then have o: "filter is_opt (msgExtra msg) = [opt]" using assms(4) f by simp
    then have "opt \<in> set (filter is_opt (msgExtra msg))" by simp
    then have "\<exists>r \<in> set (msgExtra msg). Rrtype (rr_hdr r) = TypeOPT" by (auto simp: is_opt_def)
    moreover have st: "unat (word_of_int (Rcode msg) :: u32) < 16"
      using rc assms(3) by (simp add: unat_eq_nat_uint)
    have "int (unat (Status resp)) = int (unat (Ttl (rr_hdr opt)) div 16777216 * 16 + unat (word_of_int (Rcode msg) :: u32))"
      using M(2) o ext_status_value [OF st] by simp
    then have "uint (Status resp) = 16 * (uint (Ttl (rr_hdr opt)) div 16777216) + Rcode msg"
      using rc by (simp add: zdiv_int)
    ultimately show ?thesis using M(1) by simp
  qed
qed

theorem Marshal_status_witness:
  "\<exists>resp. Marshal sample_lib 0 sample_msg = Inr resp \<and> uint (Status resp) = 19"
  using Marshal_status [OF sample_msg_wf, where opt = "hd (msgExtra sample_msg)" and L = sample_lib and now = 0]
  by (auto simp: sample_msg_def new_msg_def TypeOPT_def)

end
