(* ===== verification/Json_Unmarshal.thy ===== *)
theory Json_Unmarshal
  imports Json_Marshal
begin

unbundle bit_operations_syntax

section \<open>unmarshal.go: from the JSON response to the DNS reply\<close>

text \<open>
  \<open>PrepareReply\<close> makes the reply a query is answered with, \<open>Unmarshal\<close> fills it from a JSON response.
  Arguments beside those of the code: the DNS library, the current time, the machine's time zone
  abbreviations (for \<open>time.Parse\<close>) and the quoting of \<open>fmt\<close>'s verb \<open>%q\<close>, which depends on the Unicode
  tables and only shows in messages of the log.  A record that cannot be read is left out; what is
  logged is not modelled.
\<close>

definition PrepareReply :: "dns_msg \<Rightarrow> dns_msg" where
  "PrepareReply req = new_msg\<lparr>Id := Id req, Response := True, Opcode := Opcode req,
     RecursionDesired := RecursionDesired req, RecursionAvailable := RecursionDesired req,
     CheckingDisabled := CheckingDisabled req, Rcode := RcodeServerFailure, Compress := True,
     msgQuestion := msgQuestion req\<rparr>"

record json_env =
  envLoc :: "string \<Rightarrow> int \<Rightarrow> int option"
  envQuote :: "string \<Rightarrow> string"

definition zone_text :: "string \<Rightarrow> json_rr \<Rightarrow> string" where
  "zone_text rrType r = jrName r @ '' '' @ FormatUint (unat (jrTTL r)) @ '' IN '' @ rrType @ '' '' @ jrData r"

definition unmarshalRR :: "dns_lib \<Rightarrow> json_env \<Rightarrow> int \<Rightarrow> json_rr \<Rightarrow> string + rr" where
  "unmarshalRR L E now r =
     (if ContainsAny (jrName r) [CHR 0x09, CHR 0x0d, CHR 0x0a, CHR '' '', CHR 0x22, CHR ''('', CHR '')'', CHR '';'', CHR 0x5c]
      then Inl (''json-dns: Record name contains space: '' @ envQuote E (jrName r))
      else
        case (if jrExpiresStr r \<noteq> [] then
                (case parse_rfc1123 (envLoc E) (jrExpiresStr r) of
                   None \<Rightarrow> None
                 | Some expires \<Rightarrow>
                     let ttl = go_quot (time_Sub expires now) Second in
                     Some (if 0 \<le> ttl \<and> ttl \<le> 0xffffffff
                           then r\<lparr>jrExpires := expires, jrTTL := word_of_int ttl\<rparr>
                           else r\<lparr>jrExpires := expires\<rparr>))
              else Some r) of
          None \<Rightarrow> Inl (''json-dns: Invalid expire time: '' @ envQuote E (jrExpiresStr r))
        | Some r \<Rightarrow>
            (case TypeToString L (jrType r) of
               None \<Rightarrow> Inl (''json-dns: Unknown record type: '' @ FormatUint (unat (jrType r)))
             | Some rrType \<Rightarrow>
                 if ContainsAny (jrData r) [CHR 0x0d, CHR 0x0a]
                 then Inl (''json-dns: Record data contains newline: '' @ envQuote E (jrData r))
                 else NewRR L (zone_text rrType r)))"

fun unmarshal_section :: "dns_lib \<Rightarrow> json_env \<Rightarrow> int \<Rightarrow> json_rr list \<Rightarrow> rr list" where
  "unmarshal_section L E now [] = []"
| "unmarshal_section L E now (r # rs) =
     (case unmarshalRR L E now r of
        Inl err \<Rightarrow> unmarshal_section L E now rs
      | Inr d \<Rightarrow> d # unmarshal_section L E now rs)"

text \<open>
  The client subnet of the response as address, family and scope, read from the text
  \<open>address/scope\<close>: family 0 and no address if the address is invalid, scope 255 if the scope is.
\<close>

definition parse_client_subnet :: "string \<Rightarrow> ip \<times> u16 \<times> u8" where
  "parse_client_subnet ecs =
     (if ecs = [] then (None, 0, 255)
      else case IndexByte ecs CHR ''/'' of
        None \<Rightarrow> (None, 0, 255)
      | Some slash \<Rightarrow>
          (let (address, family) = (case ParseIP (take slash ecs) of
                 None \<Rightarrow> (None, 0)
               | Some x \<Rightarrow> (case To4 x of Some v \<Rightarrow> (Some v, 1) | None \<Rightarrow> (Some x, 2)));
               scope = (case ParseUint 8 (drop (slash + 1) ecs) of Some n \<Rightarrow> of_nat n | None \<Rightarrow> 255)
           in (address, family, scope)))"

definition opt_ttl :: "u32 \<Rightarrow> u32 \<Rightarrow> u32" where
  "opt_ttl ttl st = (ttl AND 0x00ffffff) OR push_bit 20 (st AND 0xff0)"

definition Unmarshal :: "dns_lib \<Rightarrow> json_env \<Rightarrow> int \<Rightarrow> dns_msg \<Rightarrow> json_response \<Rightarrow> u16 \<Rightarrow> u8 \<Rightarrow> dns_msg" where
  "Unmarshal L E now msg resp udpSize ednsClientNetmask =
     (let opt = new_opt L (if 512 \<le> udpSize then udpSize else 512) False;
          (address, family, scope) = parse_client_subnet (EdnsClientSubnet resp);
          netmask = (if ednsClientNetmask = 255 then (if family = 1 then 24 else 56) else ednsClientNetmask);
          options = (if address \<noteq> None
            then [EDNS0_SUBNET \<lparr>ecsCode = EDNS0SUBNET, ecsFamily = family, SourceNetmask = netmask,
                    SourceScope = scope, ecsAddress = address\<rparr>] else []);
          opt = opt\<lparr>Ttl := opt_ttl (Ttl opt) (Status resp)\<rparr>
      in msg\<lparr>Truncated := TC resp, AuthenticatedData := AD resp, CheckingDisabled := CD resp,
           Rcode := uint (Status resp AND 0xf),
           msgAnswer := unmarshal_section L E now (Answer resp),
           msgNs := unmarshal_section L E now (Authority resp),
           msgExtra := OPT opt options # unmarshal_section L E now (Additional resp)\<rparr>)"

subsection \<open>Facts\<close>

lemma unmarshalRR_ok:
  assumes "dns_lib_ok L" "unmarshalRR L E now r = Inr d"
  shows "wf_rr d" "Rrtype (rr_hdr d) \<noteq> TypeOPT"
proof -
  obtain s where "NewRR L s = Inr d"
    using assms(2) unfolding unmarshalRR_def by (auto split: if_splits option.splits)
  then show "wf_rr d" "Rrtype (rr_hdr d) \<noteq> TypeOPT" by (rule dns_lib_okD [OF assms(1)])+
qed

lemma unmarshal_section_ok:
  assumes "dns_lib_ok L"
  shows "list_all (\<lambda>d. wf_rr d \<and> Rrtype (rr_hdr d) \<noteq> TypeOPT) (unmarshal_section L E now rs)"
  by (induction rs) (auto split: sum.split dest: unmarshalRR_ok [OF assms])

lemma Unmarshal_fields [simp]:
  "Id (Unmarshal L E now msg resp u n) = Id msg" "msgQuestion (Unmarshal L E now msg resp u n) = msgQuestion msg"
  "Response (Unmarshal L E now msg resp u n) = Response msg" "Opcode (Unmarshal L E now msg resp u n) = Opcode msg"
  "Rcode (Unmarshal L E now msg resp u n) = uint (Status resp AND 0xf)"
  "msgAnswer (Unmarshal L E now msg resp u n) = unmarshal_section L E now (Answer resp)"
  "msgNs (Unmarshal L E now msg resp u n) = unmarshal_section L E now (Authority resp)"
  by (simp_all add: Unmarshal_def Let_def split: prod.split)

lemma Unmarshal_extra:
  obtains h os where
    "msgExtra (Unmarshal L E now msg resp u n) = OPT h os # unmarshal_section L E now (Additional resp)"
    "h = (new_opt L (max 512 u) False)
       \<lparr>Ttl := opt_ttl (Ttl (new_opt L (max 512 u) False)) (Status resp)\<rparr>"
    "list_all wf_option os"
proof -
  have u: "(if 512 \<le> u then u else 512) = max 512 u" by (simp add: max_def)
  obtain a f s where "parse_client_subnet (EdnsClientSubnet resp) = (a, f, s)" by (rule prod_cases3)
  then show ?thesis using that by (simp add: Unmarshal_def Let_def wf_option_def u split: if_splits)
qed

lemma Unmarshal_wf:
  assumes "dns_lib_ok L"
  shows "wf_msg (Unmarshal L E now msg resp u n)"
proof -
  obtain h os where x: "msgExtra (Unmarshal L E now msg resp u n) = OPT h os # unmarshal_section L E now (Additional resp)"
    "h = (new_opt L (max 512 u) False)
       \<lparr>Ttl := opt_ttl (Ttl (new_opt L (max 512 u) False)) (Status resp)\<rparr>"
    "list_all wf_option os"
    by (rule Unmarshal_extra)
  have "list_all wf_rr (unmarshal_section L E now rs)" for rs
    using unmarshal_section_ok [OF assms] by (simp add: list_all_iff)
  then show ?thesis using x new_opt_facts(1) [OF assms] by (simp add: wf_msg_def wf_rr_def)
qed

lemma ext_status_pack:
  "ext_status (opt_ttl t s) (s AND 0xf) = s AND 0xfff"
proof -
  have m: "(0xff000000 :: u32) = NOT (mask 24)" "(0x00ffffff :: u32) = mask 24" "(0xff0 :: u32) = mask 12 AND NOT (mask 4)"
    "(0xf :: u32) = mask 4" "(0xfff :: u32) = mask 12" "(0xff :: u32) = mask 8"
    by (simp_all add: mask_eq_exp_minus_1)
  show ?thesis unfolding ext_status_def opt_ttl_def m
    by (rule bit_word_eqI) (auto simp: bit_simps dest: bit_imp_le_length)
qed

subsection \<open>Properties\<close>



text \<open>The reply made from a JSON response has the identifier, the question and the opcode
  of the prepared message, its additional section starts with its only OPT record, which announces a
  UDP size of at least 512, and every other record was read from a record of the response.\<close>

theorem Unmarshal_reply:
  assumes "dns_lib_ok L"
  shows "\<exists>h os. let m = Unmarshal L E now msg resp udpSize netmask in
    Id m = Id msg \<and> msgQuestion m = msgQuestion msg \<and> Opcode m = Opcode msg \<and> Response m = Response msg
    \<and> msgExtra m = OPT h os # unmarshal_section L E now (Additional resp)
    \<and> Rrtype h = TypeOPT \<and> UDPSize L h = max 512 udpSize
    \<and> (\<forall>r \<in> set (msgAnswer m @ msgNs m @ tl (msgExtra m)). Rrtype (rr_hdr r) \<noteq> TypeOPT
        \<and> (\<exists>j \<in> set (Answer resp @ Authority resp @ Additional resp). unmarshalRR L E now j = Inr r))"
proof -
  obtain h os where x: "msgExtra (Unmarshal L E now msg resp udpSize netmask) = OPT h os # unmarshal_section L E now (Additional resp)"
    "h = (new_opt L (max 512 udpSize) False)
       \<lparr>Ttl := opt_ttl (Ttl (new_opt L (max 512 udpSize) False)) (Status resp)\<rparr>"
    by (rule Unmarshal_extra)
  have "r \<in> set (unmarshal_section L E now js) \<Longrightarrow> \<exists>j \<in> set js. unmarshalRR L E now j = Inr r" for r js
    by (induction js) (auto split: sum.splits)
  then show ?thesis
    using x new_opt_facts(1,2) [OF assms] dns_lib_okD(10) [OF assms] unmarshalRR_ok(2) [OF assms]
    by (intro exI [of _ h] exI [of _ os]) (fastforce simp: Let_def)
qed

definition sample_env :: json_env where
  "sample_env = \<lparr>envLoc = (\<lambda>_ _. None), envQuote = id\<rparr>"

theorem Unmarshal_reply_witness:
  "\<exists>h os. msgExtra (Unmarshal sample_lib sample_env 0 new_msg new_response 100 24) = [OPT h os] \<and> UDPSize sample_lib h = 512"
proof -
  have "max 512 100 = (512 :: u16)" by simp
  then show ?thesis
    using Unmarshal_reply [OF sample_lib_ok, of sample_env 0 new_msg new_response 100 24]
    by (auto simp: Let_def new_response_def)
qed

text \<open>The client subnet survives the way to JSON and back for IPv4 addresses: reading the
  text \<open>Marshal\<close> wrote for a subnet option gives its address in four bytes, family 1 and its scope.\<close>

theorem Subnet_roundtrip:
  assumes "ecsAddress s = Some x" "To4 x = Some v"
  shows "parse_client_subnet (subnet_text s) = (Some v, 1, SourceScope s)"
proof -
  let ?n = "FormatUint (unat (SourceScope s))"
  have v: "length v = 4" by (rule To4_length [OF assms(2)])
  have str: "IP_String v = dotted v" using v by (auto simp: IP_String_def)
  have t: "subnet_text s = dotted v @ CHR ''/'' # ?n" using assms str by (simp add: subnet_text_def)
  have i: "IndexByte (dotted v @ CHR ''/'' # ?n) CHR ''/'' = Some (length (dotted v))"
    by (rule IndexByte_append [OF slash_not_dotted [OF v]])
  have "ParseUint 8 ?n = Some (unat (SourceScope s))"
    using unat_u8_less [of "SourceScope s"] by (intro ParseUint_FormatUint) (simp del: unat_u8_less)
  then show ?thesis unfolding t parse_client_subnet_def
    using i v by (simp add: ParseIP_dotted)
qed

theorem Subnet_roundtrip_witness:
  "parse_client_subnet (subnet_text \<lparr>ecsCode = 8, ecsFamily = 1, SourceNetmask = 24, SourceScope = 16,
     ecsAddress = Some (IPv4 192 0 2 0)\<rparr>) = (Some [192, 0, 2, 0], 1, 16)"
  using Subnet_roundtrip [of "\<lparr>ecsCode = 8, ecsFamily = 1, SourceNetmask = 24, SourceScope = 16,
     ecsAddress = Some (IPv4 192 0 2 0)\<rparr>" "IPv4 192 0 2 0" "[192, 0, 2, 0]"]
  by (simp add: IPv4_def)

subsection \<open>Expiry\<close>

text \<open>The instant at which a record marshalled at \<open>t0\<close> expires, to the second, as its text says.\<close>

definition expiry :: "int \<Rightarrow> u32 \<Rightarrow> int" where
  "expiry t0 ttl = (t0 + uint ttl * Second) div Second * Second"

definition aged_ttl :: "int \<Rightarrow> int \<Rightarrow> u32 \<Rightarrow> u32" where
  "aged_ttl t0 t1 ttl =
     (if t1 < expiry t0 ttl + Second then word_of_int (max 0 ((expiry t0 ttl - t1) div Second)) else ttl)"

lemma expiry_le: "expiry t0 ttl \<le> t0 + uint ttl * Second"
  unfolding expiry_def Second_def by linarith

lemma go_quot_neg:
  assumes "x < 0"
  shows "go_quot x Second = - (- x div Second)"
  using assms by (simp add: go_quot_def Second_def)

lemma quot_in_range:
  assumes "d \<le> uint (ttl :: u32) * Second"
  shows "(if 0 \<le> go_quot (clamp64 d) Second \<and> go_quot (clamp64 d) Second \<le> 0xffffffff
     then word_of_int (go_quot (clamp64 d) Second) else ttl) =
    (if - Second < d then word_of_int (max 0 (d div Second)) else ttl)"
proof (cases "0 \<le> d")
  case True
  have u: "uint ttl \<le> 4294967295" using uint_u32_less [of ttl] by simp
  have "d div Second \<le> uint ttl" using zdiv_mono1 [OF assms, of Second] by (simp add: Second_def)
  moreover have "clamp64 d = d" using True assms u by (simp add: clamp64_def Second_def)
  moreover have "0 \<le> d div Second" using True by (simp add: Second_def pos_imp_zdiv_nonneg_iff)
  ultimately show ?thesis using True u by (simp add: Second_def max_def)
next
  case False
  have c: "clamp64 d < 0" "- Second < clamp64 d \<longleftrightarrow> - Second < d" using False by (auto simp: clamp64_def Second_def)
  have q: "go_quot (clamp64 d) Second = - (- clamp64 d div Second)" by (rule go_quot_neg [OF c(1)])
  have "0 \<le> - (- clamp64 d div Second) \<longleftrightarrow> - Second < d"
    using c by (simp add: Second_def) linarith
  moreover have "d div Second \<le> 0" using False by (simp add: Second_def)
  moreover have "- clamp64 d div Second = 0" if "- Second < d" using that c by (simp add: Second_def)
  ultimately show ?thesis using q by (auto simp: max_def)
qed

text \<open>The TTL that is passed on is never larger than the one the record was sent with.\<close>

lemma aged_ttl_le: "t0 \<le> t1 \<Longrightarrow> aged_ttl t0 t1 ttl \<le> ttl"
proof -
  assume t: "t0 \<le> t1"
  have "expiry t0 ttl - t1 \<le> uint ttl * Second" using expiry_le [of t0 ttl] t by simp
  then have "(expiry t0 ttl - t1) div Second \<le> uint ttl" using zdiv_mono1 [of _ "uint ttl * Second" Second] by (simp add: Second_def)
  then have m: "0 \<le> max 0 ((expiry t0 ttl - t1) div Second)" "max 0 ((expiry t0 ttl - t1) div Second) \<le> uint ttl" by simp_all
  then have "uint (word_of_int (max 0 ((expiry t0 ttl - t1) div Second)) :: u32) = max 0 ((expiry t0 ttl - t1) div Second)"
    using uint_u32_less [of ttl] by (simp add: unsigned_of_int take_bit_eq_mod)
  then show "aged_ttl t0 t1 ttl \<le> ttl" using m by (simp add: aged_ttl_def word_le_def)
qed

text \<open>Property C29.  A record marshalled at \<open>t0\<close> and unmarshalled at \<open>t1\<close>, not before, is read by the DNS
  library from its name, type and data and a TTL reduced by the time that has passed: the whole
  seconds left until the printed expiry time (0 in the second that follows it).  Later than that the
  record keeps the full TTL it was sent with; in no case does the TTL grow.\<close>

theorem TTL_roundtrip:
  assumes "t0 \<le> t1" "printable (t0 + uint (Ttl (rr_hdr r)) * Second)" "TypeToString L (Rrtype (rr_hdr r)) = Some t"
    "\<not> ContainsAny (hdrName (rr_hdr r)) [CHR 0x09, CHR 0x0d, CHR 0x0a, CHR '' '', CHR 0x22, CHR ''('', CHR '')'', CHR '';'', CHR 0x5c]"
    "\<not> ContainsAny (jrData (marshalRR L t0 r)) [CHR 0x0d, CHR 0x0a]"
  shows "unmarshalRR L E t1 (marshalRR L t0 r) =
      NewRR L (hdrName (rr_hdr r) @ '' '' @ FormatUint (unat (aged_ttl t0 t1 (Ttl (rr_hdr r)))) @ '' IN '' @ t @ '' '' @ jrData (marshalRR L t0 r))
    \<and> aged_ttl t0 t1 (Ttl (rr_hdr r)) \<le> Ttl (rr_hdr r)"
proof -
  let ?j = "marshalRR L t0 r" and ?ttl = "Ttl (rr_hdr r)"
  let ?e = "expiry t0 ?ttl"
  have p: "parse_rfc1123 (envLoc E) (format_rfc1123 (t0 + uint ?ttl * Second)) = Some ?e"
    using parse_format_rfc1123 [OF assms(2)] by (simp add: expiry_def)
  have ne: "format_rfc1123 x \<noteq> []" for x by (simp add: format_rfc1123_def)
  have q: "(if 0 \<le> go_quot (time_Sub ?e t1) Second \<and> go_quot (time_Sub ?e t1) Second \<le> 0xffffffff
      then word_of_int (go_quot (time_Sub ?e t1) Second) else ?ttl) = aged_ttl t0 t1 ?ttl"
    unfolding time_Sub_def aged_ttl_def using quot_in_range [of "?e - t1" ?ttl] expiry_le [of t0 ?ttl] assms(1)
    by (simp add: algebra_simps)
  show ?thesis
    unfolding unmarshalRR_def using assms(3-5) p ne q aged_ttl_le [OF assms(1)]
    by (auto simp: Let_def zone_text_def split: if_splits)
qed

theorem TTL_roundtrip_witness:
  "unmarshalRR sample_lib sample_env 1700000100500000000 (marshalRR sample_lib 1700000000000000000 (sample_rr 300)) =
     NewRR sample_lib (''a.'' @ '' '' @ FormatUint 199 @ '' IN '' @ ''A'' @ '' '' @ [CHR 0x01, CHR 0x02, CHR 0x03, CHR 0x04])"
proof -
  have s: "string_of_bytes [1, 2, 3, 4] = [CHR 0x01, CHR 0x02, CHR 0x03, CHR 0x04]" by code_simp
  have d: "jrData (marshalRR sample_lib 1700000000000000000 (sample_rr 300)) = [CHR 0x01, CHR 0x02, CHR 0x03, CHR 0x04]"
    by (rule marshalRR_Data [where a = "''a.''" and b = "FormatUint 300" and c = "''IN''" and d = "''A''"])
      (simp_all add: sample_lib_def sample_rr_def s FormatUint_no_char is_digit_def)
  have "printable 1700000300000000000" by code_simp
  then have p: "printable (1700000000000000000 + uint (300 :: u32) * Second)" by (simp add: Second_def)
  have t: "aged_ttl 1700000000000000000 1700000100500000000 300 = 199"
    by (simp add: aged_ttl_def expiry_def Second_def)
  have h: "Ttl (rr_hdr (sample_rr 300)) = 300" "hdrName (rr_hdr (sample_rr 300)) = ''a.''" "Rrtype (rr_hdr (sample_rr 300)) = 1"
    by (simp_all add: sample_rr_def)
  show ?thesis
    using TTL_roundtrip [of 1700000000000000000 1700000100500000000 "sample_rr 300" sample_lib "''A''" sample_env] p
    by (simp add: d t h ContainsAny_def) (simp add: sample_lib_def)
qed

end
