(* ===== verification/Global_IP.thy ===== *)
theory Global_IP
  imports Go_Net
begin

unbundle bit_operations_syntax

section \<open>globalip.go: which addresses are global\<close>

text \<open>
  \<open>init\<close> fills a tree of networks (a package outside the repository) with the special-purpose
  networks of RFC 6890, and \<open>IsGlobalIP\<close> asks the tree whether it contains the address.  The tree is
  an argument, a record of its three operations; \<open>iptree_ok\<close> states what its documentation promises:
  an address is found exactly if one of the inserted networks contains it, IPv4-mapped addresses
  counting as IPv4.
\<close>

record 't iptree =
  NewTree :: 't
  InplaceInsertNet :: "IPNet \<Rightarrow> 't \<Rightarrow> 't"
  GetByIP :: "'t \<Rightarrow> bytes \<Rightarrow> bool"

definition iptree_ok :: "'t iptree \<Rightarrow> bool" where
  "iptree_ok T \<longleftrightarrow> (\<forall>nets x. (\<forall>n \<in> set nets. length (netIP n) = length (netMask n) \<and> length (netIP n) \<in> {4, 16}) \<and>
     length x \<in> {4, 16} \<longrightarrow>
     GetByIP T (foldl (\<lambda>t n. InplaceInsertNet T n t) (NewTree T) nets) x = (\<exists>n \<in> set nets. net_contains n x))"

definition filter_networks :: "IPNet list" where
  "filter_networks =
     [\<lparr>netIP = [0, 0, 0, 0], netMask = [255, 0, 0, 0]\<rparr>,
      \<lparr>netIP = [10, 0, 0, 0], netMask = [255, 0, 0, 0]\<rparr>,
      \<lparr>netIP = [100, 64, 0, 0], netMask = [255, 192, 0, 0]\<rparr>,
      \<lparr>netIP = [127, 0, 0, 0], netMask = [255, 0, 0, 0]\<rparr>,
      \<lparr>netIP = [169, 254, 0, 0], netMask = [255, 255, 0, 0]\<rparr>,
      \<lparr>netIP = [172, 16, 0, 0], netMask = [255, 240, 0, 0]\<rparr>,
      \<lparr>netIP = [192, 0, 0, 0], netMask = [255, 255, 255, 248]\<rparr>,
      \<lparr>netIP = [192, 88, 99, 0], netMask = [255, 255, 255, 0]\<rparr>,
      \<lparr>netIP = [192, 168, 0, 0], netMask = [255, 255, 0, 0]\<rparr>,
      \<lparr>netIP = [240, 0, 0, 0], netMask = [240, 0, 0, 0]\<rparr>,
      \<lparr>netIP = replicate 16 0, netMask = replicate 15 0xff @ [0xfe]\<rparr>,
      \<lparr>netIP = 0x01 # replicate 15 0, netMask = replicate 8 0xff @ replicate 8 0\<rparr>,
      \<lparr>netIP = 0xfc # replicate 15 0, netMask = 0xfe # replicate 15 0\<rparr>,
      \<lparr>netIP = [0xfe, 0x80] @ replicate 14 0, netMask = [0xff, 0xc0] @ replicate 14 0\<rparr>]"

definition defaultFilter :: "'t iptree \<Rightarrow> 't" where
  "defaultFilter T = foldl (\<lambda>t n. InplaceInsertNet T n t) (NewTree T) filter_networks"

definition IsGlobalIP :: "'t iptree \<Rightarrow> ip \<Rightarrow> bool" where
  "IsGlobalIP T x = (case x of None \<Rightarrow> False | Some b \<Rightarrow> \<not> GetByIP T (defaultFilter T) b)"

subsection \<open>The filter as address ranges\<close>

definition special_v4 :: "u8 \<Rightarrow> u8 \<Rightarrow> u8 \<Rightarrow> u8 \<Rightarrow> bool" where
  "special_v4 a b c d \<longleftrightarrow> a = 0 \<or> a = 10 \<or> (a = 100 \<and> 64 \<le> b \<and> b \<le> 127) \<or> a = 127
     \<or> (a = 169 \<and> b = 254) \<or> (a = 172 \<and> 16 \<le> b \<and> b \<le> 31) \<or> (a = 192 \<and> b = 0 \<and> c = 0 \<and> d \<le> 7)
     \<or> (a = 192 \<and> b = 88 \<and> c = 99) \<or> (a = 192 \<and> b = 168) \<or> 240 \<le> a"

definition special_v6 :: "bytes \<Rightarrow> bool" where
  "special_v6 x \<longleftrightarrow> (take 15 x = replicate 15 0 \<and> x ! 15 \<le> 1) \<or> take 8 x = 1 # replicate 7 0
     \<or> (252 \<le> x ! 0 \<and> x ! 0 \<le> 253) \<or> (x ! 0 = 254 \<and> 128 \<le> x ! 1 \<and> x ! 1 \<le> 191)"

lemma filter_networks_wf:
  "\<forall>n \<in> set filter_networks. length (netIP n) = length (netMask n) \<and> length (netIP n) \<in> {4, 16}"
  by (simp add: filter_networks_def)

lemma GetByIP_default:
  assumes "iptree_ok T" "length x \<in> {4, 16}"
  shows "GetByIP T (defaultFilter T) x \<longleftrightarrow> (\<exists>n \<in> set filter_networks. net_contains n x)"
  using assms filter_networks_wf unfolding iptree_ok_def defaultFilter_def by blast

lemma filter_v4: "(\<exists>n \<in> set filter_networks. net_contains n [a, b, c, d]) \<longleftrightarrow> special_v4 a b c d"
  by (auto simp: filter_networks_def net_contains_def special_v4_def masked_bytes)

lemma net_contains_To4: "To4 x = Some v \<Longrightarrow> net_contains n x = net_contains n v"
  using To4_idem [of x v] by (simp add: net_contains_def)

lemma length_16_cases:
  assumes "length x = 16"
  obtains a b c d e f g h i j k l m n p q where "x = [a, b, c, d, e, f, g, h, i, j, k, l, m, n, p, q]"
  using assms by (auto simp: numeral_eq_Suc length_Suc_conv)

lemma filter_v6:
  assumes "length x = 16" "To4 x = None"
  shows "(\<exists>n \<in> set filter_networks. net_contains n x) \<longleftrightarrow> special_v6 x"
proof -
  obtain a b c d e f g h i j k l m n p q where x: "x = [a, b, c, d, e, f, g, h, i, j, k, l, m, n, p, q]"
    by (rule length_16_cases [OF assms(1)])
  have r: "replicate 16 z = [z,z,z,z,z,z,z,z,z,z,z,z,z,z,z,z]" "replicate 15 z = [z,z,z,z,z,z,z,z,z,z,z,z,z,z,z]"
    "replicate 14 z = [z,z,z,z,z,z,z,z,z,z,z,z,z,z]" "replicate 8 z = [z,z,z,z,z,z,z,z]" "replicate 7 z = [z,z,z,z,z,z,z]"
    for z :: u8
    by (simp_all add: numeral_eq_Suc)
  show ?thesis using assms(2)
    by (auto simp: filter_networks_def net_contains_def special_v6_def masked_bytes r x)
qed

subsection \<open>Properties\<close>

text \<open>Property C37.  For an IPv4 address, given as 4 bytes or as an IPv4-mapped 16-byte address,
  \<open>IsGlobalIP\<close> is false exactly on 0/8, 10/8, 100.64/10, 127/8, 169.254/16, 172.16/12, 192.0.0.0/29,
  192.88.99/24, 192.168/16 and 240/4.\<close>

theorem IsGlobalIP_v4:
  assumes "iptree_ok T" "To4 x = Some [a, b, c, d]"
  shows "IsGlobalIP T (Some x) \<longleftrightarrow> \<not> special_v4 a b c d"
proof -
  have "length x \<in> {4, 16}" using assms(2) by (auto simp: To4_def split: if_splits)
  then show ?thesis
    using GetByIP_default [OF assms(1)] net_contains_To4 [OF assms(2)] filter_v4
    by (simp add: IsGlobalIP_def)
qed

definition list_tree :: "IPNet list iptree" where
  "list_tree = \<lparr>NewTree = [], InplaceInsertNet = (#), GetByIP = (\<lambda>t x. \<exists>n \<in> set t. net_contains n x)\<rparr>"

lemma list_tree_ok: "iptree_ok list_tree"
proof -
  have "set (foldl (\<lambda>t n. n # t) ns nets) = set ns \<union> set nets" for ns nets :: "IPNet list"
    by (induction nets arbitrary: ns) auto
  then show ?thesis by (simp add: iptree_ok_def list_tree_def)
qed

theorem IsGlobalIP_v4_witness:
  "IsGlobalIP list_tree (Some [8, 8, 4, 4]) \<and> \<not> IsGlobalIP list_tree (Some (IPv4 192 168 1 1))"
  using IsGlobalIP_v4 [OF list_tree_ok, of "[8, 8, 4, 4]" 8 8 4 4]
    IsGlobalIP_v4 [OF list_tree_ok, of "IPv4 192 168 1 1" 192 168 1 1]
  by (simp add: special_v4_def IPv4_def)

text \<open>For any other 16-byte address \<open>IsGlobalIP\<close> is false exactly on the unspecified
  and loopback addresses \<open>::/127\<close>, the discard prefix \<open>100::/64\<close>, unique local \<open>fc00::/7\<close> and
  link-local \<open>fe80::/10\<close>; and it is false for a nil address.\<close>

theorem IsGlobalIP_v6:
  assumes "iptree_ok T" "length x = 16" "To4 x = None"
  shows "(IsGlobalIP T (Some x) \<longleftrightarrow> \<not> special_v6 x) \<and> \<not> IsGlobalIP T None"
  using GetByIP_default [OF assms(1), of x] filter_v6 [OF assms(2,3)] assms(2)
  by (simp add: IsGlobalIP_def)

theorem IsGlobalIP_v6_witness:
  "\<not> IsGlobalIP list_tree (Some (replicate 15 0 @ [1])) \<and>
   IsGlobalIP list_tree (Some ([0x20, 0x01, 0x48, 0x60] @ replicate 12 0))"
proof -
  have "To4 (replicate 15 0 @ [1]) = None" "To4 ([0x20, 0x01, 0x48, 0x60] @ replicate 12 0) = None"
    "special_v6 (replicate 15 0 @ [1])" "\<not> special_v6 ([0x20, 0x01, 0x48, 0x60] @ replicate 12 0)"
    by code_simp+
  then show ?thesis
    using IsGlobalIP_v6 [OF list_tree_ok, of "replicate 15 0 @ [1]"]
      IsGlobalIP_v6 [OF list_tree_ok, of "[0x20, 0x01, 0x48, 0x60] @ replicate 12 0"]
    by simp
qed

end
