(* ===== verification/Go_Http.thy ===== *)
theory Go_Http
  imports Doh_Prelude Complex_Main
begin

section \<open>The values of net/http and encoding/json the program exchanges\<close>

text \<open>
  Header maps are association lists over canonical names: \<open>header_get\<close> is Go's \<open>Header.Get\<close>
  (the empty string for a missing name) and \<open>header_set\<close> is \<open>Header.Set\<close>.  A response carries the
  outcome of reading its body, because \<open>io.ReadAll\<close> may fail.  A decoded JSON document is a
  \<open>json_value\<close>; a number is the \<open>float64\<close> it decodes to, hence a rational.
\<close>

type_synonym http_header = "(string \<times> string) list"

definition header_get :: "http_header \<Rightarrow> string \<Rightarrow> string" where
  "header_get h k = (case map_of h k of None \<Rightarrow> '''' | Some v \<Rightarrow> v)"

definition header_set :: "string \<Rightarrow> string \<Rightarrow> http_header \<Rightarrow> http_header" where
  "header_set k v h = (k, v) # filter (\<lambda>p. fst p \<noteq> k) h"

lemma header_get_set: "header_get (header_set k v h) k' = (if k' = k then v else header_get h k')"
proof -
  have "map_of (filter (\<lambda>p. fst p \<noteq> k) h) k' = map_of h k'" if "k' \<noteq> k"
    using that by (induction h) auto
  then show ?thesis by (simp add: header_get_def header_set_def)
qed

record http_response =
  StatusCode :: int
  respHeader :: http_header
  respBody :: "string + bytes"

record http_request =
  reqMethod :: string
  reqURL :: string
  reqHeader :: http_header
  reqBody :: bytes

datatype json_value =
    JNull
  | JBool bool
  | JNumber rat
  | JString string
  | JArray "json_value list"
  | JObject "(string \<times> json_value) list"

definition StatusOK :: int where "StatusOK = 200"

subsection \<open>Writing a response\<close>

text \<open>
  An \<open>http.ResponseWriter\<close>: headers can be set until the status line is sent, which happens with the
  first \<open>WriteHeader\<close> or, with status 200, the first \<open>Write\<close>.
\<close>

record http_writer =
  wHeader :: http_header
  wStatus :: "int option"
  wBody :: bytes

definition new_writer :: http_writer where
  "new_writer = \<lparr>wHeader = [], wStatus = None, wBody = []\<rparr>"

definition w_Set :: "string \<Rightarrow> string \<Rightarrow> http_writer \<Rightarrow> http_writer" where
  "w_Set k v w = (if wStatus w = None then w\<lparr>wHeader := header_set k v (wHeader w)\<rparr> else w)"

definition w_WriteHeader :: "int \<Rightarrow> http_writer \<Rightarrow> http_writer" where
  "w_WriteHeader code w = (if wStatus w = None then w\<lparr>wStatus := Some code\<rparr> else w)"

definition w_Write :: "bytes \<Rightarrow> http_writer \<Rightarrow> http_writer" where
  "w_Write b w = (let w' = w_WriteHeader StatusOK w in w'\<lparr>wBody := wBody w' @ b\<rparr>)"

lemma w_Set_simps [simp]:
  "wStatus (w_Set k v w) = wStatus w" "wBody (w_Set k v w) = wBody w"
  "wStatus w = None \<Longrightarrow> header_get (wHeader (w_Set k v w)) k' = (if k' = k then v else header_get (wHeader w) k')"
  by (simp_all add: w_Set_def header_get_set)

lemma w_Write_simps [simp]:
  "wHeader (w_Write b w) = wHeader w" "wBody (w_Write b w) = wBody w @ b"
  "wStatus (w_Write b w) = (case wStatus w of None \<Rightarrow> Some 200 | Some c \<Rightarrow> Some c)"
  "wHeader (w_WriteHeader c w) = wHeader w" "wBody (w_WriteHeader c w) = wBody w"
  "wStatus (w_WriteHeader c w) = (case wStatus w of None \<Rightarrow> Some c | Some d \<Rightarrow> Some d)"
  by (auto simp: w_Write_def w_WriteHeader_def StatusOK_def Let_def split: option.splits)

end
