(* ===== verification/Go_Base64.thy ===== *)
theory Go_Base64
  imports Go_Strings
begin

section \<open>base64.RawURLEncoding\<close>

text \<open>
  The unpadded URL-safe alphabet that carries DNS messages in GET requests.  \<open>DecodeString\<close> skips
  carriage returns and line feeds, rejects every other character outside the alphabet and a last
  group of one character, and ignores the unused low bits of the last character.
\<close>

definition b64_char :: "nat \<Rightarrow> char" where
  "b64_char n =
     (if n < 26 then char_of (65 + n) else if n < 52 then char_of (71 + n)
      else if n < 62 then char_of (n - 4) else if n = 62 then CHR ''-'' else CHR ''_'')"

definition b64_val :: "char \<Rightarrow> nat option" where
  "b64_val c = (let n = of_char c :: nat in
     if 65 \<le> n \<and> n \<le> 90 then Some (n - 65)
     else if 97 \<le> n \<and> n \<le> 122 then Some (n - 71)
     else if 48 \<le> n \<and> n \<le> 57 then Some (n + 4)
     else if c = CHR ''-'' then Some 62
     else if c = CHR ''_'' then Some 63 else None)"

fun to_sextets :: "nat list \<Rightarrow> nat list" where
  "to_sextets [] = []"
| "to_sextets [a] = [a div 4, a mod 4 * 16]"
| "to_sextets [a, b] = [a div 4, a mod 4 * 16 + b div 16, b mod 16 * 4]"
| "to_sextets (a # b # c # r) =
     [a div 4, a mod 4 * 16 + b div 16, b mod 16 * 4 + c div 64, c mod 64] @ to_sextets r"

fun of_sextets :: "nat list \<Rightarrow> nat list option" where
  "of_sextets [] = Some []"
| "of_sextets [x] = None"
| "of_sextets [x, y] = Some [x * 4 + y div 16]"
| "of_sextets [x, y, z] = Some [x * 4 + y div 16, y mod 16 * 16 + z div 4]"
| "of_sextets (x # y # z # w # r) =
     map_option ((@) [x * 4 + y div 16, y mod 16 * 16 + z div 4, z mod 4 * 64 + w]) (of_sextets r)"

definition EncodeToString :: "bytes \<Rightarrow> string" where
  "EncodeToString bs = map b64_char (to_sextets (map unat bs))"

definition DecodeString :: "string \<Rightarrow> bytes option" where
  "DecodeString s =
     (let vs = map b64_val (filter (\<lambda>c. c \<noteq> CHR 0x0a \<and> c \<noteq> CHR 0x0d) s)
      in if None \<in> set vs then None
         else map_option (map of_nat) (of_sextets (map the vs)))"

lemma b64_val_char: "n < 64 \<Longrightarrow> b64_val (b64_char n) = Some n"
  by (auto simp: b64_val_def b64_char_def Let_def)

lemma b64_char_unreserved: "n < 64 \<Longrightarrow> unreserved (b64_char n)"
  by (auto simp: unreserved_def b64_char_def Let_def)

lemma b64_char_not_newline: "n < 64 \<Longrightarrow> b64_char n \<noteq> CHR 0x0a \<and> b64_char n \<noteq> CHR 0x0d"
  using b64_val_char [of n] by (auto simp: b64_val_def)

lemma to_sextets_bound: "\<forall>a \<in> set as. a < 256 \<Longrightarrow> \<forall>x \<in> set (to_sextets as). x < 64"
  by (induction "as" rule: to_sextets.induct) auto

lemma of_to_sextets: "\<forall>a \<in> set as. a < 256 \<Longrightarrow> of_sextets (to_sextets as) = Some as"
proof (induction "as" rule: to_sextets.induct)
  case (4 a b c r)
  have "(a mod 4 * 16 + b div 16) div 16 = a mod 4" "(a mod 4 * 16 + b div 16) mod 16 = b div 16"
    "(b mod 16 * 4 + c div 64) div 4 = b mod 16" "(b mod 16 * 4 + c div 64) mod 4 = c div 64"
    using 4(2) by auto
  then show ?case using 4 by simp
next
  case (3 a b)
  have "(a mod 4 * 16 + b div 16) div 16 = a mod 4" "(a mod 4 * 16 + b div 16) mod 16 = b div 16"
    using 3 by auto
  then show ?case using 3 by simp
qed simp_all

lemma DecodeString_EncodeToString: "DecodeString (EncodeToString bs) = Some bs"
proof -
  let ?ss = "to_sextets (map unat bs)"
  have b: "\<forall>x \<in> set ?ss. x < 64" by (rule to_sextets_bound) simp
  then have f: "filter (\<lambda>c. c \<noteq> CHR 0x0a \<and> c \<noteq> CHR 0x0d) (map b64_char ?ss) = map b64_char ?ss"
    using b64_char_not_newline by (auto intro: filter_True)
  have v: "map b64_val (map b64_char ?ss) = map Some ?ss" using b b64_val_char by simp
  have "of_sextets ?ss = Some (map unat bs)" by (rule of_to_sextets) simp
  then show ?thesis unfolding DecodeString_def EncodeToString_def f v Let_def
    by (auto simp: comp_def)
qed

lemma EncodeToString_unreserved: "c \<in> set (EncodeToString bs) \<Longrightarrow> unreserved c"
  using to_sextets_bound [of "map unat bs"] b64_char_unreserved by (auto simp: EncodeToString_def)

lemma length_to_sextets: "length (to_sextets as) = (4 * length as + 2) div 3"
  by (induction "as" rule: to_sextets.induct) auto

lemma length_EncodeToString: "length (EncodeToString bs) = (4 * length bs + 2) div 3"
  by (simp add: EncodeToString_def length_to_sextets)

end
