(* ===== verification/Upstream.thy ===== *)
theory Upstream
  imports Go_Http Go_Strings
begin

section \<open>Upstreams and the adjustment of their weights\<close>

text \<open>
  The data of \<open>doh-client/selector/upstream.go\<close> and \<open>upstreamStatus.go\<close>, the two idioms by which
  every selector lowers and raises an effective weight (an \<open>AddInt32\<close> followed by a conditional
  \<open>StoreInt32\<close>), and one round of the evaluation loop that probes all upstreams in parallel.
  The Go enumerations are integers, so both carry a constructor for every other value.
\<close>

datatype UpstreamType = Google | IETF | OtherType int

datatype upstreamStatus = Timeout | Error | OK | OtherStatus int

record upstream =
  uType :: UpstreamType
  URL :: string
  RequestType :: string
  weight :: int
  effectiveWeight :: int
  currentWeight :: int

definition typeMap :: "UpstreamType \<Rightarrow> string" where
  "typeMap t = (case t of Google \<Rightarrow> ''Google'' | IETF \<Rightarrow> ''IETF'' | OtherType _ \<Rightarrow> '''')"

definition upstream_String :: "upstream \<Rightarrow> string" where
  "upstream_String u = ''upstream type: '' @ typeMap (uType u) @ '', upstream url: '' @ URL u"

text \<open>The verb \<open>%d\<close> of \<open>log.Printf\<close> for an \<open>int32\<close>, and the line \<open>ReportWeights\<close> logs for an upstream.\<close>

definition FormatInt :: "int \<Rightarrow> string" where
  "FormatInt x = (if x < 0 then CHR ''-'' # FormatUint (nat (- x)) else FormatUint (nat x))"

definition weight_line :: "upstream \<Rightarrow> string" where
  "weight_line u = upstream_String u @ '', effect weight: '' @ FormatInt (effectiveWeight u)"

lemma FormatInt_inject [simp]: "FormatInt x = FormatInt y \<longleftrightarrow> x = y"
proof -
  have digit: "is_digit (hd (FormatUint n))" for n using FormatUint_digits [of n] FormatUint_ne [of n] by (cases "FormatUint n") auto
  have "FormatUint m = FormatUint n \<longleftrightarrow> m = n" for m n by (metis digits_val_FormatUint)
  moreover have sign: "FormatUint n \<noteq> CHR ''-'' # s" for s n using digit [of n] by (auto simp: is_digit_def)
  moreover have "CHR ''-'' # s \<noteq> FormatUint n" for s n using sign [of n s] by metis
  ultimately show ?thesis by (auto simp: FormatInt_def)
qed

lemma weight_line_inject: "upstream_String u = upstream_String v \<Longrightarrow> weight_line u = weight_line v \<longleftrightarrow> effectiveWeight u = effectiveWeight v"
  by (simp add: weight_line_def)

text \<open>What a selector never changes of an upstream once it has been added.\<close>

definition upstream_id :: "upstream \<Rightarrow> UpstreamType \<times> string \<times> string \<times> int" where
  "upstream_id u = (uType u, URL u, RequestType u, weight u)"

subsection \<open>Lowering and raising an effective weight\<close>

text \<open>\<open>if atomic.AddInt32(&u.effectiveWeight, -d) < 1 { atomic.StoreInt32(&u.effectiveWeight, 1) }\<close>\<close>

definition lower_weight :: "int \<Rightarrow> upstream \<Rightarrow> upstream" where
  "lower_weight d u =
     (let e = wrap32 (effectiveWeight u - d)
      in if e < 1 then u\<lparr>effectiveWeight := 1\<rparr> else u\<lparr>effectiveWeight := e\<rparr>)"

text \<open>\<open>if atomic.AddInt32(&u.effectiveWeight, d) > u.weight { atomic.StoreInt32(&u.effectiveWeight, u.weight) }\<close>\<close>

definition raise_weight :: "int \<Rightarrow> upstream \<Rightarrow> upstream" where
  "raise_weight d u =
     (let e = wrap32 (effectiveWeight u + d)
      in if weight u < e then u\<lparr>effectiveWeight := weight u\<rparr> else u\<lparr>effectiveWeight := e\<rparr>)"

definition weight_ok :: "upstream \<Rightarrow> bool" where
  "weight_ok u \<longleftrightarrow> 1 \<le> effectiveWeight u \<and> effectiveWeight u \<le> weight u \<and> weight u < 2147483638"

lemma upstream_id_lower [weight_simps]: "upstream_id (lower_weight d u) = upstream_id u"
  by (simp add: lower_weight_def upstream_id_def Let_def)

lemma upstream_id_raise [weight_simps]: "upstream_id (raise_weight d u) = upstream_id u"
  by (simp add: raise_weight_def upstream_id_def Let_def)

lemma currentWeight_lower [weight_simps]: "currentWeight (lower_weight d u) = currentWeight u"
  by (simp add: lower_weight_def Let_def)

lemma currentWeight_raise [weight_simps]: "currentWeight (raise_weight d u) = currentWeight u"
  by (simp add: raise_weight_def Let_def)

lemma weight_lower [weight_simps]: "weight (lower_weight d u) = weight u"
  by (simp add: lower_weight_def Let_def)

lemma weight_raise [weight_simps]: "weight (raise_weight d u) = weight u"
  by (simp add: raise_weight_def Let_def)

lemma lower_weight_eq:
  assumes "weight_ok u" "0 \<le> d" "d \<le> 10"
  shows "effectiveWeight (lower_weight d u) = max 1 (effectiveWeight u - d)"
proof -
  have "wrap32 (effectiveWeight u - d) = effectiveWeight u - d"
    using assms by (intro wrap32_id) (auto simp: weight_ok_def in32_def)
  then show ?thesis by (simp add: lower_weight_def Let_def max_def)
qed

lemma raise_weight_eq:
  assumes "weight_ok u" "0 \<le> d" "d \<le> 10"
  shows "effectiveWeight (raise_weight d u) = min (weight u) (effectiveWeight u + d)"
proof -
  have "wrap32 (effectiveWeight u + d) = effectiveWeight u + d"
    using assms by (intro wrap32_id) (auto simp: weight_ok_def in32_def)
  then show ?thesis by (simp add: raise_weight_def Let_def min_def)
qed

lemma weight_ok_lower:
  assumes "weight_ok u" "0 \<le> d" "d \<le> 10"
  shows "weight_ok (lower_weight d u)"
  using assms lower_weight_eq [OF assms] by (auto simp: weight_ok_def weight_simps)

lemma weight_ok_raise:
  assumes "weight_ok u" "0 \<le> d" "d \<le> 10"
  shows "weight_ok (raise_weight d u)"
  using assms raise_weight_eq [OF assms] by (auto simp: weight_ok_def weight_simps)

text \<open>\<open>v\<close> is \<open>u\<close> after an adjustment: nothing but the effective weight may differ.\<close>

definition adjusted :: "upstream \<Rightarrow> upstream \<Rightarrow> bool" where
  "adjusted u v \<longleftrightarrow> upstream_id v = upstream_id u \<and> currentWeight v = currentWeight u
     \<and> (weight_ok u \<longrightarrow> weight_ok v)"

lemma adjusted_lower [intro]: "0 \<le> d \<Longrightarrow> d \<le> 10 \<Longrightarrow> adjusted u (lower_weight d u)"
  by (simp add: adjusted_def weight_simps weight_ok_lower)

lemma adjusted_raise [intro]: "0 \<le> d \<Longrightarrow> d \<le> 10 \<Longrightarrow> adjusted u (raise_weight d u)"
  by (simp add: adjusted_def weight_simps weight_ok_raise)

lemma adjusted_refl [intro]: "adjusted u u"
  by (simp add: adjusted_def)

lemma adjustedD:
  assumes "adjusted u v"
  shows "upstream_id v = upstream_id u" "currentWeight v = currentWeight u"
    "weight_ok u \<Longrightarrow> weight_ok v" "weight v = weight u"
  using assms by (auto simp: adjusted_def upstream_id_def)

subsection \<open>A round of the evaluation loop\<close>

text \<open>
  The environment of a probe: whether \<open>http.NewRequest\<close> accepts a URL, what \<open>client.Do\<close> returns
  for a URL and an \<open>accept\<close> value, and what \<open>json.Decoder.Decode\<close> makes of a body.
\<close>

record probe_env =
  probeNewRequest :: "string \<Rightarrow> string option"
  probeDo :: "string \<Rightarrow> string \<Rightarrow> string + http_response"
  probeDecode :: "bytes \<Rightarrow> string + (string \<rightharpoonup> json_value)"

definition probe_url :: "upstream \<Rightarrow> string" where
  "probe_url u = URL u @ (case uType u of
       Google \<Rightarrow> ''?name=www.example.com&type=A''
     | IETF \<Rightarrow> ''?dns=q80BAAABAAAAAAAAA3d3dwdleGFtcGxlA2NvbQAAAQAB''
     | OtherType _ \<Rightarrow> '''')"

definition probe_accept :: "upstream \<Rightarrow> string" where
  "probe_accept u = (case uType u of
       Google \<Rightarrow> ''application/dns-json''
     | IETF \<Rightarrow> ''application/dns-message''
     | OtherType _ \<Rightarrow> '''')"

text \<open>
  The goroutines of a round each read and write one upstream; the round is over when all have
  finished (\<open>wg.Wait\<close>).  \<open>order\<close> is the sequence in which they run; a panic in one of them ends
  the program.
\<close>

fun evaluate_round ::
  "(upstream \<Rightarrow> go_panic + upstream) \<Rightarrow> nat list \<Rightarrow> upstream list \<Rightarrow> go_panic + upstream list" where
  "evaluate_round ev [] us = Inr us"
| "evaluate_round ev (i # is) us =
     (case ev (us ! i) of
        Inl p \<Rightarrow> Inl p
      | Inr u \<Rightarrow> evaluate_round ev is (us[i := u]))"

lemma evaluate_round_length:
  "evaluate_round ev is us = Inr us' \<Longrightarrow> length us' = length us"
  by (induction "is" arbitrary: us) (auto split: sum.splits)

lemma evaluate_round_nth:
  assumes "evaluate_round ev is us = Inr us'" "distinct is" "i < length us" "set is \<subseteq> {..<length us}"
  shows "if i \<in> set is then ev (us ! i) = Inr (us' ! i) else us' ! i = us ! i"
  using assms
proof (induction "is" arbitrary: us)
  case Nil
  then show ?case by simp
next
  case (Cons j js)
  then obtain u where u: "ev (us ! j) = Inr u" and rest: "evaluate_round ev js (us[j := u]) = Inr us'"
    by (auto split: sum.splits)
  from Cons.IH [OF rest] Cons.prems
  have "if i \<in> set js then ev (us[j := u] ! i) = Inr (us' ! i) else us' ! i = us[j := u] ! i"
    by simp
  with u Cons.prems show ?case by (cases "i = j") auto
qed

lemma evaluate_round_total:
  assumes "\<And>u. u \<in> set us \<Longrightarrow> ev u = Inr (f u)" "distinct is" "set is \<subseteq> {..<length us}"
  shows "\<exists>us'. evaluate_round ev is us = Inr us'"
proof -
  have "\<exists>us'. evaluate_round ev is vs = Inr us'"
    if "length vs = length us" "\<And>i. i \<in> set is \<Longrightarrow> vs ! i = us ! i" for vs
    using assms(2,3) that
  proof (induction "is" arbitrary: vs)
    case Nil
    then show ?case by simp
  next
    case (Cons j js)
    have "ev (vs ! j) = Inr (f (us ! j))" using Cons.prems assms(1) by simp
    moreover have "vs[j := f (us ! j)] ! i = us ! i" if "i \<in> set js" for i
      using that Cons.prems by (cases "i = j") auto
    then have "\<exists>us'. evaluate_round ev js (vs[j := f (us ! j)]) = Inr us'"
      using Cons.prems by (intro Cons.IH) auto
    ultimately show ?case by simp
  qed
  then show ?thesis by blast
qed

text \<open>
  The upstreams after a full round are those each probe gives on its own, in whatever order the
  goroutines ran.
\<close>

lemma evaluate_round_full:
  assumes "\<And>u. u \<in> set us \<Longrightarrow> ev u = Inr (f u)" "distinct is" "set is = {..<length us}"
  shows "evaluate_round ev is us = Inr (map f us)"
proof -
  obtain us' where us': "evaluate_round ev is us = Inr us'"
    using evaluate_round_total [of us ev f "is"] assms by blast
  have "us' = map f us"
  proof (rule nth_equalityI)
    show "length us' = length (map f us)" using evaluate_round_length [OF us'] by simp
    fix i assume "i < length us'"
    then have i: "i < length us" using evaluate_round_length [OF us'] by simp
    then have "ev (us ! i) = Inr (us' ! i)"
      using evaluate_round_nth [OF us' assms(2) i] assms(3) by auto
    then show "us' ! i = map f us ! i" using assms(1) [of "us ! i"] i by simp
  qed
  with us' show ?thesis by simp
qed

lemma map_update_same: "f x = f (xs ! i) \<Longrightarrow> map f (xs[i := x]) = map f xs"
  by (metis list_update_id map_update)

lemma evaluate_round_invariant:
  assumes "evaluate_round ev is us = Inr us'" "set is \<subseteq> {..<length us}"
    "\<And>u v. ev u = Inr v \<Longrightarrow> f v = f u \<and> (P u \<longrightarrow> P v)"
    "\<forall>u \<in> set us. P u"
  shows "map f us' = map f us \<and> (\<forall>u \<in> set us'. P u)"
  using assms(1,2,4)
proof (induction "is" arbitrary: us)
  case Nil
  then show ?case by simp
next
  case (Cons j js)
  then obtain u where u: "ev (us ! j) = Inr u" and rest: "evaluate_round ev js (us[j := u]) = Inr us'"
    by (auto split: sum.splits)
  have fP: "f u = f (us ! j)" "P (us ! j) \<Longrightarrow> P u" using assms(3) [OF u] by auto
  have P: "\<forall>x \<in> set (us[j := u]). P x"
    using Cons.prems fP(2) by (auto dest!: set_update_subset_insert [THEN subsetD])
  have "map f us' = map f (us[j := u]) \<and> (\<forall>x \<in> set us'. P x)"
    using rest Cons.prems P by (intro Cons.IH) auto
  then show ?case by (simp add: map_update_same fP(1))
qed

end
