(* ===== verification/Client_Request.thy ===== *)
theory Client_Request
  imports Client_Net Json_Unmarshal Global_IP Go_Http Go_Base64 Upstream
begin

section \<open>Requests and responses of the client: google.go, ietf.go and findClientIP of doh-client\<close>

text \<open>
  \<open>client_env\<close> holds what comes from outside the repository or from the machine: the time, the IDNA
  conversion (Go returns a text beside the error), lower case of non-ASCII text, the resolver,
  \<open>http.NewRequest\<close>, \<open>Client.Do\<close> with whether its error is a timeout, the exchange with a DNS server
  over UDP or TCP, and the JSON decoder.  A \<open>dns.ResponseWriter\<close> is the address of the client
  together with what has been written to it.  A request that failed is an error value, one that
  succeeded carries the HTTP response.  Both generators may change the query in place, so the one
  that does returns it.  Lines that only write to the log are left out.
\<close>

definition CLIENT_USER_AGENT :: string where
  "CLIENT_USER_AGENT = ''DNS-over-HTTPS/2.3.10 (+https://github.com/m13253/dns-over-https)''"

datatype dns_write = WroteMsg dns_msg | WroteBytes bytes

record dns_writer =
  RemoteAddr :: string
  written :: "dns_write list"

definition w_WriteMsg :: "dns_msg \<Rightarrow> dns_writer \<Rightarrow> dns_writer" where
  "w_WriteMsg m w = w\<lparr>written := written w @ [WroteMsg m]\<rparr>"

definition w_WriteBytes :: "bytes \<Rightarrow> dns_writer \<Rightarrow> dns_writer" where
  "w_WriteBytes b w = w\<lparr>written := written w @ [WroteBytes b]\<rparr>"

datatype client_error = DnsError | PackFailed string | BadRequest string | UrlError string bool

record client_env =
  ceNow :: int
  ceToASCII :: "string \<Rightarrow> string \<times> string option"
  ceLower :: "string \<Rightarrow> string"
  ceResolveUDP :: "string \<Rightarrow> string + udp_addr"
  ceNewRequest :: "string \<Rightarrow> string \<Rightarrow> string option"
  ceDo :: "http_request \<Rightarrow> (string \<times> bool) + http_response"
  ceExchange :: "bool \<Rightarrow> dns_msg \<Rightarrow> string \<Rightarrow> string + dns_msg"
  ceUnmarshal :: "bytes \<Rightarrow> string + json_response"
  ceJson :: json_env

record client_request =
  crResponse :: http_response
  crReply :: dns_msg
  crUpstream :: string
  crAddress :: ip
  crUdpSize :: u16
  crNetmask :: u8

definition write_failure :: "int \<Rightarrow> dns_msg \<Rightarrow> dns_writer \<Rightarrow> dns_writer" where
  "write_failure rcode r w = w_WriteMsg ((PrepareReply r)\<lparr>Rcode := rcode\<rparr>) w"

subsection \<open>findClientIP\<close>

definition client_findClientIP ::
  "dns_lib \<Rightarrow> Config \<Rightarrow> 't iptree \<Rightarrow> client_env \<Rightarrow> dns_writer \<Rightarrow> dns_msg \<Rightarrow> go_panic + ip \<times> u8" where
  "client_findClientIP L conf T E w r =
     (if NoECS (Other conf) then Inr (Some (IPv4 0 0 0 0), 0)
      else case (case IsEdns0 L r of None \<Rightarrow> Inr None | Some i \<Rightarrow> find_subnet (rr_options (msgExtra r ! i))) of
        Inl p \<Rightarrow> Inl p
      | Inr (Some s) \<Rightarrow> Inr (ecsAddress s, SourceNetmask s)
      | Inr None \<Rightarrow>
          (case ceResolveUDP E (RemoteAddr w) of
             Inl err \<Rightarrow> Inr (None, 255)
           | Inr remoteAddr \<Rightarrow>
               (case uaIP remoteAddr of
                  None \<Rightarrow> Inr (None, 255)
                | Some x \<Rightarrow>
                    if IsGlobalIP T (Some x) then
                      (case To4 x of
                         Some v \<Rightarrow> Inr (Mask v [255, 255, 255, 0], 24)
                       | None \<Rightarrow> Inr (Mask x (CIDRMask 56 128), 56))
                    else Inr (None, 255))))"

subsection \<open>Sending a request\<close>

definition set_agent :: "Config \<Rightarrow> http_request \<Rightarrow> http_request" where
  "set_agent conf q = q\<lparr>reqHeader :=
     header_set ''User-Agent'' (if NoUserAgent (Other conf) then [] else CLIENT_USER_AGENT) (reqHeader q)\<rparr>"

text \<open>\<open>c.httpClient.Do(req)\<close> and what both generators make of its outcome.\<close>

definition send_request ::
  "client_env \<Rightarrow> http_request \<Rightarrow> upstream \<Rightarrow> ip \<Rightarrow> u16 \<Rightarrow> u8 \<Rightarrow> dns_writer \<Rightarrow> dns_msg \<Rightarrow> dns_writer \<times> (client_error + client_request)" where
  "send_request E q u addr udpSize netmask w r =
     (case ceDo E q of
        Inl (err, timeout) \<Rightarrow> (write_failure RcodeServerFailure r w, Inl (UrlError err timeout))
      | Inr resp \<Rightarrow> (w, Inr \<lparr>crResponse = resp, crReply = PrepareReply r, crUpstream = URL u,
          crAddress = addr, crUdpSize = udpSize, crNetmask = netmask\<rparr>))"

subsection \<open>Google requests\<close>

definition type_text :: "dns_lib \<Rightarrow> u16 \<Rightarrow> string" where
  "type_text L t = (case TypeToString L t of Some s \<Rightarrow> s | None \<Rightarrow> FormatUint (unat t))"

definition google_url :: "dns_lib \<Rightarrow> upstream \<Rightarrow> dns_msg \<Rightarrow> dns_question \<Rightarrow> ip \<Rightarrow> u8 \<Rightarrow> string" where
  "google_url L u r q addr netmask =
     URL u @ ''?ct=application/dns-json&name='' @ QueryEscape (qName q) @ ''&type='' @ QueryEscape (type_text L (Qtype q))
     @ (if CheckingDisabled r then ''&cd=1'' else [])
     @ (case IsEdns0 L r of None \<Rightarrow> [] | Some i \<Rightarrow> if getDo L (rr_hdr (msgExtra r ! i)) then ''&do=1'' else [])
     @ (case addr of None \<Rightarrow> [] | Some x \<Rightarrow> ''&edns_client_subnet='' @ IP_String x @ ''/'' @ FormatUint (unat netmask))"

definition query_udp_size :: "dns_lib \<Rightarrow> dns_msg \<Rightarrow> u16" where
  "query_udp_size L r = (case IsEdns0 L r of None \<Rightarrow> 512 | Some i \<Rightarrow> UDPSize L (rr_hdr (msgExtra r ! i)))"

definition generateRequestGoogle ::
  "dns_lib \<Rightarrow> Config \<Rightarrow> 't iptree \<Rightarrow> client_env \<Rightarrow> dns_writer \<Rightarrow> dns_msg \<Rightarrow> upstream \<Rightarrow>
   go_panic + dns_writer \<times> (client_error + client_request)" where
  "generateRequestGoogle L conf T E w r u =
     (case msgQuestion r of
        [] \<Rightarrow> Inl IndexOutOfRange
      | q # _ \<Rightarrow>
          if Qclass q \<noteq> ClassINET then Inr (write_failure RcodeRefused r w, Inl DnsError)
          else
            case client_findClientIP L conf T E w r of
              Inl p \<Rightarrow> Inl p
            | Inr (addr, netmask) \<Rightarrow>
                let requestURL = google_url L u r q addr netmask in
                (case ceNewRequest E ''GET'' requestURL of
                   Some err \<Rightarrow> Inr (write_failure RcodeServerFailure r w, Inl (BadRequest err))
                 | None \<Rightarrow>
                     let req = \<lparr>reqMethod = ''GET'', reqURL = requestURL, reqHeader =
                           header_set ''Accept'' ''application/json, application/dns-message, application/dns-udpwireformat'' [],
                           reqBody = []\<rparr>
                     in Inr (send_request E (set_agent conf req) u addr (query_udp_size L r) netmask w r)))"

subsection \<open>Google responses\<close>

definition fix_name :: "json_rr \<Rightarrow> json_rr" where
  "fix_name r = (if jrName r = [] then r\<lparr>jrName := ''.''\<rparr> else r)"

definition fixEmptyNames :: "json_response \<Rightarrow> json_response" where
  "fixEmptyNames resp = resp\<lparr>Answer := map fix_name (Answer resp), Authority := map fix_name (Authority resp)\<rparr>"

text \<open>The end of both response parsers: truncate, pack and write.\<close>

definition truncate_size :: "bool \<Rightarrow> client_request \<Rightarrow> int" where
  "truncate_size isTCP req = (if isTCP then MaxMsgSize else uint (crUdpSize req))"

definition write_reply :: "dns_lib \<Rightarrow> bool \<Rightarrow> dns_writer \<Rightarrow> client_request \<Rightarrow> dns_msg \<Rightarrow> dns_writer" where
  "write_reply L isTCP w req fullReply =
     (case Pack L (Truncate L (truncate_size isTCP req) fullReply) of
        Inl err \<Rightarrow> w_WriteMsg ((crReply req)\<lparr>Rcode := RcodeServerFailure\<rparr>) w
      | Inr buf \<Rightarrow> w_WriteBytes buf w)"

text \<open>A response with another status than 200 is read only if it has the expected content type.\<close>

definition unreadable :: "string \<Rightarrow> http_response \<Rightarrow> bool" where
  "unreadable ct resp =
     (let contentType = header_get (respHeader resp) ''Content-Type'' in
      StatusCode resp \<noteq> StatusOK \<and> contentType \<noteq> ct \<and> \<not> HasPrefix contentType (ct @ '';''))"

definition parseResponseGoogle ::
  "dns_lib \<Rightarrow> client_env \<Rightarrow> dns_writer \<Rightarrow> bool \<Rightarrow> client_request \<Rightarrow> dns_writer" where
  "parseResponseGoogle L E w isTCP req =
     (let failure = w_WriteMsg ((crReply req)\<lparr>Rcode := RcodeServerFailure\<rparr>) w;
          req = (if StatusCode (crResponse req) \<noteq> StatusOK
            then req\<lparr>crReply := (crReply req)\<lparr>Rcode := RcodeServerFailure\<rparr>\<rparr> else req) in
      if unreadable ''application/json'' (crResponse req) then failure
      else case respBody (crResponse req) of
        Inl err \<Rightarrow> failure
      | Inr body \<Rightarrow>
          (case ceUnmarshal E body of
             Inl err \<Rightarrow> failure
           | Inr respJSON \<Rightarrow>
               write_reply L isTCP w req
                 (Unmarshal L (ceJson E) (ceNow E) (crReply req) (fixEmptyNames respJSON) (crUdpSize req) (crNetmask req))))"

subsection \<open>IETF requests\<close>

text \<open>The client subnet of the query, added to it if it has none.\<close>

definition ietf_subnet ::
  "dns_lib \<Rightarrow> Config \<Rightarrow> 't iptree \<Rightarrow> client_env \<Rightarrow> dns_writer \<Rightarrow> dns_msg \<Rightarrow> nat \<Rightarrow> go_panic + dns_msg \<times> ip \<times> u8" where
  "ietf_subnet L conf T E w r i =
     (case find_subnet (rr_options (msgExtra r ! i)) of
        Inl p \<Rightarrow> Inl p
      | Inr (Some s) \<Rightarrow> Inr (r, ecsAddress s, SourceNetmask s)
      | Inr None \<Rightarrow>
          (case client_findClientIP L conf T E w r of
             Inl p \<Rightarrow> Inl p
           | Inr (None, netmask) \<Rightarrow> Inr (r, None, netmask)
           | Inr (Some x, _) \<Rightarrow>
               let (family, addr, netmask) = (case To4 x of Some v \<Rightarrow> (1, v, 24) | None \<Rightarrow> (2, x, 56)) in
               Inr (append_option i (EDNS0_SUBNET \<lparr>ecsCode = EDNS0SUBNET, ecsFamily = family,
                      SourceNetmask = netmask, SourceScope = 0, ecsAddress = Some addr\<rparr>) r, Some addr, netmask)))"

definition ietf_url :: "upstream \<Rightarrow> bytes \<Rightarrow> string" where
  "ietf_url u b = URL u @ ''?ct=application/dns-message&dns='' @ EncodeToString b"

definition ietf_request :: "upstream \<Rightarrow> bytes \<Rightarrow> http_request" where
  "ietf_request u b =
     (let accept = header_set ''Accept'' ''application/dns-message, application/dns-udpwireformat, application/json'' in
      if length (ietf_url u b) < 2048
      then \<lparr>reqMethod = ''GET'', reqURL = ietf_url u b, reqHeader = accept [], reqBody = []\<rparr>
      else \<lparr>reqMethod = ''POST'', reqURL = URL u,
             reqHeader = accept (header_set ''Content-Type'' ''application/dns-message'' []), reqBody = b\<rparr>)"

definition generateRequestIETF ::
  "dns_lib \<Rightarrow> Config \<Rightarrow> 't iptree \<Rightarrow> client_env \<Rightarrow> dns_writer \<Rightarrow> dns_msg \<Rightarrow> upstream \<Rightarrow>
   go_panic + dns_writer \<times> dns_msg \<times> (client_error + client_request)" where
  "generateRequestIETF L conf T E w r u =
     (let udpSize = query_udp_size L r; requestID = Id r; (r, i) = ensure_opt L r in
      case ietf_subnet L conf T E w r i of
        Inl p \<Rightarrow> Inl p
      | Inr (r, addr, netmask) \<Rightarrow>
          let r = r\<lparr>Id := 0\<rparr> in
          (case Pack L r of
             Inl err \<Rightarrow> Inr (write_failure RcodeFormatError r w, r, Inl (PackFailed err))
           | Inr requestBinary \<Rightarrow>
               let r = r\<lparr>Id := requestID\<rparr>; req = ietf_request u requestBinary in
               (case ceNewRequest E (reqMethod req) (reqURL req) of
                  Some err \<Rightarrow> Inr (write_failure RcodeServerFailure r w, r, Inl (BadRequest err))
                | None \<Rightarrow>
                    (case send_request E (set_agent conf req) u addr udpSize netmask w r of (w, res) \<Rightarrow> Inr (w, r, res)))))"

subsection \<open>IETF responses\<close>

definition fixRecordTTL :: "int \<Rightarrow> rr \<Rightarrow> rr" where
  "fixRecordTTL delta = map_hdr (\<lambda>h.
     let oldTTL = wrap64 (uint (Ttl h) * Second); newTTL = wrap64 (oldTTL - delta)
     in h\<lparr>Ttl := (if 0 < newTTL then word_of_int (go_quot newTTL Second) else 0)\<rparr>)"

text \<open>A date header, or the given time if the header is missing or cannot be read.\<close>

definition header_date :: "http_header \<Rightarrow> string \<Rightarrow> int \<Rightarrow> int" where
  "header_date h k t =
     (let v = header_get h k in if v \<noteq> [] then (case parse_http v of Some d \<Rightarrow> d | None \<Rightarrow> t) else t)"

definition time_delta :: "http_header \<Rightarrow> int \<Rightarrow> int" where
  "time_delta h now =
     (let now = header_date h ''Date'' now; lastModified = header_date h ''Last-Modified'' now;
          timeDelta = time_Sub now lastModified
      in if timeDelta < 0 then 0 else timeDelta)"

definition fix_message :: "int \<Rightarrow> dns_msg \<Rightarrow> dns_msg" where
  "fix_message delta m = m\<lparr>msgAnswer := map (fixRecordTTL delta) (msgAnswer m),
     msgNs := map (fixRecordTTL delta) (msgNs m),
     msgExtra := map (\<lambda>rr. if Rrtype (rr_hdr rr) = TypeOPT then rr else fixRecordTTL delta rr) (msgExtra m)\<rparr>"

definition parseResponseIETF ::
  "dns_lib \<Rightarrow> client_env \<Rightarrow> dns_writer \<Rightarrow> dns_msg \<Rightarrow> bool \<Rightarrow> client_request \<Rightarrow> dns_writer" where
  "parseResponseIETF L E w r isTCP req =
     (let failure = w_WriteMsg ((crReply req)\<lparr>Rcode := RcodeServerFailure\<rparr>) w in
      if unreadable ''application/dns-message'' (crResponse req) then failure
      else case respBody (crResponse req) of
        Inl err \<Rightarrow> failure
      | Inr body \<Rightarrow>
          (case Unpack L body of
             Inl err \<Rightarrow> failure
           | Inr fullReply \<Rightarrow>
               write_reply L isTCP w req
                 (fix_message (time_delta (respHeader (crResponse req)) (ceNow E)) (fullReply\<lparr>Id := Id r\<rparr>))))"

subsection \<open>Facts\<close>

text \<open>What the library documents about \<open>Truncate\<close>: it only drops records and sets the TC bit.\<close>

definition truncate_ok :: "dns_lib \<Rightarrow> bool" where
  "truncate_ok L \<longleftrightarrow> (\<forall>n m. Id (Truncate L n m) = Id m \<and> msgQuestion (Truncate L n m) = msgQuestion m
     \<and> Response (Truncate L n m) = Response m)"

text \<open>Something written that is a message with the given identifier, as a value or packed.\<close>

definition answer_id :: "dns_lib \<Rightarrow> u16 \<Rightarrow> dns_write \<Rightarrow> bool" where
  "answer_id L i x \<longleftrightarrow> (\<exists>m. Id m = i \<and> (x = WroteMsg m \<or> (\<exists>b. x = WroteBytes b \<and> Pack L m = Inr b)))"

definition wrote_one :: "(dns_write \<Rightarrow> bool) \<Rightarrow> dns_writer \<Rightarrow> dns_writer \<Rightarrow> bool" where
  "wrote_one P w w' \<longleftrightarrow> (\<exists>x. P x \<and> w' = w\<lparr>written := written w @ [x]\<rparr>)"

lemma wrote_one_Msg: "P (WroteMsg m) \<Longrightarrow> wrote_one P w (w_WriteMsg m w)"
  by (auto simp: wrote_one_def w_WriteMsg_def)

lemma wrote_one_Bytes: "P (WroteBytes b) \<Longrightarrow> wrote_one P w (w_WriteBytes b w)"
  by (auto simp: wrote_one_def w_WriteBytes_def)

lemma answer_id_Msg: "Id m = i \<Longrightarrow> answer_id L i (WroteMsg m)"
  by (auto simp: answer_id_def)

lemma answer_id_Bytes: "Pack L m = Inr b \<Longrightarrow> Id m = i \<Longrightarrow> answer_id L i (WroteBytes b)"
  by (auto simp: answer_id_def)

lemma PrepareReply_simps [simp]:
  "Id (PrepareReply r) = Id r" "msgQuestion (PrepareReply r) = msgQuestion r" "Response (PrepareReply r)"
  by (simp_all add: PrepareReply_def)

lemma write_failure_one: "wrote_one (answer_id L (Id r)) w (write_failure rcode r w)"
  by (simp add: write_failure_def wrote_one_Msg answer_id_Msg)

lemma write_reply_one:
  assumes "truncate_ok L" "Id m = i" "Id (crReply req) = i"
  shows "wrote_one (answer_id L i) w (write_reply L isTCP w req m)"
proof (cases "Pack L (Truncate L (truncate_size isTCP req) m)")
  case (Inl err)
  then show ?thesis using assms(3) by (simp add: write_reply_def wrote_one_Msg answer_id_Msg)
next
  case (Inr b)
  moreover have "Id (Truncate L (truncate_size isTCP req) m) = i" using assms(1,2) by (simp add: truncate_ok_def)
  ultimately show ?thesis by (simp add: write_reply_def wrote_one_Bytes answer_id_Bytes)
qed

lemma parseResponseGoogle_one:
  assumes "truncate_ok L" "Id (crReply req) = i"
  shows "wrote_one (answer_id L i) w (parseResponseGoogle L E w isTCP req)"
  using assms write_reply_one [OF assms(1)]
  by (auto simp: parseResponseGoogle_def Let_def wrote_one_Msg answer_id_Msg split: sum.split)

lemma parseResponseIETF_one:
  assumes "truncate_ok L" "Id (crReply req) = Id r"
  shows "wrote_one (answer_id L (Id r)) w (parseResponseIETF L E w r isTCP req)"
  using assms write_reply_one [OF assms(1)]
  by (auto simp: parseResponseIETF_def fix_message_def Let_def wrote_one_Msg answer_id_Msg split: sum.split)

text \<open>
  What \<open>handlerFunc\<close> expects of the two response parsers: to a query whose prepared reply has its
  identifier, exactly one answer with that identifier, whatever the response is.
\<close>

locale response_parser =
  fixes L :: dns_lib
    and parse :: "client_env \<Rightarrow> dns_writer \<Rightarrow> dns_msg \<Rightarrow> bool \<Rightarrow> client_request \<Rightarrow> dns_writer"
  assumes writes_one: "truncate_ok L \<Longrightarrow> Id (crReply req) = Id r \<Longrightarrow> wrote_one (answer_id L (Id r)) w (parse E w r isTCP req)"
begin

lemma answers_once:
  assumes "truncate_ok L" "Id (crReply req) = Id r"
  obtains x where "answer_id L (Id r) x" "written (parse E w r isTCP req) = written w @ [x]"
    "RemoteAddr (parse E w r isTCP req) = RemoteAddr w"
  using writes_one [OF assms, of w E isTCP] by (auto simp: wrote_one_def)

end

interpretation google_parser: response_parser L "\<lambda>E w r isTCP req. parseResponseGoogle L E w isTCP req" for L
  by unfold_locales (rule parseResponseGoogle_one)

interpretation ietf_parser: response_parser L "parseResponseIETF L" for L
  by unfold_locales (rule parseResponseIETF_one)

lemma client_findClientIP_total:
  assumes "dns_lib_ok L" "wf_msg r"
  shows "\<exists>x. client_findClientIP L conf T E w r = Inr x"
proof -
  have "\<exists>x. (case IsEdns0 L r of None \<Rightarrow> Inr None | Some i \<Rightarrow> find_subnet (rr_options (msgExtra r ! i))) = Inr x"
  proof (cases "IsEdns0 L r")
    case (Some i)
    have "list_all wf_rr (msgExtra r)" using assms(2) by (simp add: wf_msg_def)
    then obtain h os where "msgExtra r ! i = OPT h os" "list_all wf_option os"
      using IsEdns0_SomeD [OF assms(1) Some] by blast
    then show ?thesis using Some find_subnet_total by simp
  qed simp
  then show ?thesis by (auto simp: client_findClientIP_def split: option.splits sum.split)
qed

text \<open>
  The outcome of the two generators: with an error they have written exactly one reply, otherwise
  nothing, and the request they return prepares a reply with the identifier of the query.
\<close>

definition generated :: "dns_lib \<Rightarrow> u16 \<Rightarrow> dns_writer \<Rightarrow> dns_writer \<Rightarrow> client_error + client_request \<Rightarrow> bool" where
  "generated L i w w' res \<longleftrightarrow> (case res of
       Inl err \<Rightarrow> wrote_one (answer_id L i) w w'
     | Inr req \<Rightarrow> w' = w \<and> Id (crReply req) = i)"

lemma send_request_generated:
  "send_request E q u addr n k w r = (w', res) \<Longrightarrow> generated L (Id r) w w' res"
  by (auto simp: send_request_def generated_def write_failure_one split: sum.splits)

lemma generateRequestGoogle_generated:
  assumes "dns_lib_ok L" "wf_msg r" "msgQuestion r \<noteq> []"
  shows "\<exists>w' res. generateRequestGoogle L conf T E w r u = Inr (w', res) \<and> generated L (Id r) w w' res"
proof -
  obtain addr k where f: "client_findClientIP L conf T E w r = Inr (addr, k)"
    using client_findClientIP_total [OF assms(1,2)] by fastforce
  obtain q qs where q: "msgQuestion r = q # qs" using assms(3) by (cases "msgQuestion r") auto
  show ?thesis using send_request_generated [of E _ u addr _ k w r _ _ L]
    by (auto simp: generateRequestGoogle_def q f Let_def generated_def write_failure_one split: option.split prod.split)
      (metis surj_pair)
qed

lemma ietf_subnet_total:
  assumes "dns_lib_ok L" "wf_msg r" "ensure_opt L r = (r', i)"
  shows "\<exists>r2 addr k. ietf_subnet L conf T E w r' i = Inr (r2, addr, k) \<and> msgQuestion r2 = msgQuestion r"
proof -
  obtain h os where o: "msgExtra r' ! i = OPT h os" "list_all wf_option os" "wf_msg r'"
    by (rule ensure_opt_facts [OF assms])
  have "msgQuestion r' = msgQuestion r" using assms(3) by (auto simp: ensure_opt_def split: option.splits)
  moreover have "msgQuestion (append_option i op m) = msgQuestion m" for op m by (simp add: append_option_def)
  moreover
  obtain s where "find_subnet os = Inr s" using find_subnet_total [OF o(2)] by blast
  ultimately show ?thesis using o(1) client_findClientIP_total [OF assms(1) o(3), of conf T E w]
    by (auto simp: ietf_subnet_def Let_def split: option.splits prod.splits)
qed

lemma generateRequestIETF_generated:
  assumes "dns_lib_ok L" "wf_msg r"
  shows "\<exists>w' r' res. generateRequestIETF L conf T E w r u = Inr (w', r', res)
    \<and> (case res of Inl (PackFailed err) \<Rightarrow> Id r' = 0 \<and> msgQuestion r' = msgQuestion r \<and> Pack L r' = Inl err
           \<and> wrote_one (answer_id L 0) w w'
       | _ \<Rightarrow> Id r' = Id r \<and> generated L (Id r) w w' res)"
proof -
  obtain r1 i where e: "ensure_opt L r = (r1, i)" by fastforce
  obtain r2 addr k where s: "ietf_subnet L conf T E w r1 i = Inr (r2, addr, k)" "msgQuestion r2 = msgQuestion r"
    using ietf_subnet_total [OF assms e] by blast
  show ?thesis
  proof (cases "Pack L (r2\<lparr>Id := 0\<rparr>)")
    case (Inl err)
    then show ?thesis using write_failure_one [of L "r2\<lparr>Id := 0\<rparr>" w RcodeFormatError]
      by (simp add: generateRequestIETF_def e s Let_def)
  next
    case (Inr b)
    let ?r = "r2\<lparr>Id := Id r\<rparr>" and ?q = "ietf_request u b"
    show ?thesis
    proof (cases "ceNewRequest E (reqMethod ?q) (reqURL ?q)")
      case (Some err)
      then show ?thesis using Inr write_failure_one [of L ?r w RcodeServerFailure]
        by (simp add: generateRequestIETF_def e s Let_def generated_def)
    next
      case None
      obtain w' res where "send_request E (set_agent conf ?q) u addr (query_udp_size L r) k w ?r = (w', res)" by fastforce
      then show ?thesis using Inr None send_request_generated [of E "set_agent conf ?q" u addr "query_udp_size L r" k w ?r w' res L]
        by (auto simp: generateRequestIETF_def e s Let_def send_request_def split: sum.splits client_error.splits)
    qed
  qed
qed

subsection \<open>Ageing of records\<close>

text \<open>A record that has been kept for \<open>delta\<close> nanoseconds: only its TTL differs, and it is the whole
  seconds that are left.\<close>

definition aged_record :: "int \<Rightarrow> rr \<Rightarrow> rr \<Rightarrow> bool" where
  "aged_record delta a b \<longleftrightarrow> (\<exists>t. b = map_hdr (\<lambda>h. h\<lparr>Ttl := t\<rparr>) a
     \<and> uint t = max 0 ((uint (Ttl (rr_hdr a)) * Second - delta) div Second) \<and> t \<le> Ttl (rr_hdr a))"

lemma map_hdr_cong: "f (rr_hdr a) = g (rr_hdr a) \<Longrightarrow> map_hdr f a = map_hdr g a"
  by (cases a) auto

lemma go_quot_second: "0 < x \<Longrightarrow> go_quot x Second = x div Second"
  by (simp add: Second_def)

lemma fixRecordTTL_aged:
  assumes "0 \<le> delta" "delta \<le> 9223372036854775807"
  shows "aged_record delta a (fixRecordTTL delta a)"
proof -
  let ?o = "uint (Ttl (rr_hdr a)) * Second"
  have ttl: "0 \<le> uint (Ttl (rr_hdr a))" "uint (Ttl (rr_hdr a)) < 4294967296"
    using uint_bounded [of "Ttl (rr_hdr a)"] by simp_all
  then have "-9223372036854775808 \<le> ?o - delta" "-9223372036854775808 \<le> ?o" "?o < 9223372036854775808" "?o - delta < 9223372036854775808"
    using assms unfolding Second_def by linarith+
  then have w: "wrap64 ?o = ?o" "wrap64 (?o - delta) = ?o - delta" by (simp_all only: wrap64_id)
  define t :: u32 where "t = (if 0 < ?o - delta then word_of_int ((?o - delta) div Second) else 0)"
  have f: "fixRecordTTL delta a = map_hdr (\<lambda>h. h\<lparr>Ttl := t\<rparr>) a"
    unfolding fixRecordTTL_def by (rule map_hdr_cong) (simp add: w t_def Let_def go_quot_second)
  have q: "(?o - delta) div Second \<le> uint (Ttl (rr_hdr a))" using assms(1) by (simp add: Second_def)
  have u: "uint t = max 0 ((?o - delta) div Second)"
  proof (cases "0 < ?o - delta")
    case True
    then have "0 \<le> (?o - delta) div Second" by (simp add: Second_def pos_imp_zdiv_nonneg_iff)
    then show ?thesis using True q ttl by (simp add: t_def uint_word_of_int_eq take_bit_int_eq_self)
  next
    case False
    then have "(?o - delta) div Second \<le> 0" unfolding Second_def by linarith
    then show ?thesis using False by (simp add: t_def)
  qed
  moreover have "t \<le> Ttl (rr_hdr a)" using u q ttl by (simp add: word_le_def)
  ultimately show ?thesis unfolding aged_record_def f by blast
qed

lemma time_delta_range: "0 \<le> time_delta h now" "time_delta h now \<le> 9223372036854775807"
  by (auto simp: time_delta_def Let_def time_Sub_def clamp64_def max_def min_def)

subsection \<open>Properties\<close>


definition sample_client_env :: client_env where
  "sample_client_env = \<lparr>ceNow = 0, ceToASCII = (\<lambda>s. (s, None)), ceLower = id, ceResolveUDP = (\<lambda>_. Inl ''no such host''),
     ceNewRequest = (\<lambda>_ _. None), ceDo = (\<lambda>_. Inl (''timeout'', True)), ceExchange = (\<lambda>_ _ _. Inl ''refused''),
     ceUnmarshal = (\<lambda>_. Inl ''bad''), ceJson = sample_env\<rparr>"

definition sample_client_request :: "http_response \<Rightarrow> client_request" where
  "sample_client_request resp = \<lparr>crResponse = resp, crReply = new_msg, crUpstream = ''https://a/dns-query'',
     crAddress = None, crUdpSize = 512, crNetmask = 255\<rparr>"

definition ageing_lib :: dns_lib where
  "ageing_lib = sample_lib\<lparr>Unpack := (\<lambda>b. Inr (new_msg\<lparr>msgAnswer := [sample_rr 300]\<rparr>))\<rparr>"




text \<open>With client subnets disabled a binary request still carries one: a query without a
  subnet option gets the option 0.0.0.0 with prefix length 24, where \<open>findClientIP\<close> asks for 0, and a
  query that has a subnet option is sent on with it.\<close>

theorem no_ecs_binary_request:
  assumes "NoECS (Other conf)" "find_subnet (rr_options (msgExtra r ! i)) = Inr s"
  shows "client_findClientIP L conf T E w r = Inr (Some (IPv4 0 0 0 0), 0) \<and>
    ietf_subnet L conf T E w r i = (case s of
      Some s \<Rightarrow> Inr (r, ecsAddress s, SourceNetmask s)
    | None \<Rightarrow> Inr (append_option i (EDNS0_SUBNET \<lparr>ecsCode = EDNS0SUBNET, ecsFamily = 1, SourceNetmask = 24,
        SourceScope = 0, ecsAddress = Some [0, 0, 0, 0]\<rparr>) r, Some [0, 0, 0, 0], 24))"
proof -
  have "To4 (IPv4 0 0 0 0) = Some [0, 0, 0, 0]" by (simp add: IPv4_def)
  then show ?thesis using assms by (simp add: ietf_subnet_def client_findClientIP_def split: option.split)
qed

theorem no_ecs_binary_request_witness:
  "client_findClientIP sample_lib (empty_client_config\<lparr>Other := (Other empty_client_config)\<lparr>NoECS := True\<rparr>\<rparr>) list_tree
     sample_client_env \<lparr>RemoteAddr = [], written = []\<rparr> (new_msg\<lparr>msgExtra := [OPT new_header []]\<rparr>) = Inr (Some (IPv4 0 0 0 0), 0)"
  using no_ecs_binary_request [where conf = "empty_client_config\<lparr>Other := (Other empty_client_config)\<lparr>NoECS := True\<rparr>\<rparr>"
      and r = "new_msg\<lparr>msgExtra := [OPT new_header []]\<rparr>" and i = 0 and s = None and L = sample_lib and T = list_tree
      and E = sample_client_env and w = "\<lparr>RemoteAddr = [], written = []\<rparr>"]
  by simp

text \<open>When the query cannot be packed the client answers with a format error whose
  identifier is 0 instead of the identifier of the query, because that was cleared before packing.\<close>

theorem unpackable_query_reply:
  assumes "dns_lib_ok L" "wf_msg r" "\<forall>m. msgQuestion m = msgQuestion r \<longrightarrow> (\<exists>err. Pack L m = Inl err)"
  shows "\<exists>m r' err. generateRequestIETF L conf T E w r u = Inr (w_WriteMsg m w, r', Inl (PackFailed err))
    \<and> Id m = 0 \<and> Rcode m = RcodeFormatError \<and> msgQuestion m = msgQuestion r \<and> Response m"
proof -
  obtain r1 i where e: "ensure_opt L r = (r1, i)" by fastforce
  obtain r2 addr k where s: "ietf_subnet L conf T E w r1 i = Inr (r2, addr, k)" "msgQuestion r2 = msgQuestion r"
    using ietf_subnet_total [OF assms(1,2) e] by blast
  moreover obtain err where "Pack L (r2\<lparr>Id := 0\<rparr>) = Inl err" using assms(3) s(2) by fastforce
  ultimately have "generateRequestIETF L conf T E w r u = Inr (w_WriteMsg ((PrepareReply (r2\<lparr>Id := 0\<rparr>))\<lparr>Rcode := RcodeFormatError\<rparr>) w,
      r2\<lparr>Id := 0\<rparr>, Inl (PackFailed err))"
    by (simp add: generateRequestIETF_def e Let_def write_failure_def)
  then show ?thesis using s(2) by fastforce
qed

theorem unpackable_query_reply_witness:
  "\<exists>m r' err. generateRequestIETF (sample_lib\<lparr>Pack := (\<lambda>_. Inl ''bad name'')\<rparr>) empty_client_config list_tree sample_client_env
      \<lparr>RemoteAddr = [], written = []\<rparr> (new_msg\<lparr>Id := 7\<rparr>)
      \<lparr>uType = IETF, URL = ''https://a'', RequestType = [], weight = 1, effectiveWeight = 1, currentWeight = 0\<rparr>
     = Inr (w_WriteMsg m \<lparr>RemoteAddr = [], written = []\<rparr>, r', Inl (PackFailed err)) \<and> Id m = 0"
proof -
  have "dns_lib_ok (sample_lib\<lparr>Pack := (\<lambda>_. Inl ''bad name'')\<rparr>)" using sample_lib_ok by (simp add: dns_lib_ok_def)
  then show ?thesis
    using unpackable_query_reply [of "sample_lib\<lparr>Pack := (\<lambda>_. Inl ''bad name'')\<rparr>" "new_msg\<lparr>Id := 7\<rparr>" empty_client_config list_tree]
    by (fastforce simp: wf_msg_def new_msg_def)
qed

end
