(* ===== verification/Selector_Interface.thy ===== *)
theory Selector_Interface
  imports Upstream
begin

section \<open>The Selector interface\<close>

text \<open>
  \<open>doh-client/selector/selector.go\<close> declares the interface the client works against: \<open>Get\<close>,
  \<open>StartEvaluate\<close> and \<open>ReportUpstreamStatus\<close>.  The locale states it with the laws the client
  relies on: from a state that satisfies the provider's invariant \<open>Get\<close> returns (it neither loops
  nor panics) an upstream of the selector, and no operation changes which upstreams there are or
  leaves the invariant.  A pointer to an upstream is its position in the selector's slice; the
  outcome of \<open>Get\<close> is \<open>None\<close> when its loop does not end and \<open>Inl\<close> when it panics; \<open>r\<close> is the draw
  a randomised \<open>Get\<close> makes.
\<close>

locale selector =
  fixes get :: "nat \<Rightarrow> 's \<Rightarrow> (go_panic + 's \<times> nat) option"
    and report :: "nat \<Rightarrow> upstreamStatus \<Rightarrow> 's \<Rightarrow> 's"
    and evaluate :: "probe_env \<Rightarrow> nat list \<Rightarrow> 's \<Rightarrow> go_panic + 's"
    and upstreams_of :: "'s \<Rightarrow> upstream list"
    and invar :: "'s \<Rightarrow> bool"
  assumes get_returns: "invar s \<Longrightarrow> \<exists>s' i. get r s = Some (Inr (s', i))"
    and get_range: "invar s \<Longrightarrow> get r s = Some (Inr (s', i)) \<Longrightarrow> i < length (upstreams_of s)"
    and get_invar: "invar s \<Longrightarrow> get r s = Some (Inr (s', i)) \<Longrightarrow> invar s'"
    and get_ids: "invar s \<Longrightarrow> get r s = Some (Inr (s', i)) \<Longrightarrow>
      map upstream_id (upstreams_of s') = map upstream_id (upstreams_of s)"
    and report_invar: "invar s \<Longrightarrow> i < length (upstreams_of s) \<Longrightarrow> invar (report i st s)"
    and report_ids: "map upstream_id (upstreams_of (report i st s)) = map upstream_id (upstreams_of s)"
    and evaluate_invar: "invar s \<Longrightarrow> set ord \<subseteq> {..<length (upstreams_of s)} \<Longrightarrow>
      evaluate e ord s = Inr s' \<Longrightarrow> invar s'"
    and evaluate_ids: "invar s \<Longrightarrow> set ord \<subseteq> {..<length (upstreams_of s)} \<Longrightarrow>
      evaluate e ord s = Inr s' \<Longrightarrow>
      map upstream_id (upstreams_of s') = map upstream_id (upstreams_of s)"

text \<open>
  The protocol of the client: for every query one \<open>Get\<close>, then at most one report about the chosen
  upstream.  \<open>serve\<close> runs it over a list of queries (the draw and the status to report, if any) and
  collects the positions chosen.
\<close>

fun serve ::
  "(nat \<Rightarrow> 's \<Rightarrow> (go_panic + 's \<times> nat) option) \<Rightarrow> (nat \<Rightarrow> upstreamStatus \<Rightarrow> 's \<Rightarrow> 's) \<Rightarrow>
   (nat \<times> upstreamStatus option) list \<Rightarrow> 's \<Rightarrow> (go_panic + 's \<times> nat list) option" where
  "serve get report [] s = Some (Inr (s, []))"
| "serve get report ((r, st) # qs) s =
     (case get r s of
        None \<Rightarrow> None
      | Some (Inl p) \<Rightarrow> Some (Inl p)
      | Some (Inr (s', i)) \<Rightarrow>
          (case serve get report qs (case st of None \<Rightarrow> s' | Some x \<Rightarrow> report i x s') of
             None \<Rightarrow> None
           | Some (Inl p) \<Rightarrow> Some (Inl p)
           | Some (Inr (s'', is)) \<Rightarrow> Some (Inr (s'', i # is))))"

context selector
begin

lemma get_cases:
  assumes "invar s"
  obtains s' i where "get r s = Some (Inr (s', i))" "i < length (upstreams_of s)" "invar s'"
    "map upstream_id (upstreams_of s') = map upstream_id (upstreams_of s)"
  using get_returns [OF assms] get_range [OF assms] get_invar [OF assms] get_ids [OF assms] by blast

lemma step_invar:
  assumes "invar s" "get r s = Some (Inr (s', i))"
  shows "invar (case st of None \<Rightarrow> s' | Some x \<Rightarrow> report i x s')"
    "map upstream_id (upstreams_of (case st of None \<Rightarrow> s' | Some x \<Rightarrow> report i x s')) =
     map upstream_id (upstreams_of s)"
proof -
  have ids: "map upstream_id (upstreams_of s') = map upstream_id (upstreams_of s)"
    by (rule get_ids [OF assms])
  have "length (upstreams_of s') = length (upstreams_of s)"
    using ids map_eq_imp_length_eq by blast
  then have "i < length (upstreams_of s')" using get_range [OF assms] by simp
  then show "invar (case st of None \<Rightarrow> s' | Some x \<Rightarrow> report i x s')"
    using get_invar [OF assms] report_invar by (cases st) auto
  show "map upstream_id (upstreams_of (case st of None \<Rightarrow> s' | Some x \<Rightarrow> report i x s')) =
     map upstream_id (upstreams_of s)"
    using ids report_ids by (cases st) auto
qed

lemma serve_total:
  "invar s \<Longrightarrow> \<exists>s' is. serve get report qs s = Some (Inr (s', is)) \<and> length is = length qs
     \<and> set is \<subseteq> {..<length (upstreams_of s)} \<and> invar s'
     \<and> map upstream_id (upstreams_of s') = map upstream_id (upstreams_of s)"
proof (induction qs arbitrary: s)
  case Nil
  then show ?case by simp
next
  case (Cons q qs)
  obtain r st where q: "q = (r, st)" by (cases q)
  obtain s1 i where g: "get r s = Some (Inr (s1, i))" and i: "i < length (upstreams_of s)"
    using get_cases [OF Cons.prems] by blast
  let ?s2 = "case st of None \<Rightarrow> s1 | Some x \<Rightarrow> report i x s1"
  note inv2 = step_invar [OF Cons.prems g, of st]
  have len: "length (upstreams_of ?s2) = length (upstreams_of s)"
    using inv2(2) map_eq_imp_length_eq by blast
  obtain s' js where "serve get report qs ?s2 = Some (Inr (s', js))" "length js = length qs"
    "set js \<subseteq> {..<length (upstreams_of ?s2)}" "invar s'"
    "map upstream_id (upstreams_of s') = map upstream_id (upstreams_of ?s2)"
    using Cons.IH [OF inv2(1)] by blast
  then show ?case using q g i len inv2(2) by auto
qed

end

end
