(* ===== verification/Random_Selector.thy ===== *)
theory Random_Selector
  imports Selector_Interface
begin

section \<open>The random selector\<close>

text \<open>
  \<open>doh-client/selector/randomSelector.go\<close>.  The random number a call of \<open>Get\<close> draws is an argument.
\<close>

record RandomSelector =
  rsUpstreams :: "upstream list"

definition NewRandomSelector :: RandomSelector where
  "NewRandomSelector = \<lparr>rsUpstreams = []\<rparr>"

definition random_Add :: "string \<Rightarrow> UpstreamType \<Rightarrow> RandomSelector \<Rightarrow> string + RandomSelector" where
  "random_Add url t rs = (case t of
       Google \<Rightarrow> Inr (rs\<lparr>rsUpstreams := rsUpstreams rs @
         [\<lparr>uType = Google, URL = url, RequestType = ''application/dns-json'',
           weight = 0, effectiveWeight = 0, currentWeight = 0\<rparr>]\<rparr>)
     | IETF \<Rightarrow> Inr (rs\<lparr>rsUpstreams := rsUpstreams rs @
         [\<lparr>uType = IETF, URL = url, RequestType = ''application/dns-message'',
           weight = 0, effectiveWeight = 0, currentWeight = 0\<rparr>]\<rparr>)
     | OtherType _ \<Rightarrow> Inl ''unknown upstream type'')"

definition random_Get :: "nat \<Rightarrow> RandomSelector \<Rightarrow> go_panic + RandomSelector \<times> nat" where
  "random_Get r rs = (case rand_Intn r (length (rsUpstreams rs)) of
       Inl p \<Rightarrow> Inl p
     | Inr i \<Rightarrow> Inr (rs, i))"

definition random_StartEvaluate :: "probe_env \<Rightarrow> nat list \<Rightarrow> RandomSelector \<Rightarrow> go_panic + RandomSelector" where
  "random_StartEvaluate e ord rs = Inr rs"

definition random_ReportUpstreamStatus :: "nat \<Rightarrow> upstreamStatus \<Rightarrow> RandomSelector \<Rightarrow> RandomSelector" where
  "random_ReportUpstreamStatus i st rs = rs"

definition random_inv :: "RandomSelector \<Rightarrow> bool" where
  "random_inv rs \<longleftrightarrow> rsUpstreams rs \<noteq> []"

lemma random_Get_eq: "random_inv rs \<Longrightarrow> random_Get r rs = Inr (rs, r mod length (rsUpstreams rs))"
  by (simp add: random_Get_def rand_Intn_def random_inv_def)

interpretation random: selector "\<lambda>r s. Some (random_Get r s)" random_ReportUpstreamStatus
  random_StartEvaluate rsUpstreams random_inv
  by unfold_locales
    (auto simp: random_Get_eq random_ReportUpstreamStatus_def random_StartEvaluate_def random_inv_def)

end
