(* ===== verification/Nginx_WRR.thy ===== *)
theory Nginx_WRR
  imports Selector_Interface
begin

section \<open>The smooth weighted round robin selector\<close>

text \<open>
  \<open>doh-client/selector/nginxWRRSelector.go\<close>: the operations of \<open>NginxWRRSelector\<close>.  \<open>Get\<close> adds
  every effective weight to the upstream's current weight, chooses the first upstream whose current
  weight is largest and takes the total off it.  The index \<open>-1\<close> of the source is \<open>None\<close>.  The
  lemmas show that \<open>Get\<close> returns the first maximum, that the current weights always sum to zero and
  stay in range, and that over a period every upstream is chosen as often as its weight says.
\<close>

record NginxWRRSelector =
  nwUpstreams :: "upstream list"
  nwTimeout :: int

definition NewNginxWRRSelector :: "int \<Rightarrow> NginxWRRSelector" where
  "NewNginxWRRSelector t = \<lparr>nwUpstreams = [], nwTimeout = t\<rparr>"

definition nginx_Add :: "string \<Rightarrow> UpstreamType \<Rightarrow> int \<Rightarrow> NginxWRRSelector \<Rightarrow> string + NginxWRRSelector" where
  "nginx_Add url t w ws = (case t of
       Google \<Rightarrow> Inr (ws\<lparr>nwUpstreams := nwUpstreams ws @
         [\<lparr>uType = Google, URL = url, RequestType = ''application/dns-json'',
           weight = w, effectiveWeight = w, currentWeight = 0\<rparr>]\<rparr>)
     | IETF \<Rightarrow> Inr (ws\<lparr>nwUpstreams := nwUpstreams ws @
         [\<lparr>uType = IETF, URL = url, RequestType = ''application/dns-message'',
           weight = w, effectiveWeight = w, currentWeight = 0\<rparr>]\<rparr>)
     | OtherType _ \<Rightarrow> Inl ''unknown upstream type'')"

subsection \<open>Get\<close>

definition bump :: "upstream \<Rightarrow> upstream" where
  "bump u = u\<lparr>currentWeight := wrap32 (currentWeight u + effectiveWeight u)\<rparr>"

fun nginx_scan :: "nat list \<Rightarrow> upstream list \<Rightarrow> int \<Rightarrow> nat option \<Rightarrow> upstream list \<times> int \<times> nat option" where
  "nginx_scan [] us tot best = (us, tot, best)"
| "nginx_scan (i # is) us tot best =
     (let e = effectiveWeight (us ! i);
          us' = us[i := bump (us ! i)];
          tot' = wrap32 (tot + e);
          best' = (case best of
              None \<Rightarrow> Some i
            | Some b \<Rightarrow> if currentWeight (us' ! i) > currentWeight (us' ! b) then Some i else Some b)
      in nginx_scan is us' tot' best')"

definition nginx_Get :: "NginxWRRSelector \<Rightarrow> go_panic + NginxWRRSelector \<times> nat" where
  "nginx_Get ws =
     (case nginx_scan [0..<length (nwUpstreams ws)] (nwUpstreams ws) 0 None of
        (us, tot, None) \<Rightarrow> Inl IndexOutOfRange
      | (us, tot, Some b) \<Rightarrow>
          Inr (ws\<lparr>nwUpstreams :=
            us[b := (us ! b)\<lparr>currentWeight := wrap32 (currentWeight (us ! b) - tot)\<rparr>]\<rparr>, b))"

subsection \<open>Reports and probes\<close>

definition nginx_status :: "upstreamStatus \<Rightarrow> upstream \<Rightarrow> upstream" where
  "nginx_status st u = (case st of
       Timeout \<Rightarrow> lower_weight 5 u
     | Error \<Rightarrow> lower_weight 3 u
     | OK \<Rightarrow> raise_weight 1 u
     | OtherStatus _ \<Rightarrow> u)"

definition nginx_ReportUpstreamStatus :: "nat \<Rightarrow> upstreamStatus \<Rightarrow> NginxWRRSelector \<Rightarrow> NginxWRRSelector" where
  "nginx_ReportUpstreamStatus i st ws =
     ws\<lparr>nwUpstreams := (nwUpstreams ws)[i := nginx_status st (nwUpstreams ws ! i)]\<rparr>"

definition nginx_checkGoogleResponse ::
  "(bytes \<Rightarrow> string + (string \<rightharpoonup> json_value)) \<Rightarrow> http_response \<Rightarrow> upstream \<Rightarrow> upstream" where
  "nginx_checkGoogleResponse dec resp u =
     (if StatusCode resp \<noteq> StatusOK then lower_weight 3 u
      else case (case respBody resp of Inl e \<Rightarrow> Inl e | Inr b \<Rightarrow> dec b) of
        Inl e \<Rightarrow> lower_weight 2 u
      | Inr m \<Rightarrow> (case m ''Status'' of
            Some (JNumber x) \<Rightarrow> if x = 0 then raise_weight 5 u else lower_weight 2 u
          | _ \<Rightarrow> lower_weight 2 u))"

definition nginx_checkIETFResponse :: "http_response \<Rightarrow> upstream \<Rightarrow> upstream" where
  "nginx_checkIETFResponse resp u =
     (if StatusCode resp \<noteq> StatusOK then lower_weight 5 u else raise_weight 5 u)"

definition nginx_probe :: "probe_env \<Rightarrow> upstream \<Rightarrow> go_panic + upstream" where
  "nginx_probe env u =
     (case probeNewRequest env (probe_url u) of
        Some err \<Rightarrow> Inl (ExplicitPanic (''upstream: '' @ probe_url u @ '' type: '' @
          typeMap (uType u) @ '' check failed: '' @ err))
      | None \<Rightarrow> (case probeDo env (probe_url u) (probe_accept u) of
            Inl err \<Rightarrow> Inr (lower_weight 10 u)
          | Inr resp \<Rightarrow> Inr (case uType u of
                Google \<Rightarrow> nginx_checkGoogleResponse (probeDecode env) resp u
              | IETF \<Rightarrow> nginx_checkIETFResponse resp u
              | OtherType _ \<Rightarrow> u)))"

definition nginx_StartEvaluate :: "probe_env \<Rightarrow> nat list \<Rightarrow> NginxWRRSelector \<Rightarrow> go_panic + NginxWRRSelector" where
  "nginx_StartEvaluate env ord ws =
     (case evaluate_round (nginx_probe env) ord (nwUpstreams ws) of
        Inl p \<Rightarrow> Inl p
      | Inr us \<Rightarrow> Inr (ws\<lparr>nwUpstreams := us\<rparr>))"

text \<open>The endless loop of the evaluation goroutine, for as many rounds as the list has entries.\<close>

fun nginx_rounds :: "(probe_env \<times> nat list) list \<Rightarrow> NginxWRRSelector \<Rightarrow> go_panic + NginxWRRSelector" where
  "nginx_rounds [] ws = Inr ws"
| "nginx_rounds ((env, ord) # rs) ws =
     (case nginx_StartEvaluate env ord ws of
        Inl p \<Rightarrow> Inl p
      | Inr ws' \<Rightarrow> nginx_rounds rs ws')"

text \<open>A round of \<open>ReportWeights\<close>: the lines it logs.\<close>

definition nginx_ReportWeights :: "NginxWRRSelector \<Rightarrow> string list" where
  "nginx_ReportWeights ws = map weight_line (nwUpstreams ws)"

lemma adjusted_nginx_status: "adjusted u (nginx_status st u)"
  by (cases st) (auto simp: nginx_status_def)

lemma adjusted_nginx_probe: "nginx_probe env u = Inr v \<Longrightarrow> adjusted u v"
  by (auto simp: nginx_probe_def nginx_checkGoogleResponse_def nginx_checkIETFResponse_def
      split: option.splits sum.splits UpstreamType.splits json_value.splits if_splits)

subsection \<open>What the loop of Get computes\<close>

lemma bump_simps [simp]:
  "effectiveWeight (bump u) = effectiveWeight u" "upstream_id (bump u) = upstream_id u"
  "weight (bump u) = weight u"
  "currentWeight (bump u) = wrap32 (currentWeight u + effectiveWeight u)"
  by (simp_all add: bump_def upstream_id_def)

lemma bump_step:
  assumes "k < length us"
  shows "take (Suc k) (us[k := bump (us ! k)]) @ map bump (drop (Suc k) (us[k := bump (us ! k)]))
    = take k us @ map bump (drop k us)"
  using assms by (simp add: take_Suc_conv_app_nth Cons_nth_drop_Suc [symmetric])

lemma nginx_scan_upstreams:
  "fst (nginx_scan [k..<length us] us tot best) = take k us @ map bump (drop k us)"
proof (induction "length us - k" arbitrary: k us tot best)
  case 0
  then show ?case by simp
next
  case (Suc m)
  then have k: "k < length us" by simp
  have "fst (nginx_scan [Suc k..<length us] (us[k := bump (us ! k)]) t b)
      = take k us @ map bump (drop k us)" for t b
    using Suc.hyps(1) [of "us[k := bump (us ! k)]" "Suc k" t b] Suc.hyps(2) k bump_step [OF k]
    by simp
  then show ?case using k by (simp add: Let_def upt_conv_Cons)
qed

lemma nginx_scan_total:
  "distinct is \<Longrightarrow> set is \<subseteq> {..<length us} \<Longrightarrow>
   fst (snd (nginx_scan is us (wrap32 tot) best)) = wrap32 (tot + (\<Sum>i\<leftarrow>is. effectiveWeight (us ! i)))"
proof (induction "is" arbitrary: us tot best)
  case Nil
  then show ?case by simp
next
  case (Cons i "is")
  have "map (\<lambda>j. effectiveWeight (us[i := bump (us ! i)] ! j)) is = map (\<lambda>j. effectiveWeight (us ! j)) is"
    using Cons.prems by (auto simp: nth_list_update)
  then have "(\<Sum>j\<leftarrow>is. effectiveWeight (us[i := bump (us ! i)] ! j)) = (\<Sum>j\<leftarrow>is. effectiveWeight (us ! j))"
    by (rule arg_cong)
  then show ?case
    using Cons.IH [of "us[i := bump (us ! i)]"] Cons.prems by (simp add: Let_def add.assoc)
qed

text \<open>
  The index kept by the loop points at the first maximum of the current weights seen so far.
\<close>

definition first_max :: "int list \<Rightarrow> nat \<Rightarrow> bool" where
  "first_max xs b \<longleftrightarrow> b < length xs \<and> (\<forall>i < length xs. xs ! i \<le> xs ! b) \<and> (\<forall>i < b. xs ! i < xs ! b)"

lemma first_max_snoc:
  assumes "first_max xs b"
  shows "first_max (xs @ [x]) (if xs ! b < x then length xs else b)"
  using assms unfolding first_max_def
  by (auto simp: nth_append less_Suc_eq intro: le_less_trans)

lemma nginx_scan_best:
  assumes "k \<le> length us" "first_max (map currentWeight (take k us)) b"
  shows "\<exists>b'. snd (snd (nginx_scan [k..<length us] us tot (Some b))) = Some b'
    \<and> first_max (map currentWeight (take k us @ map bump (drop k us))) b'"
  using assms
proof (induction "length us - k" arbitrary: k us tot b)
  case 0
  then show ?case by simp
next
  case (Suc m)
  let ?us = "us[k := bump (us ! k)]"
  let ?b = "if currentWeight (?us ! b) < currentWeight (?us ! k) then k else b"
  have k: "k < length us" using Suc.hyps(2) by simp
  have b: "b < k" using Suc.prems(2) k by (simp add: first_max_def)
  have take: "map currentWeight (take (Suc k) ?us) = map currentWeight (take k us) @ [currentWeight (bump (us ! k))]"
    using k by (simp add: take_Suc_conv_app_nth)
  have "first_max (map currentWeight (take (Suc k) ?us)) ?b"
    using first_max_snoc [OF Suc.prems(2), of "currentWeight (bump (us ! k))"] b k unfolding take
    by (simp split: if_splits)
  then have "\<exists>b'. snd (snd (nginx_scan [Suc k..<length ?us] ?us (wrap32 (tot + effectiveWeight (us ! k))) (Some ?b))) = Some b'
    \<and> first_max (map currentWeight (take (Suc k) ?us @ map bump (drop (Suc k) ?us))) b'"
    using Suc.hyps(1) [of ?us "Suc k" ?b] Suc.hyps(2) k by simp
  then show ?case unfolding bump_step [OF k] using k
    by (auto simp: Let_def upt_conv_Cons split: if_splits)
qed

definition settle :: "int \<Rightarrow> nat \<Rightarrow> upstream list \<Rightarrow> upstream list" where
  "settle tot b us = us[b := (us ! b)\<lparr>currentWeight := wrap32 (currentWeight (us ! b) - tot)\<rparr>]"

lemma settle_bump:
  "map upstream_id (settle tot b (map bump us)) = map upstream_id us"
  "map effectiveWeight (settle tot b (map bump us)) = map effectiveWeight us"
  by (simp_all add: settle_def map_update_same upstream_id_def comp_def bump_def)

lemma nginx_Get_eq:
  assumes ne: "nwUpstreams ws \<noteq> []"
  obtains b where "first_max (map (currentWeight \<circ> bump) (nwUpstreams ws)) b"
    "nginx_Get ws = Inr (ws\<lparr>nwUpstreams :=
       settle (wrap32 (\<Sum>u\<leftarrow>nwUpstreams ws. effectiveWeight u)) b (map bump (nwUpstreams ws))\<rparr>, b)"
proof -
  let ?us = "nwUpstreams ws"
  let ?us1 = "?us[0 := bump (?us ! 0)]"
  obtain us tot best where scan: "nginx_scan [0..<length ?us] ?us 0 None = (us, tot, best)"
    by (cases "nginx_scan [0..<length ?us] ?us 0 None") auto
  have us: "us = map bump ?us"
    using nginx_scan_upstreams [of 0 ?us 0 None] scan by simp
  have "(\<Sum>i\<leftarrow>[0..<length ?us]. effectiveWeight (?us ! i)) = (\<Sum>u\<leftarrow>?us. effectiveWeight u)"
    by (simp add: map_upt_nth)
  moreover have "wrap32 0 = 0" by (simp add: wrap32_def)
  ultimately have tot: "tot = wrap32 (\<Sum>u\<leftarrow>?us. effectiveWeight u)"
    using nginx_scan_total [of "[0..<length ?us]" ?us 0 None] scan by (simp add: atLeast0LessThan)
  have len: "0 < length ?us" using ne by simp
  have step: "nginx_scan [0..<length ?us] ?us 0 None
      = nginx_scan [1..<length ?us1] ?us1 (wrap32 (0 + effectiveWeight (?us ! 0))) (Some 0)"
    using len by (simp add: upt_conv_Cons Let_def)
  have "first_max (map currentWeight (take 1 ?us1)) 0"
    using len by (simp add: first_max_def)
  then obtain b where "best = Some b"
    "first_max (map currentWeight (take 1 ?us1 @ map bump (drop 1 ?us1))) b"
    using nginx_scan_best [of 1 ?us1 0 "wrap32 (0 + effectiveWeight (?us ! 0))"] len scan step by auto
  moreover have "take 1 ?us1 @ map bump (drop 1 ?us1) = map bump ?us"
    using bump_step [OF len] by simp
  ultimately have "best = Some b" "first_max (map (currentWeight \<circ> bump) ?us) b"
    by (simp_all only: map_map)
  then show ?thesis
    using that scan us tot by (simp add: nginx_Get_def settle_def)
qed

lemma nginx_Get_empty: "nwUpstreams ws = [] \<Longrightarrow> nginx_Get ws = Inl IndexOutOfRange"
  by (simp add: nginx_Get_def)

subsection \<open>The invariant of the current weights\<close>

text \<open>
  The current weights sum to zero and lie above \<open>-B\<close> for a bound \<open>B\<close> of the total; with
  \<open>(n + 1) * B\<close> below \<open>2^31\<close> no addition of \<open>Get\<close> wraps around.
\<close>

definition smooth :: "int \<Rightarrow> upstream list \<Rightarrow> bool" where
  "smooth B us \<longleftrightarrow> us \<noteq> [] \<and> (\<forall>u \<in> set us. weight_ok u) \<and> (\<Sum>u\<leftarrow>us. effectiveWeight u) \<le> B
     \<and> (int (length us) + 1) * B < 2147483648 \<and> (\<Sum>u\<leftarrow>us. currentWeight u) = 0
     \<and> (\<forall>u \<in> set us. - B < currentWeight u)"

definition nginx_inv :: "NginxWRRSelector \<Rightarrow> bool" where
  "nginx_inv ws \<longleftrightarrow> smooth (\<Sum>u\<leftarrow>nwUpstreams ws. weight u) (nwUpstreams ws)"

lemma zero_sum_upper:
  fixes xs :: "int list"
  assumes "sum_list xs = 0" "\<forall>x \<in> set xs. - B < x" "0 \<le> B" "i < length xs"
  shows "xs ! i \<le> int (length xs) * B"
proof -
  have "\<forall>x \<in> set (xs[i := 0]). - B \<le> x"
    using assms(2,3) by (auto dest!: set_update_subset_insert [THEN subsetD] less_imp_le)
  then have "- (int (length (xs[i := 0])) * B) \<le> sum_list (xs[i := 0])"
    by (rule sum_list_lower_bound)
  then show ?thesis using sum_list_update_int [OF assms(4), of 0] assms(1) by simp
qed

lemma sum_effective_le_weight:
  "\<forall>u \<in> set us. weight_ok u \<Longrightarrow> (\<Sum>u\<leftarrow>us. effectiveWeight u) \<le> (\<Sum>u\<leftarrow>us. weight u)"
  by (rule sum_list_mono) (auto simp: weight_ok_def)

lemma sum_effective_pos:
  assumes "us \<noteq> []" "\<forall>u \<in> set us. weight_ok u"
  shows "0 < (\<Sum>u\<leftarrow>us. effectiveWeight u)"
  using assms
proof (induction us)
  case (Cons u us)
  then show ?case by (cases "us = []") (auto simp: weight_ok_def)
qed simp

lemma smooth_positive: "smooth B us \<Longrightarrow> 0 < B"
  using sum_effective_pos [of us] by (auto simp: smooth_def)

lemma smooth_step:
  assumes "smooth B us" "i < length us"
  shows "wrap32 (currentWeight (us ! i) + effectiveWeight (us ! i)) = currentWeight (us ! i) + effectiveWeight (us ! i)"
    "currentWeight (us ! i) + effectiveWeight (us ! i) \<le> (int (length us) + 1) * B"
    "- B < currentWeight (us ! i) + effectiveWeight (us ! i)"
proof -
  let ?c = "currentWeight (us ! i)" and ?e = "effectiveWeight (us ! i)"
  have B: "0 < B" by (rule smooth_positive [OF assms(1)])
  have ok: "\<forall>u \<in> set us. weight_ok u" using assms(1) by (simp add: smooth_def)
  have "?e \<le> (\<Sum>u\<leftarrow>us. effectiveWeight u)"
    using ok assms(2) by (intro member_le_sum_list) (auto simp: weight_ok_def intro: order.trans)
  then have e: "?e \<le> B" using assms(1) by (simp add: smooth_def)
  have c: "?c \<le> int (length us) * B"
    using zero_sum_upper [of "map currentWeight us" B i] assms B by (simp add: smooth_def)
  show up: "?c + ?e \<le> (int (length us) + 1) * B" using c e by (simp add: algebra_simps)
  have "1 \<le> ?e" using ok assms(2) by (simp add: weight_ok_def)
  moreover have "- B < ?c" using assms by (simp add: smooth_def)
  ultimately show lo: "- B < ?c + ?e" by simp
  have "(int (length us) + 1) * B < 2147483648" using assms(1) by (simp add: smooth_def)
  moreover have "1 * B \<le> (int (length us) + 1) * B" using B by (intro mult_right_mono) auto
  ultimately show "wrap32 (?c + ?e) = ?c + ?e"
    using up lo by (intro wrap32_id) (simp add: in32_def)
qed

lemma smooth_bump:
  assumes "smooth B us"
  shows "map (currentWeight \<circ> bump) us = map (\<lambda>u. currentWeight u + effectiveWeight u) us"
  using smooth_step(1) [OF assms] by (intro nth_equalityI) simp_all

text \<open>One \<open>Get\<close> in a smooth state, without wrap-around.\<close>

lemma nginx_Get_smooth:
  assumes sm: "smooth B (nwUpstreams ws)"
  obtains b us where "nginx_Get ws = Inr (ws\<lparr>nwUpstreams := us\<rparr>, b)"
    "first_max (map (\<lambda>u. currentWeight u + effectiveWeight u) (nwUpstreams ws)) b"
    "map currentWeight us = (map (\<lambda>u. currentWeight u + effectiveWeight u) (nwUpstreams ws))
       [b := currentWeight (nwUpstreams ws ! b) + effectiveWeight (nwUpstreams ws ! b)
          - (\<Sum>u\<leftarrow>nwUpstreams ws. effectiveWeight u)]"
    "map upstream_id us = map upstream_id (nwUpstreams ws)"
    "map effectiveWeight us = map effectiveWeight (nwUpstreams ws)"
proof -
  let ?us = "nwUpstreams ws" and ?f = "\<lambda>u. currentWeight u + effectiveWeight u"
  let ?E = "\<Sum>u\<leftarrow>?us. effectiveWeight u"
  have ne: "?us \<noteq> []" using sm by (simp add: smooth_def)
  obtain b where fm: "first_max (map (currentWeight \<circ> bump) ?us) b" and
    get: "nginx_Get ws = Inr (ws\<lparr>nwUpstreams := settle (wrap32 ?E) b (map bump ?us)\<rparr>, b)"
    by (rule nginx_Get_eq [OF ne])
  have b: "b < length ?us" using fm by (simp add: first_max_def)
  have fm': "first_max (map ?f ?us) b" using fm unfolding smooth_bump [OF sm] .
  have E: "0 < ?E" "?E \<le> B" "(int (length ?us) + 1) * B < 2147483648"
    using sm sum_effective_pos [of ?us] by (auto simp: smooth_def)
  have B: "B \<le> (int (length ?us) + 1) * B" using E by (simp add: algebra_simps)
  have small: "?E < 2147483648" using E B by linarith
  then have "wrap32 ?E = ?E" using E by (intro wrap32_id) (simp add: in32_def)
  moreover have "wrap32 (?f (?us ! b) - ?E) = ?f (?us ! b) - ?E"
  proof (rule wrap32_id)
    have "0 < sum_list (map ?f ?us)" using sm E by (simp add: smooth_def sum_list_addf)
    then obtain j where "j < length ?us" "0 < map ?f ?us ! j" using sum_list_pos_ex by fastforce
    then have "0 < ?f (?us ! b)" using fm' by (fastforce simp: first_max_def)
    then show "in32 (?f (?us ! b) - ?E)"
      using smooth_step(2) [OF sm b] E small unfolding in32_def by linarith
  qed
  ultimately have "map currentWeight (settle (wrap32 ?E) b (map bump ?us)) = (map ?f ?us)[b := ?f (?us ! b) - ?E]"
    using b smooth_step(1) [OF sm b]
    by (simp only: settle_def map_update map_map smooth_bump [OF sm]) simp
  then show ?thesis by (rule that [OF get fm' _ settle_bump])
qed

lemma smooth_Get:
  assumes sm: "smooth B (nwUpstreams ws)" and get: "nginx_Get ws = Inr (ws', b)"
  shows "smooth B (nwUpstreams ws')"
    "map upstream_id (nwUpstreams ws') = map upstream_id (nwUpstreams ws)"
    "map effectiveWeight (nwUpstreams ws') = map effectiveWeight (nwUpstreams ws)"
    "b < length (nwUpstreams ws)"
    "\<And>i. i < length (nwUpstreams ws) \<Longrightarrow> currentWeight (nwUpstreams ws' ! i) =
       currentWeight (nwUpstreams ws ! i) + effectiveWeight (nwUpstreams ws ! i)
       - (if i = b then \<Sum>u\<leftarrow>nwUpstreams ws. effectiveWeight u else 0)"
proof -
  let ?us = "nwUpstreams ws" and ?us' = "nwUpstreams ws'"
  let ?f = "\<lambda>u. currentWeight u + effectiveWeight u" and ?E = "\<Sum>u\<leftarrow>nwUpstreams ws. effectiveWeight u"
  from sm get have fm: "first_max (map ?f ?us) b"
    and cw: "map currentWeight ?us' = (map ?f ?us)[b := ?f (?us ! b) - ?E]"
    and ids: "map upstream_id ?us' = map upstream_id ?us"
    and ew: "map effectiveWeight ?us' = map effectiveWeight ?us"
    by (auto elim!: nginx_Get_smooth)
  show "map upstream_id ?us' = map upstream_id ?us" "map effectiveWeight ?us' = map effectiveWeight ?us"
    by fact+
  have len: "length ?us' = length ?us" using ids map_eq_imp_length_eq by blast
  show b: "b < length ?us" using fm by (simp add: first_max_def)
  show nth: "currentWeight (?us' ! i) = ?f (?us ! i) - (if i = b then ?E else 0)" if "i < length ?us" for i
    using arg_cong [OF cw, of "\<lambda>xs. xs ! i"] that len b by (simp add: nth_list_update split: if_splits)
  have E: "0 < ?E" "?E \<le> B" using sm sum_effective_pos [of ?us] by (auto simp: smooth_def)
  have sum: "sum_list (map ?f ?us) = ?E" using sm by (simp add: smooth_def sum_list_addf)
  have zero: "(\<Sum>u\<leftarrow>?us'. currentWeight u) = 0"
    using sum_list_update_int [of b "map ?f ?us" "?f (?us ! b) - ?E"] b sum by (simp add: cw)
  obtain j where "j < length ?us" "0 < ?f (?us ! j)"
    using sum_list_pos_ex [of "map ?f ?us"] sum E by auto
  then have fb: "0 < ?f (?us ! b)" using fm by (fastforce simp: first_max_def)
  have low: "- B < currentWeight (?us' ! i)" if "i < length ?us" for i
    using nth [OF that] smooth_step(3) [OF sm that] fb E by (cases "i = b") auto
  have ok: "weight_ok (?us' ! i)" if "i < length ?us" for i
  proof -
    have "weight (?us' ! i) = weight (?us ! i)" "effectiveWeight (?us' ! i) = effectiveWeight (?us ! i)"
      using arg_cong [OF ids, of "\<lambda>xs. xs ! i"] arg_cong [OF ew, of "\<lambda>xs. xs ! i"] that len
      by (simp_all add: upstream_id_def)
    then show ?thesis using sm that by (auto simp: smooth_def weight_ok_def)
  qed
  show "smooth B ?us'"
    using sm zero low ok len ew unfolding smooth_def by (auto simp: in_set_conv_nth)
qed

subsection \<open>The selector laws\<close>

text \<open>What the invariant needs to know of the upstreams beside their effective weights.\<close>

definition frame :: "upstream \<Rightarrow> (UpstreamType \<times> string \<times> string \<times> int) \<times> int" where
  "frame u = (upstream_id u, currentWeight u)"

lemma nginx_inv_frame:
  assumes inv: "nginx_inv ws" and fr: "map frame us = map frame (nwUpstreams ws)"
    and ok: "\<forall>u \<in> set us. weight_ok u"
  shows "nginx_inv (ws\<lparr>nwUpstreams := us\<rparr>)"
proof -
  have len: "length us = length (nwUpstreams ws)" using fr map_eq_imp_length_eq by blast
  have "map (weight_of \<circ> frame) us = map (weight_of \<circ> frame) (nwUpstreams ws)" for weight_of :: "_ \<Rightarrow> int"
    using arg_cong [OF fr, of "map weight_of"] by simp
  from this [of "\<lambda>p. snd (snd (snd (fst p)))"] this [of snd]
  have w: "map weight us = map weight (nwUpstreams ws)" and c: "map currentWeight us = map currentWeight (nwUpstreams ws)"
    by (simp_all add: frame_def upstream_id_def comp_def)
  have "currentWeight u \<in> currentWeight ` set (nwUpstreams ws)" if "u \<in> set us" for u
    using arg_cong [OF c, of set] that by auto
  then have "\<forall>u \<in> set us. - (\<Sum>u\<leftarrow>nwUpstreams ws. weight u) < currentWeight u"
    using inv by (fastforce simp: nginx_inv_def smooth_def)
  then show ?thesis
    using inv len w c ok sum_effective_le_weight [OF ok] by (auto simp: nginx_inv_def smooth_def)
qed

lemma nginx_inv_Get: "nginx_inv ws \<Longrightarrow> nginx_Get ws = Inr (ws', b) \<Longrightarrow> nginx_inv ws'"
proof -
  assume inv: "nginx_inv ws" and get: "nginx_Get ws = Inr (ws', b)"
  note sm = inv [unfolded nginx_inv_def]
  have "map weight (nwUpstreams ws') = map weight (nwUpstreams ws)"
    using arg_cong [OF smooth_Get(2) [OF sm get], of "map (\<lambda>p. snd (snd (snd p)))"]
    by (simp add: upstream_id_def comp_def)
  then show "nginx_inv ws'" using smooth_Get(1) [OF sm get] by (simp add: nginx_inv_def)
qed

lemma nginx_inv_report:
  assumes "nginx_inv ws" "i < length (nwUpstreams ws)"
  shows "nginx_inv (nginx_ReportUpstreamStatus i st ws)"
  unfolding nginx_ReportUpstreamStatus_def
proof (rule nginx_inv_frame [OF assms(1)])
  have adj: "adjusted (nwUpstreams ws ! i) (nginx_status st (nwUpstreams ws ! i))"
    by (rule adjusted_nginx_status)
  then show "map frame ((nwUpstreams ws)[i := nginx_status st (nwUpstreams ws ! i)]) = map frame (nwUpstreams ws)"
    by (intro map_update_same) (simp add: frame_def adjustedD)
  show "\<forall>u \<in> set ((nwUpstreams ws)[i := nginx_status st (nwUpstreams ws ! i)]). weight_ok u"
    using assms adjustedD(3) [OF adj] by (auto simp: nginx_inv_def smooth_def dest!: set_update_subset_insert [THEN subsetD])
qed

lemma nginx_evaluate_frame:
  assumes "nginx_inv ws" "set ord \<subseteq> {..<length (nwUpstreams ws)}" "nginx_StartEvaluate e ord ws = Inr ws'"
  obtains us where "ws' = ws\<lparr>nwUpstreams := us\<rparr>" "map frame us = map frame (nwUpstreams ws)"
    "\<forall>u \<in> set us. weight_ok u"
proof -
  obtain us where us: "evaluate_round (nginx_probe e) ord (nwUpstreams ws) = Inr us" "ws' = ws\<lparr>nwUpstreams := us\<rparr>"
    using assms(3) by (auto simp: nginx_StartEvaluate_def split: sum.splits)
  have "frame v = frame u \<and> (weight_ok u \<longrightarrow> weight_ok v)" if "nginx_probe e u = Inr v" for u v
    using adjusted_nginx_probe [OF that] by (simp add: frame_def adjustedD)
  then have "map frame us = map frame (nwUpstreams ws) \<and> (\<forall>u \<in> set us. weight_ok u)"
    using assms(1) by (intro evaluate_round_invariant [OF us(1) assms(2)]) (auto simp: nginx_inv_def smooth_def)
  then show ?thesis using that us(2) by blast
qed

lemma map_frame_ids: "map frame us = map frame vs \<Longrightarrow> map upstream_id us = map upstream_id vs"
proof -
  assume "map frame us = map frame vs"
  then have "map fst (map frame us) = map fst (map frame vs)" by (rule arg_cong)
  then show "map upstream_id us = map upstream_id vs" by (simp only: map_map) (simp add: frame_def comp_def)
qed

lemma nginx_inv_evaluate:
  assumes "nginx_inv ws" "set ord \<subseteq> {..<length (nwUpstreams ws)}" "nginx_StartEvaluate e ord ws = Inr ws'"
  shows "nginx_inv ws'" "map upstream_id (nwUpstreams ws') = map upstream_id (nwUpstreams ws)"
proof -
  obtain us where us: "ws' = ws\<lparr>nwUpstreams := us\<rparr>" "map frame us = map frame (nwUpstreams ws)"
    "\<forall>u \<in> set us. weight_ok u"
    by (rule nginx_evaluate_frame [OF assms])
  show "nginx_inv ws'" unfolding us(1) by (rule nginx_inv_frame [OF assms(1) us(2,3)])
  show "map upstream_id (nwUpstreams ws') = map upstream_id (nwUpstreams ws)"
    using map_frame_ids [OF us(2)] us(1) by simp
qed

interpretation nginx: selector "\<lambda>r s. Some (nginx_Get s)" nginx_ReportUpstreamStatus
  nginx_StartEvaluate nwUpstreams nginx_inv
proof unfold_locales
  fix s r s' i st ord e
  show "\<exists>s' i. Some (nginx_Get s) = Some (Inr (s', i))" if "nginx_inv s"
    using that by (auto simp: nginx_inv_def elim: nginx_Get_smooth)
  show "i < length (nwUpstreams s)" "map upstream_id (nwUpstreams s') = map upstream_id (nwUpstreams s)" "nginx_inv s'"
    if "nginx_inv s" "Some (nginx_Get s) = Some (Inr (s', i))"
    using that smooth_Get(2,4) [of _ s s' i] nginx_inv_Get [of s s' i] by (auto simp: nginx_inv_def)
  show "nginx_inv (nginx_ReportUpstreamStatus i st s)" if "nginx_inv s" "i < length (nwUpstreams s)"
    by (rule nginx_inv_report [OF that])
  show "map upstream_id (nwUpstreams (nginx_ReportUpstreamStatus i st s)) = map upstream_id (nwUpstreams s)"
    by (simp add: nginx_ReportUpstreamStatus_def map_update_same adjustedD(1) [OF adjusted_nginx_status])
  show "nginx_inv s'" "map upstream_id (nwUpstreams s') = map upstream_id (nwUpstreams s)"
    if "nginx_inv s" "set ord \<subseteq> {..<length (nwUpstreams s)}" "nginx_StartEvaluate e ord s = Inr s'"
    by (rule nginx_inv_evaluate [OF that])+
qed

subsection \<open>Fairness over a period\<close>

fun nginx_Gets :: "nat \<Rightarrow> NginxWRRSelector \<Rightarrow> go_panic + NginxWRRSelector \<times> nat list" where
  "nginx_Gets 0 ws = Inr (ws, [])"
| "nginx_Gets (Suc k) ws =
     (case nginx_Get ws of
        Inl p \<Rightarrow> Inl p
      | Inr (ws', b) \<Rightarrow> (case nginx_Gets k ws' of
            Inl p \<Rightarrow> Inl p
          | Inr (ws'', bs) \<Rightarrow> Inr (ws'', b # bs)))"

lemma nginx_Gets_smooth:
  assumes "smooth B (nwUpstreams ws)"
  shows "\<exists>ws' bs. nginx_Gets k ws = Inr (ws', bs) \<and> smooth B (nwUpstreams ws')
    \<and> length bs = k \<and> set bs \<subseteq> {..<length (nwUpstreams ws)}
    \<and> length (nwUpstreams ws') = length (nwUpstreams ws)
    \<and> (\<forall>i < length (nwUpstreams ws). currentWeight (nwUpstreams ws' ! i) =
         currentWeight (nwUpstreams ws ! i) + int k * effectiveWeight (nwUpstreams ws ! i)
         - (\<Sum>u\<leftarrow>nwUpstreams ws. effectiveWeight u) * int (count_list bs i))"
  using assms
proof (induction k arbitrary: ws)
  case 0
  then show ?case by simp
next
  case (Suc k)
  obtain ws1 b where get: "nginx_Get ws = Inr (ws1, b)"
    using Suc.prems by (auto elim: nginx_Get_smooth)
  note G = smooth_Get [OF Suc.prems get]
  have len: "length (nwUpstreams ws1) = length (nwUpstreams ws)"
    using G(2) map_eq_imp_length_eq by blast
  have ew: "effectiveWeight (nwUpstreams ws1 ! i) = effectiveWeight (nwUpstreams ws ! i)"
    if "i < length (nwUpstreams ws)" for i
    using arg_cong [OF G(3), of "\<lambda>xs. xs ! i"] that len by simp
  obtain ws' bs where IH: "nginx_Gets k ws1 = Inr (ws', bs)" "smooth B (nwUpstreams ws')"
    "length bs = k" "set bs \<subseteq> {..<length (nwUpstreams ws)}"
    "length (nwUpstreams ws') = length (nwUpstreams ws)"
    "\<forall>i < length (nwUpstreams ws). currentWeight (nwUpstreams ws' ! i) =
       currentWeight (nwUpstreams ws1 ! i) + int k * effectiveWeight (nwUpstreams ws1 ! i)
       - (\<Sum>u\<leftarrow>nwUpstreams ws1. effectiveWeight u) * int (count_list bs i)"
    using Suc.IH [OF G(1)] len by auto
  have "currentWeight (nwUpstreams ws' ! i) =
      currentWeight (nwUpstreams ws ! i) + int (Suc k) * effectiveWeight (nwUpstreams ws ! i)
      - (\<Sum>u\<leftarrow>nwUpstreams ws. effectiveWeight u) * int (count_list (b # bs) i)"
    if "i < length (nwUpstreams ws)" for i
    using IH(6) [rule_format, OF that] G(3) G(5) [OF that] ew [OF that]
    by (cases "i = b") (simp_all add: algebra_simps)
  then show ?case using get IH(1-5) G(4) by auto
qed

text \<open>
  The counting argument: picks that total the weights, with every upstream's balance
  \<open>E * w - E * count\<close> above \<open>-E\<close>, hit every weight exactly.
\<close>

lemma counts_equal_weights:
  fixes w :: "int list"
  assumes "set bs \<subseteq> {..<length w}" "int (length bs) = sum_list w" "0 < sum_list w"
    "\<And>i. i < length w \<Longrightarrow> - sum_list w < sum_list w * w ! i - sum_list w * int (count_list bs i)"
  shows "map (\<lambda>i. int (count_list bs i)) [0..<length w] = w" (is "?n = w")
proof (rule sum_list_le_eq_nth)
  have "sum_list ?n = (\<Sum>i<length w. int (count_list bs i))"
    by (simp add: sum_list_sum_nth atLeast0LessThan)
  then show "sum_list ?n = sum_list w" using sum_count_list [OF assms(1)] assms(2) by simp
  have "int (count_list bs i) \<le> w ! i" if "i < length w" for i
  proof -
    have "sum_list w * (int (count_list bs i) - w ! i) < sum_list w * 1"
      using assms(4) [OF that] by (simp add: algebra_simps)
    then have "int (count_list bs i) - w ! i < 1"
      using assms(3) mult_less_cancel_left_pos by blast
    then show ?thesis by simp
  qed
  then show "\<forall>i < length w. ?n ! i \<le> w ! i" by simp
qed simp

lemma mod_wrap_cancel:
  "(s + wrap32 (c - wrap32 e) - c) mod 4294967296 = (s - e) mod 4294967296"
proof -
  obtain j k where "wrap32 (c - wrap32 e) = c - wrap32 e + 4294967296 * j" "wrap32 e = e + 4294967296 * k"
    using wrap32_ex by meson
  then have "s + wrap32 (c - wrap32 e) - c = s - e + 4294967296 * (j - k)" by simp
  then show ?thesis by (simp only: mod_mult_self2)
qed

lemma sum_bump:
  "\<exists>k. sum_list (map (currentWeight \<circ> bump) us) =
     (\<Sum>u\<leftarrow>us. currentWeight u) + (\<Sum>u\<leftarrow>us. effectiveWeight u) + 4294967296 * k"
proof (induction us)
  case Nil
  then show ?case by simp
next
  case (Cons u us)
  obtain j where "wrap32 (currentWeight u + effectiveWeight u) = currentWeight u + effectiveWeight u + 4294967296 * j"
    using wrap32_ex by blast
  moreover obtain k where "sum_list (map (currentWeight \<circ> bump) us) =
     (\<Sum>u\<leftarrow>us. currentWeight u) + (\<Sum>u\<leftarrow>us. effectiveWeight u) + 4294967296 * k"
    using Cons.IH by blast
  ultimately show ?case by (intro exI [of _ "j + k"]) (simp add: comp_def)
qed

lemma sum_bump_mod:
  "(sum_list (map (currentWeight \<circ> bump) us) - (\<Sum>u\<leftarrow>us. effectiveWeight u)) mod 4294967296
   = (\<Sum>u\<leftarrow>us. currentWeight u) mod 4294967296"
proof -
  obtain k where "sum_list (map (currentWeight \<circ> bump) us) - (\<Sum>u\<leftarrow>us. effectiveWeight u) =
     (\<Sum>u\<leftarrow>us. currentWeight u) + 4294967296 * k"
    using sum_bump [of us] by auto
  then show ?thesis by (simp only: mod_mult_self2)
qed

subsection \<open>Rounds of the evaluation\<close>

lemma nginx_probe_Inr:
  "probeNewRequest env (probe_url u) = None \<Longrightarrow> nginx_probe env u = Inr (projr (nginx_probe env u))"
  by (simp add: nginx_probe_def split: sum.split)

lemma nginx_round_full:
  assumes "\<forall>u \<in> set (nwUpstreams ws). probeNewRequest env (probe_url u) = None"
    "distinct ord" "set ord = {..<length (nwUpstreams ws)}"
  shows "nginx_StartEvaluate env ord ws =
    Inr (ws\<lparr>nwUpstreams := map (\<lambda>u. projr (nginx_probe env u)) (nwUpstreams ws)\<rparr>)"
proof -
  have "evaluate_round (nginx_probe env) ord (nwUpstreams ws) =
      Inr (map (\<lambda>u. projr (nginx_probe env u)) (nwUpstreams ws))"
    using assms by (intro evaluate_round_full nginx_probe_Inr) auto
  then show ?thesis by (simp add: nginx_StartEvaluate_def)
qed

text \<open>A round over \<open>n\<close> upstreams in which every goroutine runs once, every request can be built, and
  the IETF upstream with the given URL answers with status 200.\<close>

definition healthy_round :: "nat \<Rightarrow> string \<Rightarrow> probe_env \<Rightarrow> nat list \<Rightarrow> bool" where
  "healthy_round n url env ord \<longleftrightarrow> distinct ord \<and> set ord = {..<n}
     \<and> (\<forall>x. probeNewRequest env x = None)
     \<and> (\<exists>resp. probeDo env (url @ ''?dns=q80BAAABAAAAAAAAA3d3dwdleGFtcGxlA2NvbQAAAQAB'')
          ''application/dns-message'' = Inr resp \<and> StatusCode resp = StatusOK)"

lemma nginx_probe_healthy:
  assumes "healthy_round n (URL u) env ord" "uType u = IETF"
  shows "nginx_probe env u = Inr (raise_weight 5 u)"
  using assms
  by (auto simp: healthy_round_def nginx_probe_def probe_url_def probe_accept_def nginx_checkIETFResponse_def)

lemma nginx_rounds_recover:
  assumes "\<forall>u \<in> set (nwUpstreams ws). weight_ok u" "i < length (nwUpstreams ws)"
    "uType (nwUpstreams ws ! i) = IETF"
    "\<forall>(env, ord) \<in> set rs. healthy_round (length (nwUpstreams ws)) (URL (nwUpstreams ws ! i)) env ord"
  shows "\<exists>ws'. nginx_rounds rs ws = Inr ws' \<and> effectiveWeight (nwUpstreams ws' ! i) =
    min (weight (nwUpstreams ws ! i)) (effectiveWeight (nwUpstreams ws ! i) + 5 * int (length rs))"
  using assms
proof (induction rs arbitrary: ws)
  case Nil
  then have "weight_ok (nwUpstreams ws ! i)" by simp
  then show ?case by (simp add: weight_ok_def)
next
  case (Cons r rs)
  obtain env ord where r: "r = (env, ord)" by (cases r)
  let ?us = "nwUpstreams ws" and ?f = "\<lambda>u. projr (nginx_probe env u)"
  let ?ws = "ws\<lparr>nwUpstreams := map ?f ?us\<rparr>"
  have h: "healthy_round (length ?us) (URL (?us ! i)) env ord" using Cons.prems(4) r by simp
  then have ok: "probeNewRequest env x = None" for x by (simp add: healthy_round_def)
  have step: "nginx_StartEvaluate env ord ws = Inr ?ws"
    using h ok by (intro nginx_round_full) (auto simp: healthy_round_def)
  have adj: "adjusted u (?f u)" for u by (rule adjusted_nginx_probe [OF nginx_probe_Inr [OF ok]])
  have fi: "?f (?us ! i) = raise_weight 5 (?us ! i)" using nginx_probe_healthy [OF h Cons.prems(3)] by simp
  have "upstream_id (?f (?us ! i)) = upstream_id (?us ! i)" by (rule adjustedD(1) [OF adj])
  then have same: "uType (?f (?us ! i)) = IETF" "URL (?f (?us ! i)) = URL (?us ! i)"
    "weight (?f (?us ! i)) = weight (?us ! i)"
    using Cons.prems(3) by (auto simp: upstream_id_def)
  have wi: "weight_ok (?us ! i)" using Cons.prems(1,2) by simp
  have ew: "effectiveWeight (?f (?us ! i)) = min (weight (?us ! i)) (effectiveWeight (?us ! i) + 5)"
    unfolding fi by (rule raise_weight_eq [OF wi]) simp_all
  have "\<forall>u \<in> set (nwUpstreams ?ws). weight_ok u" using Cons.prems(1) adjustedD(3) [OF adj] by auto
  then have "\<exists>ws'. nginx_rounds rs ?ws = Inr ws' \<and> effectiveWeight (nwUpstreams ws' ! i) =
      min (weight (nwUpstreams ?ws ! i)) (effectiveWeight (nwUpstreams ?ws ! i) + 5 * int (length rs))"
    using Cons.prems same by (intro Cons.IH) auto
  moreover have "min (weight (?us ! i)) (min (weight (?us ! i)) (effectiveWeight (?us ! i) + 5) + 5 * int (length rs))
      = min (weight (?us ! i)) (effectiveWeight (?us ! i) + 5 * int (length (r # rs)))"
    by (simp add: min_def)
  ultimately show ?case using step r Cons.prems(2) ew same(3) by auto
qed

subsection \<open>Properties\<close>

text \<open>Property C4.  Starting from current weights zero (as \<open>Add\<close> leaves them), as many calls of
  \<open>Get\<close> as the effective weights sum to choose every upstream exactly as often as its effective
  weight says, none of the calls panics, and all current weights are zero again: the schedule is
  periodic and proportional to the weights.\<close>

theorem nginx_Get_fair:
  assumes "nwUpstreams ws \<noteq> []" "\<forall>u \<in> set (nwUpstreams ws). weight_ok u \<and> currentWeight u = 0"
    "(int (length (nwUpstreams ws)) + 1) * (\<Sum>u\<leftarrow>nwUpstreams ws. effectiveWeight u) < 2147483648"
  shows "\<exists>ws' bs. nginx_Gets (nat (\<Sum>u\<leftarrow>nwUpstreams ws. effectiveWeight u)) ws = Inr (ws', bs)
    \<and> (\<forall>i < length (nwUpstreams ws). int (count_list bs i) = effectiveWeight (nwUpstreams ws ! i))
    \<and> (\<forall>u \<in> set (nwUpstreams ws'). currentWeight u = 0)"
proof -
  let ?us = "nwUpstreams ws" and ?E = "\<Sum>u\<leftarrow>nwUpstreams ws. effectiveWeight u"
  have E: "0 < ?E" using assms(1,2) by (intro sum_effective_pos) auto
  have "map currentWeight ?us = map (\<lambda>_. 0) ?us" using assms(2) by simp
  then have "(\<Sum>u\<leftarrow>?us. currentWeight u) = 0" by (simp only: sum_list_0)
  then have sm: "smooth ?E ?us" using assms E by (simp add: smooth_def)
  obtain ws' bs where G: "nginx_Gets (nat ?E) ws = Inr (ws', bs)" "smooth ?E (nwUpstreams ws')"
    "length bs = nat ?E" "set bs \<subseteq> {..<length ?us}" "length (nwUpstreams ws') = length ?us"
    and cw: "\<forall>i < length ?us. currentWeight (nwUpstreams ws' ! i) =
       ?E * effectiveWeight (?us ! i) - ?E * int (count_list bs i)"
    using nginx_Gets_smooth [OF sm, of "nat ?E"] assms(2) E by auto
  have "- ?E < currentWeight (nwUpstreams ws' ! i)" if "i < length ?us" for i
    using G(2,5) that by (simp add: smooth_def)
  then have n: "map (\<lambda>i. int (count_list bs i)) [0..<length ?us] = map effectiveWeight ?us"
    using counts_equal_weights [of bs "map effectiveWeight ?us"] E G(3,4) cw by simp
  have eq: "int (count_list bs i) = effectiveWeight (?us ! i)" if "i < length ?us" for i
    using arg_cong [OF n, of "\<lambda>xs. xs ! i"] that by simp
  have "currentWeight (nwUpstreams ws' ! i) = 0" if "i < length ?us" for i
    using cw eq [OF that] that by simp
  then have "\<forall>u \<in> set (nwUpstreams ws'). currentWeight u = 0"
    using G(5) by (metis in_set_conv_nth)
  with G(1) eq show ?thesis by blast
qed

definition three_upstreams :: NginxWRRSelector where
  "three_upstreams = \<lparr>nwUpstreams =
     [\<lparr>uType = Google, URL = ''a'', RequestType = ''application/dns-json'', weight = 5, effectiveWeight = 5, currentWeight = 0\<rparr>,
      \<lparr>uType = IETF, URL = ''b'', RequestType = ''application/dns-message'', weight = 1, effectiveWeight = 1, currentWeight = 0\<rparr>,
      \<lparr>uType = IETF, URL = ''c'', RequestType = ''application/dns-message'', weight = 1, effectiveWeight = 1, currentWeight = 0\<rparr>],
     nwTimeout = 10000000000\<rparr>"

theorem nginx_Get_fair_witness:
  "\<exists>ws' bs. nginx_Gets (nat 7) three_upstreams = Inr (ws', bs)
    \<and> (\<forall>i < length (nwUpstreams three_upstreams).
         int (count_list bs i) = effectiveWeight (nwUpstreams three_upstreams ! i))
    \<and> (\<forall>u \<in> set (nwUpstreams ws'). currentWeight u = 0)"
proof -
  have h: "nwUpstreams three_upstreams \<noteq> []"
    "\<forall>u \<in> set (nwUpstreams three_upstreams). weight_ok u \<and> currentWeight u = 0"
    "(int (length (nwUpstreams three_upstreams)) + 1) *
       (\<Sum>u\<leftarrow>nwUpstreams three_upstreams. effectiveWeight u) < 2147483648"
    and E: "(\<Sum>u\<leftarrow>nwUpstreams three_upstreams. effectiveWeight u) = 7"
    by (simp_all add: three_upstreams_def weight_ok_def)
  show ?thesis using nginx_Get_fair [OF h] unfolding E .
qed

text \<open>In every state that satisfies the invariant \<open>Get\<close> returns the first upstream
  for which current weight plus effective weight is largest, takes the sum of the effective
  weights off that one and adds the effective weight to every other, without int32 wrap-around.\<close>

theorem nginx_Get_chooses_first_maximum:
  assumes "nginx_inv ws"
  shows "\<exists>ws' b. nginx_Get ws = Inr (ws', b)
    \<and> first_max (map (\<lambda>u. currentWeight u + effectiveWeight u) (nwUpstreams ws)) b
    \<and> (\<forall>i < length (nwUpstreams ws). currentWeight (nwUpstreams ws' ! i) =
         currentWeight (nwUpstreams ws ! i) + effectiveWeight (nwUpstreams ws ! i)
         - (if i = b then \<Sum>u\<leftarrow>nwUpstreams ws. effectiveWeight u else 0))"
proof -
  note sm = assms [unfolded nginx_inv_def]
  obtain b us where "nginx_Get ws = Inr (ws\<lparr>nwUpstreams := us\<rparr>, b)"
    "first_max (map (\<lambda>u. currentWeight u + effectiveWeight u) (nwUpstreams ws)) b"
    by (rule nginx_Get_smooth [OF sm])
  then show ?thesis using smooth_Get(5) [OF sm] by blast
qed

theorem nginx_Get_chooses_first_maximum_witness:
  "nginx_inv three_upstreams \<and> (\<exists>ws' b. nginx_Get three_upstreams = Inr (ws', b)
    \<and> first_max (map (\<lambda>u. currentWeight u + effectiveWeight u) (nwUpstreams three_upstreams)) b)"
proof -
  have "nginx_inv three_upstreams"
    by (simp add: nginx_inv_def smooth_def three_upstreams_def weight_ok_def)
  then show ?thesis using nginx_Get_chooses_first_maximum [of three_upstreams] by blast
qed

text \<open>The client can serve any number of queries with this selector: from a state
  that satisfies the invariant every \<open>Get\<close> of the protocol returns an upstream of the selector,
  whatever statuses are reported in between, the invariant holds at the end and no upstream's type,
  URL, request type or configured weight has changed.\<close>

theorem nginx_serve_total:
  assumes "nginx_inv ws"
  shows "\<exists>ws' is. serve (\<lambda>r s. Some (nginx_Get s)) nginx_ReportUpstreamStatus qs ws = Some (Inr (ws', is))
    \<and> length is = length qs \<and> set is \<subseteq> {..<length (nwUpstreams ws)} \<and> nginx_inv ws'
    \<and> map upstream_id (nwUpstreams ws') = map upstream_id (nwUpstreams ws)"
  by (rule nginx.serve_total [OF assms])

theorem nginx_serve_total_witness:
  "\<exists>ws' is. serve (\<lambda>r s. Some (nginx_Get s)) nginx_ReportUpstreamStatus
      [(0, Some Timeout), (0, Some OK), (0, None)] three_upstreams = Some (Inr (ws', is))
    \<and> length is = 3 \<and> set is \<subseteq> {..<3}"
proof -
  have "nginx_inv three_upstreams"
    by (simp add: nginx_inv_def smooth_def three_upstreams_def weight_ok_def)
  moreover have "length (nwUpstreams three_upstreams) = 3" by (simp add: three_upstreams_def)
  ultimately show ?thesis
    using nginx_serve_total [of three_upstreams "[(0, Some Timeout), (0, Some OK), (0, None)]"] by auto
qed

text \<open>Whatever the effective weights are, and whether or not the additions wrap
  around, \<open>Get\<close> on a selector with at least one upstream returns, and leaves the sum of the current
  weights unchanged modulo \<open>2^32\<close>.\<close>

theorem nginx_Get_keeps_sum:
  assumes "nwUpstreams ws \<noteq> []"
  shows "\<exists>ws' b. nginx_Get ws = Inr (ws', b) \<and>
    (\<Sum>u\<leftarrow>nwUpstreams ws'. currentWeight u) mod 4294967296 =
    (\<Sum>u\<leftarrow>nwUpstreams ws. currentWeight u) mod 4294967296"
proof -
  let ?us = "nwUpstreams ws" and ?E = "\<Sum>u\<leftarrow>nwUpstreams ws. effectiveWeight u"
  let ?cs = "map (currentWeight \<circ> bump) ?us"
  obtain b where fm: "first_max ?cs b" and
    get: "nginx_Get ws = Inr (ws\<lparr>nwUpstreams := settle (wrap32 ?E) b (map bump ?us)\<rparr>, b)"
    by (rule nginx_Get_eq [OF assms])
  have b: "b < length ?us" using fm by (simp add: first_max_def)
  have "map currentWeight (settle (wrap32 ?E) b (map bump ?us)) = ?cs[b := wrap32 (?cs ! b - wrap32 ?E)]"
    using b by (simp add: settle_def map_update comp_def)
  then have "(\<Sum>u\<leftarrow>settle (wrap32 ?E) b (map bump ?us). currentWeight u)
      = sum_list ?cs + wrap32 (?cs ! b - wrap32 ?E) - ?cs ! b"
    using sum_list_update_int [of b ?cs] b by simp
  also have "\<dots> mod 4294967296 = (sum_list ?cs - ?E) mod 4294967296"
    by (rule mod_wrap_cancel)
  also have "\<dots> = (\<Sum>u\<leftarrow>?us. currentWeight u) mod 4294967296"
    by (rule sum_bump_mod)
  finally show ?thesis using get by simp
qed

theorem nginx_Get_keeps_sum_witness:
  "\<exists>ws' b. nginx_Get three_upstreams = Inr (ws', b) \<and>
    (\<Sum>u\<leftarrow>nwUpstreams ws'. currentWeight u) mod 4294967296 = 0"
  using nginx_Get_keeps_sum [of three_upstreams] by (simp add: three_upstreams_def)

text \<open>A round of the evaluation gives the same selector in whatever order its
  goroutines run: each upstream becomes what its own probe makes of it.  The round only panics if
  \<open>http.NewRequest\<close> rejects a URL.\<close>

theorem nginx_StartEvaluate_order:
  assumes "\<forall>u \<in> set (nwUpstreams ws). probeNewRequest env (probe_url u) = None"
    "distinct ord" "set ord = {..<length (nwUpstreams ws)}"
  shows "nginx_StartEvaluate env ord ws =
    Inr (ws\<lparr>nwUpstreams := map (\<lambda>u. projr (nginx_probe env u)) (nwUpstreams ws)\<rparr>)"
  by (rule nginx_round_full [OF assms])

definition good_env :: probe_env where
  "good_env = \<lparr>probeNewRequest = (\<lambda>u. None),
     probeDo = (\<lambda>u a. Inr \<lparr>StatusCode = 200, respHeader = [], respBody = Inr []\<rparr>),
     probeDecode = (\<lambda>b. Inl ''EOF'')\<rparr>"

theorem nginx_StartEvaluate_order_witness:
  "nginx_StartEvaluate good_env [2, 0, 1] three_upstreams = nginx_StartEvaluate good_env [0, 1, 2] three_upstreams"
proof -
  have "{2, 0, 1} = {..<length (nwUpstreams three_upstreams)}"
    "{0, 1, 2} = {..<length (nwUpstreams three_upstreams)}"
    by (auto simp: three_upstreams_def)
  then show ?thesis
    using nginx_StartEvaluate_order [of three_upstreams good_env "[2, 0, 1]"]
      nginx_StartEvaluate_order [of three_upstreams good_env "[0, 1, 2]"]
    by (simp add: good_env_def)
qed


definition lowered_upstreams :: NginxWRRSelector where
  "lowered_upstreams = \<lparr>nwUpstreams =
     [\<lparr>uType = IETF, URL = ''a'', RequestType = ''application/dns-message'', weight = 50, effectiveWeight = 1, currentWeight = 0\<rparr>,
      \<lparr>uType = Google, URL = ''b'', RequestType = ''application/dns-json'', weight = 50, effectiveWeight = 9, currentWeight = 0\<rparr>],
     nwTimeout = 10000000000\<rparr>"


end
