(* ===== verification/LVS_WRR.thy ===== *)
theory LVS_WRR
  imports Selector_Interface
begin

section \<open>The LVS weighted round robin selector\<close>

text \<open>
  \<open>doh-client/selector/lvsWRRSelector.go\<close>: the operations of \<open>LVSWRRSelector\<close>.  The loops of
  \<open>gcd\<close> and \<open>Get\<close> need not end for every int32 input, so they are partial functions whose value
  \<open>None\<close> means that they do not return; the lemmas show when they do.  \<open>gcd\<close> computes the greatest
  common divisor of positive weights, \<open>Get\<close> returns the next upstream in cyclic order whose
  effective weight reaches the current weight, and the very first \<open>Get\<close> panics exactly when all
  weights are equal.
\<close>

record LVSWRRSelector =
  lsUpstreams :: "upstream list"
  lsTimeout :: int
  lastChoose :: int
  lsCurrentWeight :: int

definition NewLVSWRRSelector :: "int \<Rightarrow> LVSWRRSelector" where
  "NewLVSWRRSelector t = \<lparr>lsUpstreams = [], lsTimeout = t, lastChoose = -1, lsCurrentWeight = 0\<rparr>"

definition lvs_Add :: "string \<Rightarrow> UpstreamType \<Rightarrow> int \<Rightarrow> LVSWRRSelector \<Rightarrow> string + LVSWRRSelector" where
  "lvs_Add url t w ls =
     (if w < 1 then Inl ''weight is 1''
      else case t of
       Google \<Rightarrow> Inr (ls\<lparr>lsUpstreams := lsUpstreams ls @
         [\<lparr>uType = Google, URL = url, RequestType = ''application/dns-json'',
           weight = w, effectiveWeight = w, currentWeight = 0\<rparr>]\<rparr>)
     | IETF \<Rightarrow> Inr (ls\<lparr>lsUpstreams := lsUpstreams ls @
         [\<lparr>uType = IETF, URL = url, RequestType = ''application/dns-message'',
           weight = w, effectiveWeight = w, currentWeight = 0\<rparr>]\<rparr>)
     | OtherType _ \<Rightarrow> Inl ''unknown upstream type'')"

subsection \<open>gcd, gcdWeight and maxWeight\<close>

partial_function (option) lvs_gcd :: "int \<Rightarrow> int \<Rightarrow> (go_panic + int) option" where
  "lvs_gcd x y =
     (let a = (if x < y then y else x); b = (if x < y then x else y)
      in if b = 0 then Some (Inl DivideByZero)
         else if go_rem a b = 0 then Some (Inr b)
         else lvs_gcd (go_rem a b) b)"

declare lvs_gcd.simps [code]

fun gcdWeight_loop :: "int \<Rightarrow> upstream list \<Rightarrow> (go_panic + int) option" where
  "gcdWeight_loop res [] = Some (Inr res)"
| "gcdWeight_loop res (u # us) =
     (case lvs_gcd res (effectiveWeight u) of
        None \<Rightarrow> None
      | Some (Inl p) \<Rightarrow> Some (Inl p)
      | Some (Inr g) \<Rightarrow> gcdWeight_loop g us)"

definition gcdWeight :: "upstream list \<Rightarrow> (go_panic + int) option" where
  "gcdWeight us = (case us of
       [] \<Rightarrow> Some (Inl IndexOutOfRange)
     | u # us' \<Rightarrow> (case lvs_gcd (effectiveWeight u) (effectiveWeight u) of
          None \<Rightarrow> None
        | Some (Inl p) \<Rightarrow> Some (Inl p)
        | Some (Inr g) \<Rightarrow> gcdWeight_loop g us'))"

fun maxWeight_loop :: "int \<Rightarrow> upstream list \<Rightarrow> int" where
  "maxWeight_loop res [] = res"
| "maxWeight_loop res (u # us) =
     maxWeight_loop (if effectiveWeight u > res then effectiveWeight u else res) us"

definition maxWeight :: "upstream list \<Rightarrow> int" where
  "maxWeight us = maxWeight_loop 0 us"

subsection \<open>Get\<close>

text \<open>The body of the loop up to the comparison with the chosen upstream's weight.\<close>

definition lvs_advance :: "LVSWRRSelector \<Rightarrow> (go_panic + LVSWRRSelector) option" where
  "lvs_advance ls =
     (let n = wrap32 (int (length (lsUpstreams ls))) in
      if n = 0 then Some (Inl DivideByZero)
      else let ls1 = ls\<lparr>lastChoose := go_rem (wrap32 (lastChoose ls + 1)) n\<rparr> in
        if lastChoose ls1 = 0 then
          (case gcdWeight (lsUpstreams ls1) of
             None \<Rightarrow> None
           | Some (Inl p) \<Rightarrow> Some (Inl p)
           | Some (Inr g) \<Rightarrow>
               (let ls2 = ls1\<lparr>lsCurrentWeight := wrap32 (lsCurrentWeight ls1 - g)\<rparr> in
                if lsCurrentWeight ls2 \<le> 0 then
                  (let ls3 = ls2\<lparr>lsCurrentWeight := wrap32 (lsCurrentWeight ls2 + maxWeight (lsUpstreams ls2))\<rparr> in
                   if lsCurrentWeight ls3 = 0 then Some (Inl (ExplicitPanic ''current weight is 0''))
                   else Some (Inr ls3))
                else Some (Inr ls2)))
        else Some (Inr ls1))"

partial_function (option) lvs_loop :: "LVSWRRSelector \<Rightarrow> (go_panic + LVSWRRSelector \<times> nat) option" where
  "lvs_loop ls =
     (case lvs_advance ls of
        None \<Rightarrow> None
      | Some (Inl p) \<Rightarrow> Some (Inl p)
      | Some (Inr ls') \<Rightarrow>
          if lastChoose ls' < 0 \<or> int (length (lsUpstreams ls')) \<le> lastChoose ls'
          then Some (Inl IndexOutOfRange)
          else if effectiveWeight (lsUpstreams ls' ! nat (lastChoose ls')) \<ge> lsCurrentWeight ls'
          then Some (Inr (ls', nat (lastChoose ls')))
          else lvs_loop ls')"

declare lvs_loop.simps [code]

definition lvs_Get :: "LVSWRRSelector \<Rightarrow> (go_panic + LVSWRRSelector \<times> nat) option" where
  "lvs_Get ls = (if length (lsUpstreams ls) = 1 then Some (Inr (ls, 0)) else lvs_loop ls)"

subsection \<open>Reports and probes\<close>

definition lvs_status :: "upstreamStatus \<Rightarrow> upstream \<Rightarrow> upstream" where
  "lvs_status st u = (case st of
       Timeout \<Rightarrow> lower_weight 5 u
     | Error \<Rightarrow> lower_weight 2 u
     | OK \<Rightarrow> raise_weight 1 u
     | OtherStatus _ \<Rightarrow> u)"

definition lvs_ReportUpstreamStatus :: "nat \<Rightarrow> upstreamStatus \<Rightarrow> LVSWRRSelector \<Rightarrow> LVSWRRSelector" where
  "lvs_ReportUpstreamStatus i st ls =
     ls\<lparr>lsUpstreams := (lsUpstreams ls)[i := lvs_status st (lsUpstreams ls ! i)]\<rparr>"

definition lvs_checkGoogleResponse ::
  "(bytes \<Rightarrow> string + (string \<rightharpoonup> json_value)) \<Rightarrow> http_response \<Rightarrow> upstream \<Rightarrow> upstream" where
  "lvs_checkGoogleResponse dec resp u =
     (if StatusCode resp \<noteq> StatusOK then lower_weight 3 u
      else case (case respBody resp of Inl e \<Rightarrow> Inl e | Inr b \<Rightarrow> dec b) of
        Inl e \<Rightarrow> lower_weight 2 u
      | Inr m \<Rightarrow> (case m ''Status'' of
            Some (JNumber x) \<Rightarrow> if x = 0 then raise_weight 5 u else lower_weight 2 u
          | _ \<Rightarrow> lower_weight 2 u))"

definition lvs_checkIETFResponse :: "http_response \<Rightarrow> upstream \<Rightarrow> upstream" where
  "lvs_checkIETFResponse resp u =
     (if StatusCode resp \<noteq> StatusOK then lower_weight 3 u else raise_weight 5 u)"

definition lvs_probe :: "probe_env \<Rightarrow> upstream \<Rightarrow> go_panic + upstream" where
  "lvs_probe env u =
     (case probeNewRequest env (probe_url u) of
        Some err \<Rightarrow> Inl (ExplicitPanic (''upstream: '' @ probe_url u @ '' type: '' @
          typeMap (uType u) @ '' check failed: '' @ err))
      | None \<Rightarrow> (case probeDo env (probe_url u) (probe_accept u) of
            Inl err \<Rightarrow> Inr (lower_weight 5 u)
          | Inr resp \<Rightarrow> Inr (case uType u of
                Google \<Rightarrow> lvs_checkGoogleResponse (probeDecode env) resp u
              | IETF \<Rightarrow> lvs_checkIETFResponse resp u
              | OtherType _ \<Rightarrow> u)))"

definition lvs_StartEvaluate :: "probe_env \<Rightarrow> nat list \<Rightarrow> LVSWRRSelector \<Rightarrow> go_panic + LVSWRRSelector" where
  "lvs_StartEvaluate env ord ls =
     (case evaluate_round (lvs_probe env) ord (lsUpstreams ls) of
        Inl p \<Rightarrow> Inl p
      | Inr us \<Rightarrow> Inr (ls\<lparr>lsUpstreams := us\<rparr>))"

definition lvs_ReportWeights :: "LVSWRRSelector \<Rightarrow> string list" where
  "lvs_ReportWeights ls = map weight_line (lsUpstreams ls)"

lemma adjusted_lvs_status: "adjusted u (lvs_status st u)"
  by (cases st) (auto simp: lvs_status_def)

lemma adjusted_lvs_probe: "lvs_probe env u = Inr v \<Longrightarrow> adjusted u v"
  by (auto simp: lvs_probe_def lvs_checkGoogleResponse_def lvs_checkIETFResponse_def
      split: option.splits sum.splits UpstreamType.splits json_value.splits if_splits)

subsection \<open>gcd and the weights' extremes\<close>

lemma lvs_gcd_pos: "0 < x \<Longrightarrow> 0 < y \<Longrightarrow> lvs_gcd x y = Some (Inr (gcd x y))"
proof (induction "nat (x + y)" arbitrary: x y rule: less_induct)
  case less
  define a b where "a = max x y" and "b = min x y"
  have ab: "0 < b" "b \<le> a" "a + b = x + y" "gcd a b = gcd x y"
    using less.prems by (auto simp: a_def b_def max_def min_def gcd.commute)
  have unfold: "lvs_gcd x y = (if a mod b = 0 then Some (Inr b) else lvs_gcd (a mod b) b)"
    using less.prems ab(1) by (subst lvs_gcd.simps) (auto simp: Let_def a_def b_def max_def min_def)
  show ?case
  proof (cases "a mod b = 0")
    case True
    then have "gcd a b = b" using ab(1) by (simp add: gcd_proj2_iff dvd_eq_mod_eq_0)
    then show ?thesis using unfold True ab(4) by simp
  next
    case False
    have pos: "0 < a mod b" using False ab(1) by (simp add: order_less_le)
    have "a mod b < b" using ab(1) by simp
    then have "nat (a mod b + b) < nat (x + y)" using ab pos by linarith
    then have "lvs_gcd (a mod b) b = Some (Inr (gcd (a mod b) b))"
      using less.hyps pos ab(1) by blast
    moreover have "gcd (a mod b) b = gcd a b" by (metis gcd.commute gcd_red_int)
    ultimately show ?thesis using unfold False ab(4) by simp
  qed
qed

definition weights_ok :: "upstream list \<Rightarrow> bool" where
  "weights_ok us \<longleftrightarrow> us \<noteq> [] \<and> (\<forall>u \<in> set us. weight_ok u)"

text \<open>The divisor the first lap computes and the bound it is compared with.\<close>

definition gcd_eff :: "upstream list \<Rightarrow> int" where
  "gcd_eff us = Gcd (effectiveWeight ` set us)"

lemma gcdWeight_loop_eq:
  "0 < g \<Longrightarrow> \<forall>u \<in> set us. weight_ok u \<Longrightarrow>
   gcdWeight_loop g us = Some (Inr (gcd g (Gcd (effectiveWeight ` set us))))"
proof (induction us arbitrary: g)
  case Nil
  then show ?case by simp
next
  case (Cons u us)
  have u: "0 < effectiveWeight u" using Cons.prems by (simp add: weight_ok_def)
  then have "0 < gcd g (effectiveWeight u)" using Cons.prems(1) by simp
  then show ?case
    using Cons.IH Cons.prems lvs_gcd_pos [OF Cons.prems(1) u] by (simp add: gcd.assoc)
qed

lemma gcdWeight_eq: "weights_ok us \<Longrightarrow> gcdWeight us = Some (Inr (gcd_eff us))"
proof (cases us)
  case (Cons u us')
  assume ok: "weights_ok us"
  then have u: "0 < effectiveWeight u" using Cons by (simp add: weights_ok_def weight_ok_def)
  then show ?thesis
    using ok Cons lvs_gcd_pos [OF u u] gcdWeight_loop_eq [OF u]
    by (simp add: gcdWeight_def gcd_eff_def weights_ok_def)
qed (simp add: weights_ok_def)

lemma gcd_eff_dvd: "u \<in> set us \<Longrightarrow> gcd_eff us dvd effectiveWeight u"
  by (simp add: gcd_eff_def)

lemma gcd_eff_bounds:
  assumes "weights_ok us" "u \<in> set us"
  shows "1 \<le> gcd_eff us" "gcd_eff us \<le> effectiveWeight u"
proof -
  have u: "0 < effectiveWeight u" using assms by (auto simp: weights_ok_def weight_ok_def)
  show "gcd_eff us \<le> effectiveWeight u"
    by (rule zdvd_imp_le [OF gcd_eff_dvd [OF assms(2)] u])
  have "gcd_eff us \<noteq> 0" using gcd_eff_dvd [OF assms(2)] u by auto
  moreover have "0 \<le> gcd_eff us" by (simp add: gcd_eff_def)
  ultimately show "1 \<le> gcd_eff us" by simp
qed

lemma maxWeight_loop_ge: "res \<le> maxWeight_loop res us"
  by (induction us arbitrary: res) (auto intro: order.trans less_imp_le)

lemma maxWeight_loop_upper: "u \<in> set us \<Longrightarrow> effectiveWeight u \<le> maxWeight_loop res us"
  by (induction us arbitrary: res)
    (auto intro: order.trans [OF _ maxWeight_loop_ge] split: if_splits)

lemma maxWeight_loop_attained:
  "maxWeight_loop res us = res \<or> (\<exists>u \<in> set us. effectiveWeight u = maxWeight_loop res us)"
proof (induction us arbitrary: res)
  case Nil
  then show ?case by simp
next
  case (Cons u us)
  show ?case using Cons.IH [of "if effectiveWeight u > res then effectiveWeight u else res"]
    by (auto split: if_splits)
qed

lemma maxWeight_facts:
  assumes "weights_ok us"
  shows "\<And>u. u \<in> set us \<Longrightarrow> effectiveWeight u \<le> maxWeight us"
    "\<exists>u \<in> set us. effectiveWeight u = maxWeight us" "maxWeight us < 2147483638"
proof -
  show up: "\<And>u. u \<in> set us \<Longrightarrow> effectiveWeight u \<le> maxWeight us"
    by (simp add: maxWeight_def maxWeight_loop_upper)
  have "maxWeight us \<noteq> 0"
    using up assms by (cases us) (fastforce simp: weights_ok_def weight_ok_def)+
  then show att: "\<exists>u \<in> set us. effectiveWeight u = maxWeight us"
    using maxWeight_loop_attained [of 0 us] by (simp add: maxWeight_def)
  then show "maxWeight us < 2147483638" using assms by (auto simp: weights_ok_def weight_ok_def)
qed

lemma gcd_eff_le_max:
  assumes "weights_ok us"
  shows "1 \<le> gcd_eff us" "gcd_eff us \<le> maxWeight us"
  using maxWeight_facts(2) [OF assms] gcd_eff_bounds [OF assms] by fastforce+

lemma gcd_eff_eq_max_iff:
  assumes "weights_ok us"
  shows "gcd_eff us = maxWeight us \<longleftrightarrow> (\<forall>u \<in> set us. \<forall>v \<in> set us. effectiveWeight u = effectiveWeight v)"
proof
  assume "gcd_eff us = maxWeight us"
  then show "\<forall>u \<in> set us. \<forall>v \<in> set us. effectiveWeight u = effectiveWeight v"
    using gcd_eff_bounds(2) [OF assms] maxWeight_facts(1) [OF assms] by (metis antisym)
next
  assume eq: "\<forall>u \<in> set us. \<forall>v \<in> set us. effectiveWeight u = effectiveWeight v"
  obtain m where m: "m \<in> set us" "effectiveWeight m = maxWeight us"
    using maxWeight_facts(2) [OF assms] by blast
  have "\<forall>u \<in> set us. effectiveWeight u = maxWeight us" using eq m by metis
  then have "effectiveWeight ` set us = {maxWeight us}" using m(1) by force
  moreover have "0 \<le> maxWeight us" using gcd_eff_le_max [OF assms] by simp
  ultimately show "gcd_eff us = maxWeight us" by (simp add: gcd_eff_def)
qed

subsection \<open>What the loop of Get computes\<close>

text \<open>
  \<open>next_from\<close> is the next upstream at or after position \<open>k\<close> whose effective weight reaches \<open>c\<close>, and
  \<open>next_weight\<close> the current weight of the next lap.
\<close>

definition next_from :: "upstream list \<Rightarrow> int \<Rightarrow> nat \<Rightarrow> nat option" where
  "next_from us c k = find (\<lambda>j. c \<le> effectiveWeight (us ! j)) [k..<length us]"

definition next_weight :: "upstream list \<Rightarrow> int \<Rightarrow> int" where
  "next_weight us c = (if c - gcd_eff us \<le> 0 then c - gcd_eff us + maxWeight us else c - gcd_eff us)"

lemma next_from_Suc:
  "k < length us \<Longrightarrow> next_from us c k =
     (if c \<le> effectiveWeight (us ! k) then Some k else next_from us c (Suc k))"
  by (simp add: next_from_def upt_conv_Cons)

lemma next_from_end [simp]: "next_from us c (length us) = None"
  by (simp add: next_from_def)

lemma next_from_SomeD: "next_from us c k = Some j \<Longrightarrow> k \<le> j \<and> j < length us \<and> c \<le> effectiveWeight (us ! j)"
  by (auto simp: next_from_def find_Some_iff)

lemma next_from_0_None:
  assumes "weights_ok us"
  shows "next_from us c 0 = None \<longleftrightarrow> maxWeight us < c"
proof -
  obtain m where m: "m < length us" "effectiveWeight (us ! m) = maxWeight us"
    using maxWeight_facts(2) [OF assms] by (metis in_set_conv_nth)
  have "\<forall>j < length us. effectiveWeight (us ! j) \<le> maxWeight us"
    using maxWeight_facts(1) [OF assms] by simp
  then show ?thesis using m by (force simp: next_from_def find_None_iff not_le)
qed

lemma next_weight_bounds:
  assumes "weights_ok us" "1 \<le> c"
  shows "1 \<le> next_weight us c" "maxWeight us < next_weight us c \<Longrightarrow> next_weight us c < c"
    "next_weight us c \<le> max c (maxWeight us)"
  using gcd_eff_le_max [OF assms(1)] assms(2) by (auto simp: next_weight_def max_def split: if_splits)

lemma wrap32_length: "length us < 2147483648 \<Longrightarrow> wrap32 (int (length us)) = int (length us)"
  by (intro wrap32_id) (simp add: in32_def)

lemma lvs_advance_inner:
  assumes "length (lsUpstreams ls) < 2147483648" "0 \<le> lastChoose ls"
    "lastChoose ls + 1 < int (length (lsUpstreams ls))"
  shows "lvs_advance ls = Some (Inr (ls\<lparr>lastChoose := lastChoose ls + 1\<rparr>))"
proof -
  have "wrap32 (lastChoose ls + 1) = lastChoose ls + 1"
    using assms by (intro wrap32_id) (simp add: in32_def)
  moreover have "lsUpstreams ls \<noteq> []" using assms by auto
  ultimately show ?thesis using assms by (simp add: lvs_advance_def Let_def wrap32_length)
qed

definition at_end :: "LVSWRRSelector \<Rightarrow> bool" where
  "at_end ls \<longleftrightarrow> lastChoose ls = -1 \<or> lastChoose ls = int (length (lsUpstreams ls)) - 1"

lemma lvs_advance_wrap:
  assumes ok: "weights_ok (lsUpstreams ls)" and n: "length (lsUpstreams ls) < 2147483648"
    and e: "at_end ls" and c: "0 \<le> lsCurrentWeight ls" "lsCurrentWeight ls < 2147483648"
  shows "lvs_advance ls =
    (if next_weight (lsUpstreams ls) (lsCurrentWeight ls) = 0
     then Some (Inl (ExplicitPanic ''current weight is 0''))
     else Some (Inr (ls\<lparr>lastChoose := 0, lsCurrentWeight := next_weight (lsUpstreams ls) (lsCurrentWeight ls)\<rparr>)))"
proof -
  let ?us = "lsUpstreams ls" and ?c = "lsCurrentWeight ls"
  let ?g = "gcd_eff ?us" and ?m = "maxWeight ?us"
  have ne: "?us \<noteq> []" using ok by (simp add: weights_ok_def)
  have gm: "1 \<le> ?g" "?g \<le> ?m" "?m < 2147483638"
    using gcd_eff_le_max [OF ok] maxWeight_facts(3) [OF ok] by auto
  have last: "go_rem (wrap32 (lastChoose ls + 1)) (wrap32 (int (length ?us))) = 0"
  proof -
    have "wrap32 (lastChoose ls + 1) = lastChoose ls + 1"
      using e n by (intro wrap32_id) (auto simp: at_end_def in32_def)
    then show ?thesis using e ne n by (auto simp: at_end_def wrap32_length)
  qed
  have "wrap32 (?c - ?g) = ?c - ?g" using c gm by (intro wrap32_id) (simp add: in32_def)
  moreover have "wrap32 (?c - ?g + ?m) = ?c - ?g + ?m" if "?c - ?g \<le> 0"
    using c gm that by (intro wrap32_id) (simp add: in32_def)
  ultimately show ?thesis
    using last gcdWeight_eq [OF ok] n ne
    by (auto simp: lvs_advance_def Let_def next_weight_def wrap32_length)
qed

lemma lvs_lap:
  assumes "length (lsUpstreams ls) < 2147483648" "1 \<le> k" "k \<le> length (lsUpstreams ls)"
    "lastChoose ls = int k - 1"
  shows "lvs_loop ls = (case next_from (lsUpstreams ls) (lsCurrentWeight ls) k of
      Some j \<Rightarrow> Some (Inr (ls\<lparr>lastChoose := int j\<rparr>, j))
    | None \<Rightarrow> lvs_loop (ls\<lparr>lastChoose := int (length (lsUpstreams ls)) - 1\<rparr>))"
  using assms
proof (induction "length (lsUpstreams ls) - k" arbitrary: k ls)
  case 0
  then have "k = length (lsUpstreams ls)" "ls\<lparr>lastChoose := int (length (lsUpstreams ls)) - 1\<rparr> = ls" by simp_all
  then show ?case by simp
next
  case (Suc m)
  let ?ls = "ls\<lparr>lastChoose := int k\<rparr>"
  have k: "k < length (lsUpstreams ls)" using Suc.hyps(2) by simp
  have "lvs_advance ls = Some (Inr ?ls)"
    using lvs_advance_inner [of ls] Suc.prems k by simp
  then have step: "lvs_loop ls = (if lsCurrentWeight ls \<le> effectiveWeight (lsUpstreams ls ! k)
      then Some (Inr (?ls, k)) else lvs_loop ?ls)"
    using k by (subst lvs_loop.simps) simp
  show ?case
  proof (cases "lsCurrentWeight ls \<le> effectiveWeight (lsUpstreams ls ! k)")
    case True
    then show ?thesis using step k by (simp add: next_from_Suc)
  next
    case False
    have "lvs_loop ?ls = (case next_from (lsUpstreams ls) (lsCurrentWeight ls) (Suc k) of
        Some j \<Rightarrow> Some (Inr (ls\<lparr>lastChoose := int j\<rparr>, j))
      | None \<Rightarrow> lvs_loop (ls\<lparr>lastChoose := int (length (lsUpstreams ls)) - 1\<rparr>))"
    proof -
      have "m = length (lsUpstreams ?ls) - Suc k" using Suc.hyps(2) by simp
      from Suc.hyps(1) [OF this] show ?thesis using Suc.prems k by (simp split: option.split)
    qed
    then show ?thesis using step False k by (simp add: next_from_Suc)
  qed
qed

lemma cursor_order:
  "ls\<lparr>lsCurrentWeight := c, lastChoose := b\<rparr> = ls\<lparr>lastChoose := b, lsCurrentWeight := c\<rparr>"
  by simp

lemma lvs_new_lap:
  assumes ok: "weights_ok (lsUpstreams ls)" and n: "length (lsUpstreams ls) < 2147483648"
    and e: "at_end ls" and c: "0 \<le> lsCurrentWeight ls" "lsCurrentWeight ls < 2147483648"
    and c': "c' = next_weight (lsUpstreams ls) (lsCurrentWeight ls)" "c' \<noteq> 0"
  shows "lvs_loop ls = (case next_from (lsUpstreams ls) c' 0 of
      Some j \<Rightarrow> Some (Inr (ls\<lparr>lastChoose := int j, lsCurrentWeight := c'\<rparr>, j))
    | None \<Rightarrow> lvs_loop (ls\<lparr>lastChoose := int (length (lsUpstreams ls)) - 1, lsCurrentWeight := c'\<rparr>))"
proof -
  let ?ls = "ls\<lparr>lastChoose := 0, lsCurrentWeight := c'\<rparr>"
  have ne: "0 < length (lsUpstreams ls)" using ok by (simp add: weights_ok_def)
  have "lvs_advance ls = Some (Inr ?ls)" using lvs_advance_wrap [OF ok n e c] c' by simp
  then have step: "lvs_loop ls = (if c' \<le> effectiveWeight (lsUpstreams ls ! 0) then Some (Inr (?ls, 0)) else lvs_loop ?ls)"
    using ne by (subst lvs_loop.simps) simp
  then show ?thesis
    using lvs_lap [of ?ls 1] n ne by (simp add: next_from_Suc [OF ne] cursor_order split: option.split)
qed

subsection \<open>Get returns\<close>

definition lvs_inv :: "LVSWRRSelector \<Rightarrow> bool" where
  "lvs_inv ls \<longleftrightarrow> weights_ok (lsUpstreams ls) \<and> length (lsUpstreams ls) < 2147483648
     \<and> (length (lsUpstreams ls) = 1 \<or>
        1 \<le> lsCurrentWeight ls \<and> lsCurrentWeight ls < 2147483648
        \<and> -1 \<le> lastChoose ls \<and> lastChoose ls < int (length (lsUpstreams ls)))"

text \<open>The outcome of a \<open>Get\<close> that finds an upstream: only the two cursors have moved.\<close>

definition lvs_picked :: "LVSWRRSelector \<Rightarrow> LVSWRRSelector \<Rightarrow> nat \<Rightarrow> bool" where
  "lvs_picked ls ls' j \<longleftrightarrow> (\<exists>c. ls' = ls\<lparr>lastChoose := int j, lsCurrentWeight := c\<rparr>
     \<and> j < length (lsUpstreams ls) \<and> 1 \<le> c \<and> c \<le> effectiveWeight (lsUpstreams ls ! j))"

lemma lvs_loop_at_end:
  assumes "weights_ok (lsUpstreams ls)" "length (lsUpstreams ls) < 2147483648" "at_end ls"
    "1 \<le> lsCurrentWeight ls" "lsCurrentWeight ls < 2147483648"
  shows "\<exists>ls' j. lvs_loop ls = Some (Inr (ls', j)) \<and> lvs_picked ls ls' j"
  using assms
proof (induction "nat (lsCurrentWeight ls)" arbitrary: ls rule: less_induct)
  case less
  let ?us = "lsUpstreams ls" and ?c = "next_weight (lsUpstreams ls) (lsCurrentWeight ls)"
  let ?ls = "ls\<lparr>lastChoose := int (length ?us) - 1, lsCurrentWeight := ?c\<rparr>"
  note nw = next_weight_bounds [OF less.prems(1,4)]
  have loop: "lvs_loop ls = (case next_from ?us ?c 0 of
      Some j \<Rightarrow> Some (Inr (ls\<lparr>lastChoose := int j, lsCurrentWeight := ?c\<rparr>, j))
    | None \<Rightarrow> lvs_loop ?ls)"
    using less.prems nw(1) by (intro lvs_new_lap) auto
  show ?case
  proof (cases "next_from ?us ?c 0")
    case (Some j)
    then show ?thesis using loop next_from_SomeD [OF Some] nw(1) by (auto simp: lvs_picked_def)
  next
    case None
    then have "?c < lsCurrentWeight ls" using nw(2) next_from_0_None [OF less.prems(1)] by simp
    then have "\<exists>ls' j. lvs_loop ?ls = Some (Inr (ls', j)) \<and> lvs_picked ?ls ls' j"
      using less.prems nw(1) by (intro less.hyps) (auto simp: at_end_def)
    then show ?thesis using loop None by (fastforce simp: lvs_picked_def)
  qed
qed

lemma lvs_loop_returns:
  assumes "lvs_inv ls" "length (lsUpstreams ls) \<noteq> 1"
  shows "\<exists>ls' j. lvs_loop ls = Some (Inr (ls', j)) \<and> lvs_picked ls ls' j"
proof (cases "at_end ls")
  case True
  then show ?thesis using assms by (intro lvs_loop_at_end) (auto simp: lvs_inv_def)
next
  case False
  let ?us = "lsUpstreams ls" and ?k = "nat (lastChoose ls + 1)"
  let ?ls = "ls\<lparr>lastChoose := int (length ?us) - 1\<rparr>"
  have last: "0 \<le> lastChoose ls" "lastChoose ls < int (length ?us)"
    using assms False by (auto simp: lvs_inv_def at_end_def)
  have loop: "lvs_loop ls = (case next_from ?us (lsCurrentWeight ls) ?k of
      Some j \<Rightarrow> Some (Inr (ls\<lparr>lastChoose := int j\<rparr>, j)) | None \<Rightarrow> lvs_loop ?ls)"
    using assms last by (intro lvs_lap) (auto simp: lvs_inv_def)
  show ?thesis
  proof (cases "next_from ?us (lsCurrentWeight ls) ?k")
    case (Some j)
    have "lvs_picked ls (ls\<lparr>lastChoose := int j\<rparr>) j"
      unfolding lvs_picked_def using assms next_from_SomeD [OF Some]
      by (intro exI [of _ "lsCurrentWeight ls"]) (auto simp: lvs_inv_def)
    then show ?thesis using loop Some by simp
  next
    case None
    have "\<exists>ls' j. lvs_loop ?ls = Some (Inr (ls', j)) \<and> lvs_picked ?ls ls' j"
      using assms by (intro lvs_loop_at_end) (auto simp: lvs_inv_def at_end_def)
    then show ?thesis using loop None by (fastforce simp: lvs_picked_def)
  qed
qed

lemma lvs_Get_cases:
  assumes "lvs_inv ls"
  obtains ls' j where "lvs_Get ls = Some (Inr (ls', j))" "j < length (lsUpstreams ls)"
    "lsUpstreams ls' = lsUpstreams ls" "lvs_inv ls'"
proof (cases "length (lsUpstreams ls) = 1")
  case True
  then have "lvs_Get ls = Some (Inr (ls, 0))" "0 < length (lsUpstreams ls)" by (simp_all add: lvs_Get_def)
  then show ?thesis using assms by (blast intro: that)
next
  case False
  obtain ls' j where l: "lvs_loop ls = Some (Inr (ls', j))" "lvs_picked ls ls' j"
    using lvs_loop_returns [OF assms False] by blast
  then obtain c where c: "ls' = ls\<lparr>lastChoose := int j, lsCurrentWeight := c\<rparr>"
    "j < length (lsUpstreams ls)" "1 \<le> c" "c \<le> effectiveWeight (lsUpstreams ls ! j)"
    unfolding lvs_picked_def by blast
  have "weight_ok (lsUpstreams ls ! j)" using assms c(2) by (simp add: lvs_inv_def weights_ok_def)
  then have "c < 2147483648" using c(4) by (simp add: weight_ok_def)
  then have "lvs_inv ls'" using assms c unfolding lvs_inv_def by simp
  moreover have "lvs_Get ls = Some (Inr (ls', j))" using l(1) False by (simp add: lvs_Get_def)
  moreover have "lsUpstreams ls' = lsUpstreams ls" using c(1) by simp
  ultimately show ?thesis using c(2) by (blast intro: that)
qed

lemma lvs_GetD:
  assumes "lvs_inv ls" "lvs_Get ls = Some (Inr (ls', j))"
  shows "j < length (lsUpstreams ls)" "lvs_inv ls'" "lsUpstreams ls' = lsUpstreams ls"
    "map upstream_id (lsUpstreams ls') = map upstream_id (lsUpstreams ls)"
proof -
  obtain ls1 j1 where "lvs_Get ls = Some (Inr (ls1, j1))" "j1 < length (lsUpstreams ls)"
    "lsUpstreams ls1 = lsUpstreams ls" "lvs_inv ls1"
    by (rule lvs_Get_cases [OF assms(1)])
  with assms(2) show "j < length (lsUpstreams ls)" "lvs_inv ls'" "lsUpstreams ls' = lsUpstreams ls"
    "map upstream_id (lsUpstreams ls') = map upstream_id (lsUpstreams ls)"
    by simp_all
qed

subsection \<open>The selector laws\<close>

lemma lvs_inv_upstreams:
  assumes "lvs_inv ls" "length us = length (lsUpstreams ls)" "\<forall>u \<in> set us. weight_ok u"
  shows "lvs_inv (ls\<lparr>lsUpstreams := us\<rparr>)"
  using assms by (auto simp: lvs_inv_def weights_ok_def)

lemma lvs_inv_evaluate:
  assumes "lvs_inv ls" "set ord \<subseteq> {..<length (lsUpstreams ls)}" "lvs_StartEvaluate e ord ls = Inr ls'"
  shows "lvs_inv ls'" "map upstream_id (lsUpstreams ls') = map upstream_id (lsUpstreams ls)"
proof -
  obtain us where us: "evaluate_round (lvs_probe e) ord (lsUpstreams ls) = Inr us" "ls' = ls\<lparr>lsUpstreams := us\<rparr>"
    using assms(3) by (auto simp: lvs_StartEvaluate_def split: sum.splits)
  have "upstream_id v = upstream_id u \<and> (weight_ok u \<longrightarrow> weight_ok v)" if "lvs_probe e u = Inr v" for u v
    using adjusted_lvs_probe [OF that] by (simp add: adjustedD)
  then have "map upstream_id us = map upstream_id (lsUpstreams ls) \<and> (\<forall>u \<in> set us. weight_ok u)"
    using assms(1) by (intro evaluate_round_invariant [OF us(1) assms(2)]) (auto simp: lvs_inv_def weights_ok_def)
  then show "lvs_inv ls'" "map upstream_id (lsUpstreams ls') = map upstream_id (lsUpstreams ls)"
    using us(2) lvs_inv_upstreams [OF assms(1) evaluate_round_length [OF us(1)]] by auto
qed

lemma lvs_inv_report:
  assumes "lvs_inv ls" "i < length (lsUpstreams ls)"
  shows "lvs_inv (lvs_ReportUpstreamStatus i st ls)"
  unfolding lvs_ReportUpstreamStatus_def
  using assms adjustedD(3) [OF adjusted_lvs_status, of "lsUpstreams ls ! i" st]
  by (intro lvs_inv_upstreams [OF assms(1)])
    (auto simp: lvs_inv_def weights_ok_def dest!: set_update_subset_insert [THEN subsetD])

interpretation lvs: selector "\<lambda>r s. lvs_Get s" lvs_ReportUpstreamStatus
  lvs_StartEvaluate lsUpstreams lvs_inv
proof unfold_locales
  fix s r s' i st ord e
  show "\<exists>s' i. lvs_Get s = Some (Inr (s', i))" if "lvs_inv s"
    by (rule lvs_Get_cases [OF that]) blast
  show "i < length (lsUpstreams s)" "map upstream_id (lsUpstreams s') = map upstream_id (lsUpstreams s)" "lvs_inv s'"
    if "lvs_inv s" "lvs_Get s = Some (Inr (s', i))"
    by (rule lvs_GetD [OF that])+
  show "lvs_inv (lvs_ReportUpstreamStatus i st s)" if "lvs_inv s" "i < length (lsUpstreams s)"
    by (rule lvs_inv_report [OF that])
  show "map upstream_id (lsUpstreams (lvs_ReportUpstreamStatus i st s)) = map upstream_id (lsUpstreams s)"
    by (simp add: lvs_ReportUpstreamStatus_def map_update_same adjustedD(1) [OF adjusted_lvs_status])
  show "lvs_inv s'" "map upstream_id (lsUpstreams s') = map upstream_id (lsUpstreams s)"
    if "lvs_inv s" "set ord \<subseteq> {..<length (lsUpstreams s)}" "lvs_StartEvaluate e ord s = Inr s'"
    by (rule lvs_inv_evaluate [OF that])+
qed

subsection \<open>Properties\<close>


definition two_upstreams :: "int \<Rightarrow> int \<Rightarrow> LVSWRRSelector" where
  "two_upstreams v w = \<lparr>lsUpstreams =
     [\<lparr>uType = IETF, URL = ''a'', RequestType = ''application/dns-message'', weight = v, effectiveWeight = v, currentWeight = 0\<rparr>,
      \<lparr>uType = IETF, URL = ''b'', RequestType = ''application/dns-message'', weight = w, effectiveWeight = w, currentWeight = 0\<rparr>],
     lsTimeout = 10000000000, lastChoose = -1, lsCurrentWeight = 0\<rparr>"


text \<open>Property C33.  \<open>Get\<close> on two or more upstreams returns the next upstream after the last choice
  whose effective weight reaches the current weight; if none is left in the lap and the weight of
  the next lap is within reach of some upstream, it returns the first such upstream of the next lap
  and has lowered the current weight by the divisor (or started again from the maximum).\<close>

theorem lvs_Get_next:
  assumes "lvs_inv ls" "2 \<le> length (lsUpstreams ls)" "0 \<le> lastChoose ls"
  shows "case next_from (lsUpstreams ls) (lsCurrentWeight ls) (nat (lastChoose ls + 1)) of
      Some j \<Rightarrow> lvs_Get ls = Some (Inr (ls\<lparr>lastChoose := int j\<rparr>, j))
    | None \<Rightarrow> (case next_from (lsUpstreams ls) (next_weight (lsUpstreams ls) (lsCurrentWeight ls)) 0 of
          Some j \<Rightarrow> lvs_Get ls = Some (Inr (ls\<lparr>lastChoose := int j,
            lsCurrentWeight := next_weight (lsUpstreams ls) (lsCurrentWeight ls)\<rparr>, j))
        | None \<Rightarrow> maxWeight (lsUpstreams ls) < next_weight (lsUpstreams ls) (lsCurrentWeight ls))"
proof -
  let ?us = "lsUpstreams ls" and ?c = "lsCurrentWeight ls"
  let ?ls = "ls\<lparr>lastChoose := int (length ?us) - 1\<rparr>"
  have inv: "weights_ok ?us" "length ?us < 2147483648" "1 \<le> ?c" "?c < 2147483648"
    "lastChoose ls < int (length ?us)"
    using assms(1,2) by (auto simp: lvs_inv_def)
  have get: "lvs_Get ls = lvs_loop ls" using assms(2) by (simp add: lvs_Get_def)
  have lap: "lvs_loop ls = (case next_from ?us ?c (nat (lastChoose ls + 1)) of
      Some j \<Rightarrow> Some (Inr (ls\<lparr>lastChoose := int j\<rparr>, j)) | None \<Rightarrow> lvs_loop ?ls)"
    using inv assms(3) by (intro lvs_lap) auto
  have new: "lvs_loop ?ls = Some (Inr (ls\<lparr>lastChoose := int j, lsCurrentWeight := next_weight ?us ?c\<rparr>, j))"
    if "next_from ?us (next_weight ?us ?c) 0 = Some j" for j
    using lvs_new_lap [of ?ls "next_weight ?us ?c"] next_weight_bounds(1) [OF inv(1,3)] inv that
    by (simp add: at_end_def)
  show ?thesis using get lap new next_from_0_None [OF inv(1)] by (auto split: option.split)
qed

theorem lvs_Get_next_witness:
  "lvs_Get (two_upstreams 50 20\<lparr>lastChoose := 0, lsCurrentWeight := 20\<rparr>) =
     Some (Inr (two_upstreams 50 20\<lparr>lastChoose := 1, lsCurrentWeight := 20\<rparr>, 1))"
  using lvs_Get_next [of "two_upstreams 50 20\<lparr>lastChoose := 0, lsCurrentWeight := 20\<rparr>"]
  by (simp add: two_upstreams_def lvs_inv_def weights_ok_def weight_ok_def next_from_def upt_rec)

text \<open>The loop of \<open>gcd\<close> ends for positive arguments and returns their greatest
  common divisor.\<close>

theorem lvs_gcd_correct: "0 < x \<Longrightarrow> 0 < y \<Longrightarrow> lvs_gcd x y = Some (Inr (gcd x y))"
  by (rule lvs_gcd_pos)

theorem lvs_gcd_correct_witness: "lvs_gcd 50 20 = Some (Inr (gcd 50 20))"
  using lvs_gcd_correct [of 50 20] by simp

text \<open>The loop of \<open>gcd\<close> does not end when the second argument is negative and its
  magnitude exceeds the first: the weights it reads must be positive, as an effective weight read
  between the \<open>AddInt32\<close> and the \<open>StoreInt32\<close> of a report need not be.\<close>

theorem lvs_gcd_diverges:
  assumes "0 < x" "x < - y"
  shows "lvs_gcd x y = None"
proof (rule ccontr)
  assume "lvs_gcd x y \<noteq> None"
  then obtain r where r: "lvs_gcd x y = Some r" by blast
  have "0 < x \<longrightarrow> \<not> x < - y"
  proof (rule lvs_gcd.raw_induct [where P = "\<lambda>x y r. \<not> (0 < x \<and> x < - y)" and xa = "(x, y)" and ya = r, simplified])
    fix f x y r
    assume IH: "\<And>x y r. f x y = Some r \<Longrightarrow> 0 < x \<longrightarrow> \<not> x < - y"
      and eq: "(let a = (if x < y then y else x); b = (if x < y then x else y)
        in if b = 0 then Some (Inl DivideByZero) else if go_rem a b = 0 then Some (Inr b)
           else f (go_rem a b) b) = Some r"
    show "0 < x \<longrightarrow> \<not> x < - y"
    proof (intro impI notI)
      assume xy: "0 < x" "x < - y"
      then have "go_rem x y = x" by (simp add: go_rem_def)
      then show False using eq IH xy by (auto simp: Let_def split: if_splits)
    qed
  qed (rule r)
  then show False using assms by simp
qed

theorem lvs_gcd_diverges_witness: "lvs_gcd 1 (-4) = None"
  using lvs_gcd_diverges [of 1 "-4"] by simp

text \<open>After the first choice the client can serve any number of queries with this
  selector: every \<open>Get\<close> ends, never panics and returns an upstream of the selector.\<close>

theorem lvs_serve_total:
  assumes "lvs_inv ls"
  shows "\<exists>ls' is. serve (\<lambda>r s. lvs_Get s) lvs_ReportUpstreamStatus qs ls = Some (Inr (ls', is))
    \<and> length is = length qs \<and> set is \<subseteq> {..<length (lsUpstreams ls)} \<and> lvs_inv ls'
    \<and> map upstream_id (lsUpstreams ls') = map upstream_id (lsUpstreams ls)"
  by (rule lvs.serve_total [OF assms])

theorem lvs_serve_total_witness:
  "\<exists>ls' is. serve (\<lambda>r s. lvs_Get s) lvs_ReportUpstreamStatus [(0, Some Timeout), (0, Some Error), (0, None)]
      (two_upstreams 50 50\<lparr>lastChoose := 0, lsCurrentWeight := 30\<rparr>) = Some (Inr (ls', is))
    \<and> length is = 3"
proof -
  have "lvs_inv (two_upstreams 50 50\<lparr>lastChoose := 0, lsCurrentWeight := 30\<rparr>)"
    by (simp add: two_upstreams_def lvs_inv_def weights_ok_def weight_ok_def)
  from lvs_serve_total [OF this, of "[(0, Some Timeout), (0, Some Error), (0, None)]"]
  show ?thesis by auto
qed

end
