(* ===== verification/Client_Selector.thy ===== *)
theory Client_Selector
  imports Client_Config Random_Selector Nginx_WRR LVS_WRR
begin

section \<open>The selector of the client\<close>

text \<open>
  The field \<open>selector\<close> of the client holds one of the three selectors behind the interface; here it is
  a datatype and the methods of the interface are dispatched on it.  \<open>new_selector\<close> is the switch of
  \<open>NewClient\<close> that builds it from the configuration.  The interpretation shows that the dispatched
  methods keep the laws of the interface, whichever selector was configured.
\<close>

datatype client_selector = RandomSel RandomSelector | NginxSel NginxWRRSelector | LVSSel LVSWRRSelector

definition selector_Get :: "nat \<Rightarrow> client_selector \<Rightarrow> (go_panic + client_selector \<times> nat) option" where
  "selector_Get r s = (case s of
       RandomSel rs \<Rightarrow> Some (map_sum id (apfst RandomSel) (random_Get r rs))
     | NginxSel ws \<Rightarrow> Some (map_sum id (apfst NginxSel) (nginx_Get ws))
     | LVSSel ls \<Rightarrow> map_option (map_sum id (apfst LVSSel)) (lvs_Get ls))"

definition selector_Report :: "nat \<Rightarrow> upstreamStatus \<Rightarrow> client_selector \<Rightarrow> client_selector" where
  "selector_Report i st s = (case s of
       RandomSel rs \<Rightarrow> RandomSel (random_ReportUpstreamStatus i st rs)
     | NginxSel ws \<Rightarrow> NginxSel (nginx_ReportUpstreamStatus i st ws)
     | LVSSel ls \<Rightarrow> LVSSel (lvs_ReportUpstreamStatus i st ls))"

definition selector_StartEvaluate :: "probe_env \<Rightarrow> nat list \<Rightarrow> client_selector \<Rightarrow> go_panic + client_selector" where
  "selector_StartEvaluate e ord s = (case s of
       RandomSel rs \<Rightarrow> map_sum id RandomSel (random_StartEvaluate e ord rs)
     | NginxSel ws \<Rightarrow> map_sum id NginxSel (nginx_StartEvaluate e ord ws)
     | LVSSel ls \<Rightarrow> map_sum id LVSSel (lvs_StartEvaluate e ord ls))"

text \<open>The interface \<open>DebugReporter\<close>: the random selector does not implement it.\<close>

definition selector_ReportWeights :: "client_selector \<Rightarrow> string list option" where
  "selector_ReportWeights s = (case s of
       RandomSel rs \<Rightarrow> None
     | NginxSel ws \<Rightarrow> Some (nginx_ReportWeights ws)
     | LVSSel ls \<Rightarrow> Some (lvs_ReportWeights ls))"

definition selector_upstreams :: "client_selector \<Rightarrow> upstream list" where
  "selector_upstreams s = (case s of
       RandomSel rs \<Rightarrow> rsUpstreams rs | NginxSel ws \<Rightarrow> nwUpstreams ws | LVSSel ls \<Rightarrow> lsUpstreams ls)"

definition selector_inv :: "client_selector \<Rightarrow> bool" where
  "selector_inv s = (case s of
       RandomSel rs \<Rightarrow> random_inv rs | NginxSel ws \<Rightarrow> nginx_inv ws | LVSSel ls \<Rightarrow> lvs_inv ls)"

subsection \<open>Building the selector\<close>

fun add_upstreams ::
  "(string \<Rightarrow> UpstreamType \<Rightarrow> int \<Rightarrow> 's \<Rightarrow> string + 's) \<Rightarrow> UpstreamType \<Rightarrow> upstreamDetail list \<Rightarrow> 's \<Rightarrow> string + 's" where
  "add_upstreams add t [] s = Inr s"
| "add_upstreams add t (u # us) s =
     (case add (udURL u) t (udWeight u) s of
        Inl err \<Rightarrow> Inl err
      | Inr s' \<Rightarrow> add_upstreams add t us s')"

definition add_configured ::
  "(string \<Rightarrow> UpstreamType \<Rightarrow> int \<Rightarrow> 's \<Rightarrow> string + 's) \<Rightarrow> Config \<Rightarrow> 's \<Rightarrow> string + 's" where
  "add_configured add conf s =
     (case add_upstreams add Google (UpstreamGoogle (confUpstream conf)) s of
        Inl err \<Rightarrow> Inl err
      | Inr s' \<Rightarrow> add_upstreams add IETF (UpstreamIETF (confUpstream conf)) s')"

definition new_selector :: "Config \<Rightarrow> string + client_selector" where
  "new_selector conf =
     (if UpstreamSelector (confUpstream conf) = NginxWRR
      then map_sum id NginxSel (add_configured nginx_Add conf (NewNginxWRRSelector (timeout_duration conf)))
      else if UpstreamSelector (confUpstream conf) = LVSWRR
      then map_sum id LVSSel (add_configured lvs_Add conf (NewLVSWRRSelector (timeout_duration conf)))
      else map_sum id RandomSel (add_configured (\<lambda>url t w. random_Add url t) conf NewRandomSelector))"

subsection \<open>Facts\<close>

lemmas selector_ops =
  selector_Get_def selector_Report_def selector_StartEvaluate_def selector_upstreams_def selector_inv_def

interpretation sel: selector selector_Get selector_Report selector_StartEvaluate selector_upstreams selector_inv
proof unfold_locales
  fix s r
  assume inv: "selector_inv s"
  show "\<exists>s' i. selector_Get r s = Some (Inr (s', i))"
  proof (cases s)
    case (RandomSel rs)
    then show ?thesis using inv random.get_returns [of rs r] by (auto simp: selector_ops)
  next
    case (NginxSel ws)
    then show ?thesis using inv nginx.get_returns [of ws] by (auto simp: selector_ops)
  next
    case (LVSSel ls)
    then show ?thesis using inv lvs.get_returns [of ls] by (auto simp: selector_ops)
  qed
next
  fix s r s' i
  assume inv: "selector_inv s" and g: "selector_Get r s = Some (Inr (s', i))"
  have "i < length (selector_upstreams s) \<and> selector_inv s' \<and>
    map upstream_id (selector_upstreams s') = map upstream_id (selector_upstreams s)"
  proof (cases s)
    case (RandomSel rs)
    then obtain rs' where "random_Get r rs = Inr (rs', i)" "s' = RandomSel rs'"
      using g by (cases "random_Get r rs") (auto simp: selector_ops)
    then show ?thesis using RandomSel inv random.get_range [of rs r rs' i] random.get_invar [of rs r rs' i] random.get_ids [of rs r rs' i]
      by (simp add: selector_ops)
  next
    case (NginxSel ws)
    then obtain ws' where "nginx_Get ws = Inr (ws', i)" "s' = NginxSel ws'"
      using g by (cases "nginx_Get ws") (auto simp: selector_ops)
    then show ?thesis using NginxSel inv nginx.get_range [of ws ws' i] nginx.get_invar [of ws ws' i] nginx.get_ids [of ws ws' i]
      by (simp add: selector_ops)
  next
    case (LVSSel ls)
    then obtain x where x: "lvs_Get ls = Some x" "map_sum id (apfst LVSSel) x = Inr (s', i)"
      using g by (auto simp: selector_ops)
    then obtain ls' where "x = Inr (ls', i)" "s' = LVSSel ls'" by (cases x) auto
    then show ?thesis using LVSSel inv x(1) lvs.get_range [of ls ls' i] lvs.get_invar [of ls ls' i] lvs.get_ids [of ls ls' i]
      by (simp add: selector_ops)
  qed
  then show "i < length (selector_upstreams s)" "selector_inv s'"
    "map upstream_id (selector_upstreams s') = map upstream_id (selector_upstreams s)" by simp_all
next
  fix s i st
  assume "selector_inv s" "i < length (selector_upstreams s)"
  then show "selector_inv (selector_Report i st s)"
    using random.report_invar nginx.report_invar lvs.report_invar by (simp add: selector_ops split: client_selector.splits)
next
  fix s i st
  show "map upstream_id (selector_upstreams (selector_Report i st s)) = map upstream_id (selector_upstreams s)"
    using random.report_ids nginx.report_ids lvs.report_ids by (simp add: selector_ops split: client_selector.splits)
next
  fix s s' e ord
  assume h: "selector_inv s" "set ord \<subseteq> {..<length (selector_upstreams s)}" "selector_StartEvaluate e ord s = Inr s'"
  have "selector_inv s' \<and> map upstream_id (selector_upstreams s') = map upstream_id (selector_upstreams s)"
  proof (cases s)
    case (RandomSel rs)
    then show ?thesis using h by (auto simp: selector_ops random_StartEvaluate_def)
  next
    case (NginxSel ws)
    then obtain ws' where "nginx_StartEvaluate e ord ws = Inr ws'" "s' = NginxSel ws'"
      using h(3) by (cases "nginx_StartEvaluate e ord ws") (auto simp: selector_ops)
    then show ?thesis using NginxSel h nginx.evaluate_invar [of ws ord e ws'] nginx.evaluate_ids [of ws ord e ws']
      by (simp add: selector_ops)
  next
    case (LVSSel ls)
    then obtain ls' where "lvs_StartEvaluate e ord ls = Inr ls'" "s' = LVSSel ls'"
      using h(3) by (cases "lvs_StartEvaluate e ord ls") (auto simp: selector_ops)
    then show ?thesis using LVSSel h lvs.evaluate_invar [of ls ord e ls'] lvs.evaluate_ids [of ls ord e ls']
      by (simp add: selector_ops)
  qed
  then show "selector_inv s'" "map upstream_id (selector_upstreams s') = map upstream_id (selector_upstreams s)" by simp_all
qed

subsection \<open>The contract of Add\<close>

text \<open>
  What \<open>NewClient\<close> relies on when it fills a selector: \<open>Add\<close> appends one upstream of the given type, URL
  and weight and changes nothing else of the selector, or it refuses the weight.
\<close>

definition request_type :: "UpstreamType \<Rightarrow> string" where
  "request_type t = (case t of Google \<Rightarrow> ''application/dns-json'' | IETF \<Rightarrow> ''application/dns-message'' | OtherType _ \<Rightarrow> [])"

definition added :: "bool \<Rightarrow> UpstreamType \<Rightarrow> upstreamDetail \<Rightarrow> upstream" where
  "added weighted t u = \<lparr>uType = t, URL = udURL u, RequestType = request_type t,
     weight = (if weighted then udWeight u else 0), effectiveWeight = (if weighted then udWeight u else 0), currentWeight = 0\<rparr>"

definition configured_upstreams :: "bool \<Rightarrow> Config \<Rightarrow> upstream list" where
  "configured_upstreams weighted conf = map (added weighted Google) (UpstreamGoogle (confUpstream conf))
     @ map (added weighted IETF) (UpstreamIETF (confUpstream conf))"

definition configured_details :: "Config \<Rightarrow> upstreamDetail set" where
  "configured_details conf = set (UpstreamGoogle (confUpstream conf)) \<union> set (UpstreamIETF (confUpstream conf))"

locale addable =
  fixes add :: "string \<Rightarrow> UpstreamType \<Rightarrow> int \<Rightarrow> 's \<Rightarrow> string + 's"
    and ups :: "'s \<Rightarrow> upstream list"
    and rest :: "'s \<Rightarrow> 'r"
    and weighted :: bool
    and good :: "int \<Rightarrow> bool"
  assumes add_good: "t \<in> {Google, IETF} \<Longrightarrow> good (udWeight u) \<Longrightarrow>
      \<exists>s'. add (udURL u) t (udWeight u) s = Inr s' \<and> ups s' = ups s @ [added weighted t u] \<and> rest s' = rest s"
    and add_bad: "\<not> good w \<Longrightarrow> \<exists>err. add url t w s = Inl err"
begin

lemma add_upstreams_good:
  "t \<in> {Google, IETF} \<Longrightarrow> \<forall>u \<in> set us. good (udWeight u) \<Longrightarrow>
   \<exists>s'. add_upstreams add t us s = Inr s' \<and> ups s' = ups s @ map (added weighted t) us \<and> rest s' = rest s"
proof (induction us arbitrary: s)
  case Nil
  then show ?case by simp
next
  case (Cons u us)
  obtain s1 where s1: "add (udURL u) t (udWeight u) s = Inr s1" "ups s1 = ups s @ [added weighted t u]" "rest s1 = rest s"
    using add_good [of t u s] Cons.prems by auto
  have "\<exists>s'. add_upstreams add t us s1 = Inr s' \<and> ups s' = ups s1 @ map (added weighted t) us \<and> rest s' = rest s1"
    using Cons.prems by (intro Cons.IH) auto
  then show ?case using s1 by auto
qed

lemma add_upstreams_bad:
  "t \<in> {Google, IETF} \<Longrightarrow> \<not> (\<forall>u \<in> set us. good (udWeight u)) \<Longrightarrow> \<exists>err. add_upstreams add t us s = Inl err"
proof (induction us arbitrary: s)
  case (Cons u us)
  then show ?case using add_good [of t u s] add_bad [of "udWeight u" "udURL u" t s]
    by (cases "good (udWeight u)") auto
qed simp

lemma add_configured_good:
  assumes "\<forall>u \<in> configured_details conf. good (udWeight u)"
  shows "\<exists>s'. add_configured add conf s = Inr s' \<and> ups s' = ups s @ configured_upstreams weighted conf \<and> rest s' = rest s"
  using assms add_upstreams_good [of Google "UpstreamGoogle (confUpstream conf)" s]
    add_upstreams_good [of IETF "UpstreamIETF (confUpstream conf)"]
  by (fastforce simp: add_configured_def configured_details_def configured_upstreams_def)

lemma add_configured_bad:
  assumes "\<not> (\<forall>u \<in> configured_details conf. good (udWeight u))"
  shows "\<exists>err. add_configured add conf s = Inl err"
proof (cases "\<forall>u \<in> set (UpstreamGoogle (confUpstream conf)). good (udWeight u)")
  case True
  then obtain s' where "add_upstreams add Google (UpstreamGoogle (confUpstream conf)) s = Inr s'"
    using add_upstreams_good by blast
  then show ?thesis using add_upstreams_bad [of IETF "UpstreamIETF (confUpstream conf)" s'] assms True
    by (auto simp: add_configured_def configured_details_def)
next
  case False
  then obtain err where "add_upstreams add Google (UpstreamGoogle (confUpstream conf)) s = Inl err"
    using add_upstreams_bad by blast
  then show ?thesis by (simp add: add_configured_def)
qed

end

interpretation random_add: addable "\<lambda>url t w. random_Add url t" rsUpstreams "\<lambda>_. ()" False "\<lambda>_. True"
  by unfold_locales (auto simp: random_Add_def added_def request_type_def)

interpretation nginx_add: addable nginx_Add nwUpstreams nwTimeout True "\<lambda>_. True"
  by unfold_locales (auto simp: nginx_Add_def added_def request_type_def)

interpretation lvs_add: addable lvs_Add lsUpstreams "\<lambda>ls. (lsTimeout ls, lastChoose ls, lsCurrentWeight ls)" True "\<lambda>w. 1 \<le> w"
  by unfold_locales (auto simp: lvs_Add_def added_def request_type_def)

lemma new_selector_built:
  assumes "UpstreamSelector (confUpstream conf) = LVSWRR \<longrightarrow> (\<forall>u \<in> configured_details conf. 1 \<le> udWeight u)"
  shows "\<exists>s. new_selector conf = Inr s
    \<and> selector_upstreams s = configured_upstreams (UpstreamSelector (confUpstream conf) \<in> {NginxWRR, LVSWRR}) conf
    \<and> (case s of RandomSel _ \<Rightarrow> UpstreamSelector (confUpstream conf) \<notin> {NginxWRR, LVSWRR}
       | NginxSel _ \<Rightarrow> UpstreamSelector (confUpstream conf) = NginxWRR
       | LVSSel ls \<Rightarrow> UpstreamSelector (confUpstream conf) = LVSWRR \<and> lastChoose ls = -1 \<and> lsCurrentWeight ls = 0)"
proof -
  have ne: "NginxWRR \<noteq> LVSWRR" by (simp add: NginxWRR_def LVSWRR_def)
  consider (n) "UpstreamSelector (confUpstream conf) = NginxWRR" | (l) "UpstreamSelector (confUpstream conf) = LVSWRR"
    | (r) "UpstreamSelector (confUpstream conf) \<notin> {NginxWRR, LVSWRR}" by blast
  then show ?thesis
  proof cases
    case n
    then show ?thesis using ne nginx_add.add_configured_good [of conf "NewNginxWRRSelector (timeout_duration conf)"]
      by (auto simp: new_selector_def selector_upstreams_def NewNginxWRRSelector_def)
  next
    case l
    then show ?thesis using ne assms lvs_add.add_configured_good [of conf "NewLVSWRRSelector (timeout_duration conf)"]
      by (auto simp: new_selector_def selector_upstreams_def NewLVSWRRSelector_def)
  next
    case r
    then show ?thesis using random_add.add_configured_good [of conf NewRandomSelector]
      by (auto simp: new_selector_def selector_upstreams_def NewRandomSelector_def)
  qed
qed

lemma new_selector_refused:
  assumes "UpstreamSelector (confUpstream conf) = LVSWRR" "\<exists>u \<in> configured_details conf. udWeight u < 1"
  shows "\<exists>err. new_selector conf = Inl err"
proof -
  have "\<not> (\<forall>u \<in> configured_details conf. 1 \<le> udWeight u)" using assms(2) by force
  then obtain err where "add_configured lvs_Add conf (NewLVSWRRSelector (timeout_duration conf)) = Inl err"
    using lvs_add.add_configured_bad by blast
  then show ?thesis using assms(1) by (simp add: new_selector_def NginxWRR_def LVSWRR_def)
qed

text \<open>The configured weights the documentation allows, on a number of upstreams for which no sum of
  weights can overflow.\<close>

definition weights_allowed :: "Config \<Rightarrow> bool" where
  "weights_allowed conf \<longleftrightarrow> 0 < upstream_count conf \<and> upstream_count conf \<le> 4000
     \<and> (\<forall>u \<in> configured_details conf. 1 \<le> udWeight u \<and> udWeight u \<le> 100)"

lemma configured_facts:
  "length (configured_upstreams b conf) = upstream_count conf"
  "u \<in> set (configured_upstreams True conf) \<Longrightarrow> \<exists>d \<in> configured_details conf. weight u = udWeight d
     \<and> effectiveWeight u = udWeight d \<and> currentWeight u = 0"
  "u \<in> set (configured_upstreams b conf) \<Longrightarrow> RequestType u = ''application/dns-json'' \<or> RequestType u = ''application/dns-message''"
  by (auto simp: configured_upstreams_def upstream_count_def configured_details_def added_def request_type_def)

lemma configured_smooth:
  assumes "weights_allowed conf"
  shows "smooth (\<Sum>u\<leftarrow>configured_upstreams True conf. weight u) (configured_upstreams True conf)"
proof -
  let ?us = "configured_upstreams True conf"
  have w: "effectiveWeight u = weight u" "currentWeight u = 0" "1 \<le> weight u" "weight u \<le> 100" if "u \<in> set ?us" for u
    using configured_facts(2) [OF that] assms by (auto simp: weights_allowed_def)
  have n: "0 < length ?us" "length ?us \<le> 4000" using assms by (simp_all add: weights_allowed_def configured_facts(1))
  have "(\<Sum>u\<leftarrow>?us. weight u) \<le> (\<Sum>u\<leftarrow>?us. 100)" by (rule sum_list_mono) (rule w(4))
  then have up: "(\<Sum>u\<leftarrow>?us. weight u) \<le> 400000" using n(2) by (simp add: sum_list_triv)
  have "(\<Sum>u\<leftarrow>?us. 1) \<le> (\<Sum>u\<leftarrow>?us. weight u)" by (rule sum_list_mono) (rule w(3))
  then have "int (length ?us) \<le> (\<Sum>u\<leftarrow>?us. weight u)" by (simp add: sum_list_triv)
  then have low: "1 \<le> (\<Sum>u\<leftarrow>?us. weight u)" using n(1) by linarith
  have "(int (length ?us) + 1) * (\<Sum>u\<leftarrow>?us. weight u) \<le> 4001 * 400000"
    using n(2) up low by (intro mult_mono) auto
  moreover have "map effectiveWeight ?us = map weight ?us" "map currentWeight ?us = map (\<lambda>_. 0) ?us"
    using w(1,2) by (auto cong: map_cong)
  then have "(\<Sum>u\<leftarrow>?us. effectiveWeight u) = (\<Sum>u\<leftarrow>?us. weight u)" "(\<Sum>u\<leftarrow>?us. currentWeight u) = 0"
    by (simp_all only: sum_list_0)
  moreover have "\<forall>u \<in> set ?us. weight_ok u \<and> - (\<Sum>u\<leftarrow>?us. weight u) < currentWeight u"
    using w low by (fastforce simp: weight_ok_def)
  ultimately show ?thesis using n(1) by (auto simp: smooth_def)
qed

lemma new_selector_inv:
  assumes "weights_allowed conf" "UpstreamSelector (confUpstream conf) \<noteq> LVSWRR" "new_selector conf = Inr s"
  shows "selector_inv s"
proof -
  have u: "selector_upstreams s = configured_upstreams (UpstreamSelector (confUpstream conf) \<in> {NginxWRR, LVSWRR}) conf"
    and k: "case s of RandomSel _ \<Rightarrow> UpstreamSelector (confUpstream conf) \<notin> {NginxWRR, LVSWRR}
       | NginxSel _ \<Rightarrow> UpstreamSelector (confUpstream conf) = NginxWRR
       | LVSSel ls \<Rightarrow> UpstreamSelector (confUpstream conf) = LVSWRR \<and> lastChoose ls = -1 \<and> lsCurrentWeight ls = 0"
    using new_selector_built [of conf] assms(2,3) by auto
  have ne: "configured_upstreams b conf \<noteq> []" for b
    using assms(1) configured_facts(1) [of b conf] by (auto simp: weights_allowed_def)
  show ?thesis
  proof (cases s)
    case (RandomSel rs)
    then show ?thesis using u ne by (simp add: selector_ops random_inv_def)
  next
    case (NginxSel ws)
    then show ?thesis using u k configured_smooth [OF assms(1)] by (simp add: selector_ops nginx_inv_def)
  next
    case (LVSSel ls)
    then show ?thesis using k assms(2) by simp
  qed
qed

subsection \<open>Properties\<close>

text \<open>\<open>NewClient\<close> fills the selector with the configured upstreams and no others, first
  those of the Google kind and then those of the IETF kind, each in the order of the file, with their
  URLs, request types and weights; the only configurations it refuses are weights below 1 with the
  LVS selector.\<close>

theorem new_selector_upstreams:
  "case new_selector conf of
     Inr s \<Rightarrow> selector_upstreams s = configured_upstreams (UpstreamSelector (confUpstream conf) \<in> {NginxWRR, LVSWRR}) conf
   | Inl err \<Rightarrow> UpstreamSelector (confUpstream conf) = LVSWRR \<and> (\<exists>u \<in> configured_details conf. udWeight u < 1)"
proof (cases "UpstreamSelector (confUpstream conf) = LVSWRR \<and> (\<exists>u \<in> configured_details conf. udWeight u < 1)")
  case True
  then obtain err where "new_selector conf = Inl err" using new_selector_refused by blast
  then show ?thesis using True by simp
next
  case False
  then have "UpstreamSelector (confUpstream conf) = LVSWRR \<longrightarrow> (\<forall>u \<in> configured_details conf. 1 \<le> udWeight u)" by force
  then show ?thesis using new_selector_built [of conf] by auto
qed

text \<open>Property C19.  A client whose configuration asks for the random or the smooth weighted selector,
  with weights from 1 to 100 on at most 4000 upstreams, can serve any number of queries: building the
  selector succeeds, and every \<open>Get\<close> ends without a panic and returns a configured upstream,
  whatever statuses are reported in between.\<close>

theorem configured_selector_serves:
  assumes "weights_allowed conf" "UpstreamSelector (confUpstream conf) \<noteq> LVSWRR"
  shows "\<exists>s s' is. new_selector conf = Inr s \<and> serve selector_Get selector_Report qs s = Some (Inr (s', is))
    \<and> length is = length qs \<and> set is \<subseteq> {..<upstream_count conf}
    \<and> map upstream_id (selector_upstreams s') = map upstream_id (selector_upstreams s)"
proof -
  obtain s where s: "new_selector conf = Inr s" "length (selector_upstreams s) = upstream_count conf"
    using new_selector_built [of conf] assms(2) configured_facts(1) by auto
  then show ?thesis using sel.serve_total [OF new_selector_inv [OF assms s(1)], of qs] by auto
qed

definition sample_config :: Config where
  "sample_config = client_defaults (empty_client_config\<lparr>confUpstream := \<lparr>UpstreamGoogle = [],
     UpstreamIETF = [\<lparr>udURL = ''https://a/dns-query'', udWeight = 50\<rparr>, \<lparr>udURL = ''https://b/dns-query'', udWeight = 20\<rparr>],
     UpstreamSelector = NginxWRR\<rparr>\<rparr>)"

lemma sample_config_allowed: "weights_allowed sample_config" "UpstreamSelector (confUpstream sample_config) = NginxWRR"
  by (simp_all add: weights_allowed_def sample_config_def client_defaults_def empty_client_config_def
      upstream_count_def configured_details_def NginxWRR_def)

theorem configured_selector_serves_witness:
  "\<exists>s s' is. new_selector sample_config = Inr s
    \<and> serve selector_Get selector_Report [(0, Some Timeout), (7, None), (3, Some OK)] s = Some (Inr (s', is)) \<and> length is = 3"
  using configured_selector_serves [of sample_config "[(0, Some Timeout), (7, None), (3, Some OK)]"] sample_config_allowed
  by (auto simp: NginxWRR_def LVSWRR_def)

end
