(* ===== verification/Client_Handler.thy ===== *)
theory Client_Handler
  imports Client_Request Client_Selector
begin

section \<open>The client: NewClient and handlerFunc\<close>

text \<open>
  The state of the client, its construction from the configuration, and the handler of DNS queries.
  The handler returns the new state of the client (only its selector changes) and what was written
  to the querier; it may panic, and it does not return at all if the selector's \<open>Get\<close> does not.  The
  invariant says what the handler needs to answer every query; \<open>NewClient\<close> establishes it.
\<close>

record Client =
  cConf :: Config
  cSelector :: client_selector
  passthrough :: "string list"
  bootstrap :: "string list"
  cHttp :: http_client
  dialAddr :: "ip option"
  udpServers :: "string list"
  tcpServers :: "string list"
  cookieJar :: bool

subsection \<open>NewClient\<close>

definition dialer_addr :: "'conn net_env \<Rightarrow> Config \<Rightarrow> string + ip option" where
  "dialer_addr N conf =
     (if Interface (Other conf) = [] then Inr None
      else case getInterfaceIPs N conf of
        Inl err \<Rightarrow> Inl (''failed to get interface IPs for '' @ Interface (Other conf) @ '': '' @ err)
      | Inr (localV4, localV6) \<Rightarrow> Inr (Some (if localV4 \<noteq> None then localV4 else localV6)))"

fun resolve_bootstrap :: "client_env \<Rightarrow> string list \<Rightarrow> string + string list" where
  "resolve_bootstrap E [] = Inr []"
| "resolve_bootstrap E (b # bs) =
     (case (case ceResolveUDP E b of Inr a \<Rightarrow> Inr a | Inl _ \<Rightarrow> ceResolveUDP E (''['' @ b @ '']:53'')) of
        Inl err \<Rightarrow> Inl err
      | Inr a \<Rightarrow> (case resolve_bootstrap E bs of Inl err \<Rightarrow> Inl err | Inr as \<Rightarrow> Inr (udp_String a # as)))"

text \<open>The form in which names are compared: with a leading and a trailing dot.\<close>

definition dotted_name :: "client_env \<Rightarrow> string \<Rightarrow> string" where
  "dotted_name E name =
     (let (punycode, err) = ceToASCII E name; name = (if err \<noteq> None then punycode else name)
      in ''.'' @ ToLower (ceLower E) (Trim name CHR ''.'') @ ''.'')"

definition NewClient :: "'conn net_env \<Rightarrow> client_env \<Rightarrow> Config \<Rightarrow> string + Client" where
  "NewClient N E conf =
     (case dialer_addr N conf of
        Inl err \<Rightarrow> Inl err
      | Inr addr \<Rightarrow>
          (case resolve_bootstrap E (Bootstrap (Other conf)) of
             Inl err \<Rightarrow> Inl err
           | Inr boot \<Rightarrow>
               let pass = (if Bootstrap (Other conf) \<noteq> [] then map (dotted_name E) (Passthrough (Other conf)) else []) in
               (case newHTTPClient N conf (ceNow E) \<lparr>httpTransport = None, httpClientLastCreate = None\<rparr> of
                  Inl err \<Rightarrow> Inl err
                | Inr h \<Rightarrow>
                    (case new_selector conf of
                       Inl err \<Rightarrow> Inl err
                     | Inr s \<Rightarrow> Inr \<lparr>cConf = conf, cSelector = s, passthrough = pass, bootstrap = boot, cHttp = h,
                         dialAddr = addr, udpServers = confListen conf, tcpServers = confListen conf,
                         cookieJar = (\<not> NoCookies (Other conf))\<rparr>))))"

text \<open>What the goroutine of \<open>ReportWeights\<close> logs every 15 seconds, if \<open>NewClient\<close> has started it.\<close>

definition client_weight_log :: "Client \<Rightarrow> string list option" where
  "client_weight_log c = (if confVerbose (Other (cConf c)) then selector_ReportWeights (cSelector c) else None)"

subsection \<open>handlerFunc\<close>

definition shouldPassthrough :: "client_env \<Rightarrow> Client \<Rightarrow> string \<Rightarrow> bool" where
  "shouldPassthrough E c name = list_ex (HasSuffix (dotted_name E name)) (passthrough c)"

definition pass_through ::
  "client_env \<Rightarrow> Client \<Rightarrow> nat \<Rightarrow> dns_writer \<Rightarrow> dns_msg \<Rightarrow> bool \<Rightarrow> go_panic + dns_writer" where
  "pass_through E c draw w r isTCP =
     (case rand_Intn draw (length (bootstrap c)) of
        Inl p \<Rightarrow> Inl p
      | Inr k \<Rightarrow>
          (case ceExchange E isTCP r (bootstrap c ! k) of
             Inr reply \<Rightarrow> Inr (w_WriteMsg reply w)
           | Inl err \<Rightarrow> Inr (write_failure RcodeServerFailure r w)))"

definition generate_request ::
  "dns_lib \<Rightarrow> Config \<Rightarrow> 't iptree \<Rightarrow> client_env \<Rightarrow> dns_writer \<Rightarrow> dns_msg \<Rightarrow> upstream \<Rightarrow>
   go_panic + dns_writer \<times> dns_msg \<times> (client_error + client_request)" where
  "generate_request L conf T E w r u =
     (if RequestType u = ''application/dns-json'' then
        (case generateRequestGoogle L conf T E w r u of Inl p \<Rightarrow> Inl p | Inr (w, res) \<Rightarrow> Inr (w, r, res))
      else if RequestType u = ''application/dns-message'' then generateRequestIETF L conf T E w r u
      else Inl (ExplicitPanic ''Unknown request Content-Type''))"

definition parse_response ::
  "dns_lib \<Rightarrow> client_env \<Rightarrow> dns_writer \<Rightarrow> dns_msg \<Rightarrow> bool \<Rightarrow> upstream \<Rightarrow> client_request \<Rightarrow> go_panic + dns_writer" where
  "parse_response L E w r isTCP u req =
     (let candidateType = SplitN (header_get (respHeader (crResponse req)) ''Content-Type'') CHR '';'' 2 ! 0 in
      if candidateType = ''application/json'' then Inr (parseResponseGoogle L E w isTCP req)
      else if candidateType = ''application/dns-message'' \<or> candidateType = ''application/dns-udpwireformat''
      then Inr (parseResponseIETF L E w r isTCP req)
      else if RequestType u = ''application/dns-json'' then Inr (parseResponseGoogle L E w isTCP req)
      else if RequestType u = ''application/dns-message'' then Inr (parseResponseIETF L E w r isTCP req)
      else Inl (ExplicitPanic ''Unknown response Content-Type''))"

text \<open>The status the handler reports about the upstream, if any.\<close>

definition reported_status :: "client_error + client_request \<Rightarrow> upstreamStatus option" where
  "reported_status res = (case res of
       Inl (UrlError err timeout) \<Rightarrow> if timeout then Some Timeout else None
     | Inl _ \<Rightarrow> None
     | Inr req \<Rightarrow>
         let k = go_quot (StatusCode (crResponse req)) 100 in
         if k = 5 then Some Error else if k = 2 then Some OK else None)"

definition report_status :: "nat \<Rightarrow> upstreamStatus option \<Rightarrow> client_selector \<Rightarrow> client_selector" where
  "report_status i st s = (case st of None \<Rightarrow> s | Some x \<Rightarrow> selector_Report i x s)"

definition client_handlerFunc ::
  "dns_lib \<Rightarrow> 't iptree \<Rightarrow> client_env \<Rightarrow> Client \<Rightarrow> nat \<Rightarrow> dns_writer \<Rightarrow> dns_msg \<Rightarrow> bool \<Rightarrow> (go_panic + Client \<times> dns_writer) option" where
  "client_handlerFunc L T E c draw w r isTCP =
     (if Response r then Some (Inr (c, w))
      else if length (msgQuestion r) \<noteq> 1 then Some (Inr (c, write_failure RcodeFormatError r w))
      else if shouldPassthrough E c (qName (msgQuestion r ! 0)) then
        (case pass_through E c draw w r isTCP of Inl p \<Rightarrow> Some (Inl p) | Inr w \<Rightarrow> Some (Inr (c, w)))
      else case selector_Get draw (cSelector c) of
        None \<Rightarrow> None
      | Some (Inl p) \<Rightarrow> Some (Inl p)
      | Some (Inr (s, i)) \<Rightarrow>
          let u = selector_upstreams s ! i in
          (case generate_request L (cConf c) T E w r u of
             Inl p \<Rightarrow> Some (Inl p)
           | Inr (w, r, Inl err) \<Rightarrow> Some (Inr (c\<lparr>cSelector := report_status i (reported_status (Inl err)) s\<rparr>, w))
           | Inr (w, r, Inr req) \<Rightarrow>
               (case parse_response L E w r isTCP u req of
                  Inl p \<Rightarrow> Some (Inl p)
                | Inr w \<Rightarrow> Some (Inr (c\<lparr>cSelector := report_status i (reported_status (Inr req)) s\<rparr>, w)))))"

definition udpHandlerFunc where
  "udpHandlerFunc L T E c draw w r = client_handlerFunc L T E c draw w r False"

definition tcpHandlerFunc where
  "tcpHandlerFunc L T E c draw w r = client_handlerFunc L T E c draw w r True"

subsection \<open>The invariant\<close>

definition known_type :: "upstream \<Rightarrow> bool" where
  "known_type u \<longleftrightarrow> RequestType u = ''application/dns-json'' \<or> RequestType u = ''application/dns-message''"

definition client_inv :: "Client \<Rightarrow> bool" where
  "client_inv c \<longleftrightarrow> selector_inv (cSelector c) \<and> list_all known_type (selector_upstreams (cSelector c))
     \<and> (passthrough c \<noteq> [] \<longrightarrow> bootstrap c \<noteq> [])"

text \<open>A message that the library exchanged with a server has the identifier of the query.\<close>

definition exchange_id_ok :: "client_env \<Rightarrow> bool" where
  "exchange_id_ok E \<longleftrightarrow> (\<forall>isTCP m a reply. ceExchange E isTCP m a = Inr reply \<longrightarrow> Id reply = Id m)"

lemma known_type_ids:
  assumes "map upstream_id us = map upstream_id vs"
  shows "list_all known_type us = list_all known_type vs"
proof -
  have "known_type u \<longleftrightarrow> (case upstream_id u of (_, _, t, _) \<Rightarrow> t = ''application/dns-json'' \<or> t = ''application/dns-message'')" for u
    by (simp add: known_type_def upstream_id_def)
  then have "known_type = (\<lambda>(_, _, t, _). t = ''application/dns-json'' \<or> t = ''application/dns-message'') \<circ> upstream_id"
    by (simp add: fun_eq_iff)
  then have "list_all known_type us = list_all (\<lambda>(_, _, t, _). t = ''application/dns-json'' \<or> t = ''application/dns-message'') (map upstream_id us)" for us
    by (simp only: list.pred_map)
  then show ?thesis using assms by simp
qed

lemma resolve_bootstrap_length: "resolve_bootstrap E bs = Inr as \<Longrightarrow> length as = length bs"
  by (induction bs arbitrary: "as") (auto split: sum.splits)

lemma NewClient_client_inv:
  assumes "NewClient N E conf = Inr c" "weights_allowed conf" "UpstreamSelector (confUpstream conf) \<noteq> LVSWRR"
  shows "client_inv c"
proof -
  obtain boot where b: "resolve_bootstrap E (Bootstrap (Other conf)) = Inr boot" "bootstrap c = boot"
    "passthrough c = (if Bootstrap (Other conf) \<noteq> [] then map (dotted_name E) (Passthrough (Other conf)) else [])"
    and s: "new_selector conf = Inr (cSelector c)"
    using assms(1) by (auto simp: NewClient_def Let_def split: sum.splits)
  have "list_all known_type (selector_upstreams (cSelector c))"
    using new_selector_built [of conf] assms(3) s configured_facts(3)
    by (auto simp: list_all_iff known_type_def)
  moreover have "passthrough c \<noteq> [] \<longrightarrow> bootstrap c \<noteq> []"
    using b resolve_bootstrap_length [OF b(1)] by auto
  ultimately show ?thesis using new_selector_inv [OF assms(2,3) s] by (simp add: client_inv_def)
qed

subsection \<open>The handler\<close>

text \<open>What is written for a query: a reply with its identifier, or, if the query cannot be packed, one
  with the identifier 0.\<close>

definition reply_to :: "dns_lib \<Rightarrow> dns_msg \<Rightarrow> dns_write \<Rightarrow> bool" where
  "reply_to L r x \<longleftrightarrow> answer_id L (Id r) x \<or>
     answer_id L 0 x \<and> (\<exists>m err. Id m = 0 \<and> msgQuestion m = msgQuestion r \<and> Pack L m = Inl err)"

lemma wrote_one_mono: "wrote_one P w w' \<Longrightarrow> (\<And>x. P x \<Longrightarrow> Q x) \<Longrightarrow> wrote_one Q w w'"
  by (auto simp: wrote_one_def)

lemma wrote_reply: "wrote_one (answer_id L (Id r)) w w' \<Longrightarrow> wrote_one (reply_to L r) w w'"
  by (erule wrote_one_mono) (simp add: reply_to_def)

lemma wrote_unpackable:
  assumes "wrote_one (answer_id L 0) w w'" "\<exists>m err. Id m = 0 \<and> msgQuestion m = msgQuestion r \<and> Pack L m = Inl err"
  shows "wrote_one (reply_to L r) w w'"
  using assms(1) by (rule wrote_one_mono) (use assms(2) in \<open>simp add: reply_to_def\<close>)

lemma pass_through_one:
  assumes "bootstrap c \<noteq> []" "exchange_id_ok E"
  shows "\<exists>w'. pass_through E c draw w r isTCP = Inr w' \<and> wrote_one (answer_id L (Id r)) w w'"
  using assms rand_Intn_pos [of "length (bootstrap c)" draw]
  by (auto simp: pass_through_def exchange_id_ok_def write_failure_one intro!: wrote_one_Msg answer_id_Msg split: sum.split)

lemma generate_request_one:
  assumes "dns_lib_ok L" "wf_msg r" "msgQuestion r \<noteq> []" "known_type u"
  shows "\<exists>w' r' res. generate_request L conf T E w r u = Inr (w', r', res) \<and>
    (case res of Inl err \<Rightarrow> wrote_one (reply_to L r) w w'
     | Inr req \<Rightarrow> w' = w \<and> Id r' = Id r \<and> Id (crReply req) = Id r)"
proof (cases "RequestType u = ''application/dns-json''")
  case True
  obtain w' res where "generateRequestGoogle L conf T E w r u = Inr (w', res)" "generated L (Id r) w w' res"
    using generateRequestGoogle_generated [OF assms(1-3), of conf T E w u] by blast
  then show ?thesis using True by (cases res) (simp_all add: generate_request_def generated_def wrote_reply)
next
  case False
  then have t: "RequestType u = ''application/dns-message''" using assms(4) by (simp add: known_type_def)
  obtain w' r' res where g: "generateRequestIETF L conf T E w r u = Inr (w', r', res)"
    and p: "case res of Inl (PackFailed err) \<Rightarrow> Id r' = 0 \<and> msgQuestion r' = msgQuestion r \<and> Pack L r' = Inl err
           \<and> wrote_one (answer_id L 0) w w'
       | _ \<Rightarrow> Id r' = Id r \<and> generated L (Id r) w w' res"
    using generateRequestIETF_generated [OF assms(1,2), of conf T E w u] by blast
  have "case res of Inl err \<Rightarrow> wrote_one (reply_to L r) w w' | Inr req \<Rightarrow> w' = w \<and> Id r' = Id r \<and> Id (crReply req) = Id r"
  proof (cases res)
    case (Inr req)
    then show ?thesis using p by (simp add: generated_def)
  next
    case (Inl err)
    show ?thesis
    proof (cases "\<exists>e. err = PackFailed e")
      case True
      then obtain e where "err = PackFailed e" ..
      then have "\<exists>m err. Id m = 0 \<and> msgQuestion m = msgQuestion r \<and> Pack L m = Inl err" "wrote_one (answer_id L 0) w w'"
        using p Inl by auto
      then show ?thesis using Inl wrote_unpackable by (simp only: sum.case)
    next
      case False
      then show ?thesis using p Inl wrote_reply by (cases err) (auto simp: generated_def)
    qed
  qed
  then show ?thesis using g t False by (simp add: generate_request_def)
qed

lemma parse_response_one:
  assumes "truncate_ok L" "known_type u" "Id r' = i" "Id (crReply req) = i"
  shows "\<exists>w'. parse_response L E w r' isTCP u req = Inr w' \<and> wrote_one (answer_id L i) w w'"
  using assms google_parser.writes_one [OF assms(1), of req r' w E isTCP] ietf_parser.writes_one [OF assms(1), of req r' w E isTCP]
  by (auto simp: parse_response_def Let_def known_type_def)

text \<open>
  The handler on a query it does not pass through: one \<open>Get\<close>, one answer, and one report of the
  outcome about the upstream that was chosen.
\<close>

lemma handler_upstream:
  assumes "dns_lib_ok L" "truncate_ok L" "wf_msg r" "client_inv c" "\<not> Response r" "length (msgQuestion r) = 1"
    "\<not> shouldPassthrough E c (qName (msgQuestion r ! 0))" "selector_Get draw (cSelector c) = Some (Inr (s, i))"
  shows "\<exists>w' r' res w''. generate_request L (cConf c) T E w r (selector_upstreams s ! i) = Inr (w', r', res)
    \<and> client_handlerFunc L T E c draw w r isTCP = Some (Inr (c\<lparr>cSelector := report_status i (reported_status res) s\<rparr>, w''))
    \<and> wrote_one (reply_to L r) w w''"
proof -
  have inv: "selector_inv (cSelector c)" using assms(4) by (simp add: client_inv_def)
  have ids: "map upstream_id (selector_upstreams s) = map upstream_id (selector_upstreams (cSelector c))"
    by (rule sel.get_ids [OF inv assms(8)])
  then have "i < length (selector_upstreams s)"
    using sel.get_range [OF inv assms(8)] map_eq_imp_length_eq by metis
  moreover have "list_all known_type (selector_upstreams s)"
    using known_type_ids [OF ids] assms(4) by (simp add: client_inv_def)
  ultimately have k: "known_type (selector_upstreams s ! i)" by (simp add: list_all_length)
  have q: "msgQuestion r \<noteq> []" using assms(6) by auto
  obtain w' r' res where g: "generate_request L (cConf c) T E w r (selector_upstreams s ! i) = Inr (w', r', res)"
    and p: "case res of Inl err \<Rightarrow> wrote_one (reply_to L r) w w' | Inr req \<Rightarrow> w' = w \<and> Id r' = Id r \<and> Id (crReply req) = Id r"
    using generate_request_one [OF assms(1,3) q k] by blast
  note h = client_handlerFunc_def assms(5-8) g Let_def
  show ?thesis
  proof (cases res)
    case (Inl err)
    then show ?thesis using p g by (simp add: h)
  next
    case (Inr req)
    obtain w'' where "parse_response L E w r' isTCP (selector_upstreams s ! i) req = Inr w''" "wrote_one (answer_id L (Id r)) w w''"
      using parse_response_one [OF assms(2) k, of r' "Id r" req E w isTCP] p Inr by auto
    then show ?thesis using p g Inr by (simp add: h wrote_reply)
  qed
qed

lemma client_inv_report:
  assumes "client_inv c" "selector_Get draw (cSelector c) = Some (Inr (s, i))"
  shows "client_inv (c\<lparr>cSelector := report_status i st s\<rparr>)"
  using sel.step_invar [of "cSelector c" draw s i st] assms known_type_ids [of "selector_upstreams (report_status i st s)"]
  by (auto simp: client_inv_def report_status_def)

lemma handler_one:
  assumes "dns_lib_ok L" "truncate_ok L" "exchange_id_ok E" "wf_msg r" "client_inv c" "\<not> Response r"
  shows "\<exists>c' w'. client_handlerFunc L T E c draw w r isTCP = Some (Inr (c', w')) \<and> client_inv c' \<and> wrote_one (reply_to L r) w w'"
proof -
  consider (bad) "length (msgQuestion r) \<noteq> 1"
    | (pass) "length (msgQuestion r) = 1" "shouldPassthrough E c (qName (msgQuestion r ! 0))"
    | (up) "length (msgQuestion r) = 1" "\<not> shouldPassthrough E c (qName (msgQuestion r ! 0))" by blast
  then show ?thesis
  proof cases
    case bad
    then show ?thesis using assms(5,6) wrote_reply [OF write_failure_one] by (simp add: client_handlerFunc_def)
  next
    case pass
    then have "bootstrap c \<noteq> []" using assms(5) by (auto simp: client_inv_def shouldPassthrough_def)
    then obtain w' where "pass_through E c draw w r isTCP = Inr w'" "wrote_one (answer_id L (Id r)) w w'"
      using pass_through_one [OF _ assms(3)] by blast
    then show ?thesis using pass assms(5,6) wrote_reply by (simp add: client_handlerFunc_def)
  next
    case up
    obtain s i where g: "selector_Get draw (cSelector c) = Some (Inr (s, i))"
      using sel.get_returns [of "cSelector c" draw] assms(5) by (auto simp: client_inv_def)
    show ?thesis using handler_upstream [OF assms(1,2,4,5,6) up g] client_inv_report [OF assms(5) g] by blast
  qed
qed

subsection \<open>Serving queries\<close>

text \<open>
  The client works through a list of queries, each with the environment it meets, a random draw, its
  querier and its transport; every query has a writer of its own.
\<close>

type_synonym client_query = "client_env \<times> nat \<times> dns_writer \<times> dns_msg \<times> bool"

fun handle_all ::
  "dns_lib \<Rightarrow> 't iptree \<Rightarrow> Client \<Rightarrow> client_query list \<Rightarrow> (go_panic + Client \<times> dns_writer list) option" where
  "handle_all L T c [] = Some (Inr (c, []))"
| "handle_all L T c ((E, draw, w, r, isTCP) # qs) =
     (case client_handlerFunc L T E c draw w r isTCP of
        None \<Rightarrow> None
      | Some (Inl p) \<Rightarrow> Some (Inl p)
      | Some (Inr (c', w')) \<Rightarrow>
          (case handle_all L T c' qs of
             None \<Rightarrow> None
           | Some (Inl p) \<Rightarrow> Some (Inl p)
           | Some (Inr (c'', ws)) \<Rightarrow> Some (Inr (c'', w' # ws))))"

definition query_ok :: "client_query \<Rightarrow> bool" where
  "query_ok = (\<lambda>(E, draw, w, r, isTCP). exchange_id_ok E \<and> wf_msg r \<and> \<not> Response r)"

definition answered :: "dns_lib \<Rightarrow> client_query \<Rightarrow> dns_writer \<Rightarrow> bool" where
  "answered L = (\<lambda>(E, draw, w, r, isTCP) w'. wrote_one (reply_to L r) w w')"

lemma handle_all_answers:
  assumes "dns_lib_ok L" "truncate_ok L"
  shows "client_inv c \<Longrightarrow> list_all query_ok qs \<Longrightarrow>
    \<exists>c' ws. handle_all L T c qs = Some (Inr (c', ws)) \<and> client_inv c' \<and> list_all2 (answered L) qs ws"
proof (induction qs arbitrary: c)
  case (Cons q qs)
  obtain E draw w r isTCP where q: "q = (E, draw, w, r, isTCP)" by (cases q)
  have ok: "exchange_id_ok E" "wf_msg r" "\<not> Response r" using Cons.prems(2) q by (simp_all add: query_ok_def)
  obtain c' w' where h: "client_handlerFunc L T E c draw w r isTCP = Some (Inr (c', w'))" "client_inv c'"
    "wrote_one (reply_to L r) w w'"
    using handler_one [OF assms ok(1,2) Cons.prems(1) ok(3)] by blast
  have "list_all query_ok qs" using Cons.prems(2) by simp
  then obtain c'' ws where "handle_all L T c' qs = Some (Inr (c'', ws))" "client_inv c''" "list_all2 (answered L) qs ws"
    using Cons.IH [OF h(2)] by blast
  then show ?case using h q by (simp add: answered_def)
qed simp

lemma handler_step:
  assumes "dns_lib_ok L" "truncate_ok L" "wf_msg r" "client_inv c"
    "client_handlerFunc L T E c draw w r isTCP = Some (Inr (c', w'))"
  shows "c' = c \<or> (\<exists>s i st. selector_Get draw (cSelector c) = Some (Inr (s, i)) \<and> c' = c\<lparr>cSelector := report_status i st s\<rparr>)"
proof (cases "Response r \<or> length (msgQuestion r) \<noteq> 1 \<or> shouldPassthrough E c (qName (msgQuestion r ! 0))")
  case True
  then show ?thesis using assms(5) by (auto simp: client_handlerFunc_def split: if_splits sum.splits)
next
  case False
  obtain s i where g: "selector_Get draw (cSelector c) = Some (Inr (s, i))"
    using sel.get_returns [of "cSelector c" draw] assms(4) by (auto simp: client_inv_def)
  show ?thesis using handler_upstream [OF assms(1-4) _ _ _ g, of E T w isTCP] False assms(5) g by auto
qed

lemma handle_all_serve:
  assumes "dns_lib_ok L" "truncate_ok L"
  shows "client_inv c \<Longrightarrow> list_all query_ok qs \<Longrightarrow> handle_all L T c qs = Some (Inr (c', ws)) \<Longrightarrow>
    \<exists>ps is. length ps \<le> length qs \<and> serve selector_Get selector_Report ps (cSelector c) = Some (Inr (cSelector c', is))"
proof (induction qs arbitrary: c ws)
  case Nil
  then show ?case by (intro exI [of _ "[]"]) simp
next
  case (Cons q qs)
  obtain E draw w r isTCP where q: "q = (E, draw, w, r, isTCP)" by (cases q)
  have ok: "exchange_id_ok E" "wf_msg r" "\<not> Response r" using Cons.prems(2) q by (simp_all add: query_ok_def)
  obtain c1 w1 where h: "client_handlerFunc L T E c draw w r isTCP = Some (Inr (c1, w1))" "client_inv c1"
    using handler_one [OF assms ok(1,2) Cons.prems(1) ok(3)] by blast
  obtain ws' where "handle_all L T c1 qs = Some (Inr (c', ws'))"
    using Cons.prems(3) q h(1) by (auto split: option.splits sum.splits)
  moreover have "list_all query_ok qs" using Cons.prems(2) by simp
  ultimately obtain ps js where IH: "length ps \<le> length qs" "serve selector_Get selector_Report ps (cSelector c1) = Some (Inr (cSelector c', js))"
    using Cons.IH [OF h(2)] by blast
  from handler_step [OF assms ok(2) Cons.prems(1) h(1)] show ?case
  proof (elim disjE exE conjE)
    assume "c1 = c"
    then show ?thesis using IH by (intro exI [of _ ps] exI [of _ js]) simp
  next
    fix s i st
    assume "selector_Get draw (cSelector c) = Some (Inr (s, i))" "c1 = c\<lparr>cSelector := report_status i st s\<rparr>"
    then show ?thesis using IH
      by (intro exI [of _ "(draw, st) # ps"] exI [of _ "i # js"]) (simp add: report_status_def)
  qed
qed

subsection \<open>Matching names\<close>

lemma dotted_suffix:
  "suffix (CHR ''.'' # p @ ''.'') (CHR ''.'' # n @ ''.'') \<longleftrightarrow> n = p \<or> (\<exists>pre. n = pre @ CHR ''.'' # p)"
proof
  assume "suffix (CHR ''.'' # p @ ''.'') (CHR ''.'' # n @ ''.'')"
  then obtain zs where z: "CHR ''.'' # n @ ''.'' = zs @ CHR ''.'' # p @ ''.''" by (auto simp: suffix_def)
  show "n = p \<or> (\<exists>pre. n = pre @ CHR ''.'' # p)"
  proof (cases zs)
    case (Cons a as)
    then have "n @ ''.'' = (as @ CHR ''.'' # p) @ ''.''" using z by simp
    then have "n = as @ CHR ''.'' # p" by (simp only: append_same_eq)
    then show ?thesis by blast
  qed (use z in simp)
next
  assume "n = p \<or> (\<exists>pre. n = pre @ CHR ''.'' # p)"
  then show "suffix (CHR ''.'' # p @ ''.'') (CHR ''.'' # n @ ''.'')"
  proof (elim disjE exE)
    fix pre assume "n = pre @ CHR ''.'' # p"
    then have "CHR ''.'' # n @ ''.'' = (CHR ''.'' # pre) @ CHR ''.'' # p @ ''.''" by simp
    then show ?thesis unfolding suffix_def by blast
  qed simp
qed

text \<open>A name without the dots around it, in lower case.\<close>

definition plain_name :: "client_env \<Rightarrow> string \<Rightarrow> string" where
  "plain_name E n = ToLower (ceLower E) (Trim n CHR ''.'')"

lemma dotted_name_plain: "snd (ceToASCII E n) = None \<Longrightarrow> dotted_name E n = CHR ''.'' # plain_name E n @ ''.''"
  by (cases "ceToASCII E n") (simp add: dotted_name_def plain_name_def)

lemma NewClient_passthrough:
  "NewClient N E conf = Inr c \<Longrightarrow>
   passthrough c = (if Bootstrap (Other conf) = [] then [] else map (dotted_name E) (Passthrough (Other conf)))"
  by (auto simp: NewClient_def Let_def split: sum.splits)

subsection \<open>Upstreams that do not answer\<close>

definition times_out :: "client_env \<Rightarrow> bool" where
  "times_out E \<longleftrightarrow> (\<forall>m u. ceNewRequest E m u = None) \<and> (\<forall>q. \<exists>err. ceDo E q = Inl (err, True))"

lemma times_out_reported:
  assumes "times_out E" "\<And>m. \<exists>b. Pack L m = Inr b" "msgQuestion r = [q]" "Qclass q = ClassINET"
    "generate_request L conf T E w r u = Inr (w', r', res)"
  shows "reported_status res = Some Timeout"
proof -
  have sent: "reported_status (snd (send_request E rq u addr n k w m)) = Some Timeout" for rq addr n k m
  proof -
    have "\<exists>err. ceDo E rq = Inl (err, True)" using assms(1) by (simp add: times_out_def)
    then obtain err where "ceDo E rq = Inl (err, True)" ..
    then show ?thesis by (simp add: send_request_def reported_status_def)
  qed
  have nr: "ceNewRequest E m v = None" for m v using assms(1) by (simp add: times_out_def)
  have pk: "Pack L m \<noteq> Inl err" for m err using assms(2) [of m] by auto
  show ?thesis
  proof (cases "RequestType u = ''application/dns-json''")
    case True
    then show ?thesis using assms(3-5) sent nr
      by (auto simp: generate_request_def generateRequestGoogle_def Let_def split: sum.splits) (metis snd_conv)
  next
    case False
    then have "generateRequestIETF L conf T E w r u = Inr (w', r', res)"
      using assms(5) by (auto simp: generate_request_def split: if_splits)
    then show ?thesis using sent nr pk
      by (auto simp: generateRequestIETF_def Let_def split: sum.splits prod.splits) (metis snd_conv)
  qed
qed

subsection \<open>Properties\<close>

text \<open>A client that \<open>NewClient\<close> has built for the random or the smooth weighted selector
  answers every query of any sequence of queries: it never panics or hangs, and to each querier it
  writes exactly one message, whatever the upstreams, the network and the decoders do.  The message
  carries the identifier of the query; the one exception is a query that cannot be packed, whose
  error reply has the identifier 0.\<close>

theorem client_answers_every_query:
  assumes "dns_lib_ok L" "truncate_ok L" "NewClient N E0 conf = Inr c" "weights_allowed conf"
    "UpstreamSelector (confUpstream conf) \<noteq> LVSWRR" "list_all query_ok qs"
  shows "\<exists>c' ws. handle_all L T c qs = Some (Inr (c', ws)) \<and> list_all2 (answered L) qs ws"
  using handle_all_answers [OF assms(1,2) NewClient_client_inv [OF assms(3-5)] assms(6)] by blast

definition sample_query :: dns_msg where
  "sample_query = new_msg\<lparr>Id := 7, msgQuestion := [\<lparr>qName = ''example.com.'', Qtype = 1, Qclass = ClassINET\<rparr>]\<rparr>"

definition sample_client_query :: client_query where
  "sample_client_query = (sample_client_env, 0, \<lparr>RemoteAddr = ''127.0.0.1:9'', written = []\<rparr>, sample_query, False)"

lemma sample_query_ok: "query_ok sample_client_query" "truncate_ok sample_lib"
  by (simp_all add: query_ok_def sample_client_query_def exchange_id_ok_def sample_client_env_def sample_query_def
      new_msg_def wf_msg_def truncate_ok_def sample_lib_def)

lemma sample_client_ex: "\<exists>c. NewClient sample_net sample_client_env sample_config = Inr c"
proof -
  obtain s where "new_selector sample_config = Inr s"
    using new_selector_built [of sample_config] sample_config_allowed(2) by (auto simp: NginxWRR_def LVSWRR_def)
  moreover have "Interface (Other sample_config) = []" "Bootstrap (Other sample_config) = []"
    by (simp_all add: sample_config_def client_defaults_other empty_client_config_def)
  ultimately show ?thesis
    by (simp add: NewClient_def dialer_addr_def newHTTPClient_def getInterfaceIPs_def sample_net_def)
qed

theorem client_answers_every_query_witness:
  "\<exists>c c' ws. NewClient sample_net sample_client_env sample_config = Inr c
     \<and> handle_all sample_lib list_tree c [sample_client_query, sample_client_query] = Some (Inr (c', ws))
     \<and> list_all2 (answered sample_lib) [sample_client_query, sample_client_query] ws"
proof -
  obtain c where c: "NewClient sample_net sample_client_env sample_config = Inr c" using sample_client_ex by blast
  have "UpstreamSelector (confUpstream sample_config) \<noteq> LVSWRR"
    using sample_config_allowed(2) by (simp add: NginxWRR_def LVSWRR_def)
  from client_answers_every_query [OF sample_lib_ok sample_query_ok(2) c sample_config_allowed(1) this,
      of "[sample_client_query, sample_client_query]"]
  show ?thesis using c sample_query_ok(1) by auto
qed



text \<open>Property C23.  A query is passed to a bootstrap server exactly if its name is one of the
  configured names or a subdomain of one, compared label by label, without regard to case and to
  dots at the ends (for names the IDNA conversion accepts); without bootstrap servers never.\<close>

theorem passthrough_is_subdomain:
  assumes "NewClient N E conf = Inr c" "snd (ceToASCII E name) = None"
    "\<forall>p \<in> set (Passthrough (Other conf)). snd (ceToASCII E p) = None"
  shows "shouldPassthrough E c name \<longleftrightarrow> Bootstrap (Other conf) \<noteq> [] \<and>
    (\<exists>p \<in> set (Passthrough (Other conf)). plain_name E name = plain_name E p
       \<or> (\<exists>pre. plain_name E name = pre @ CHR ''.'' # plain_name E p))"
  using assms(2,3) dotted_suffix
  by (auto simp: shouldPassthrough_def NewClient_passthrough [OF assms(1)] list_ex_iff HasSuffix_def dotted_name_plain)

definition pass_env :: client_env where
  "pass_env = sample_client_env\<lparr>ceResolveUDP := (\<lambda>_. Inr \<lparr>uaIP = Some [8, 8, 8, 8], uaPort = 53, uaZone = []\<rparr>)\<rparr>"

definition pass_config :: Config where
  "pass_config = sample_config\<lparr>Other := (Other sample_config)\<lparr>Bootstrap := [''8.8.8.8:53''], Passthrough := [''Example.com'']\<rparr>\<rparr>"

lemma pass_names:
  "plain_name pass_env ''www.example.COM.'' = ''www.example.com''" "plain_name pass_env ''Example.com'' = ''example.com''"
  "plain_name pass_env ''notexample.com'' = ''notexample.com''"
  by code_simp+

theorem passthrough_is_subdomain_witness:
  "\<exists>c. NewClient sample_net pass_env pass_config = Inr c \<and> shouldPassthrough pass_env c ''www.example.COM.''
     \<and> \<not> shouldPassthrough pass_env c ''notexample.com''"
proof -
  obtain s where "new_selector pass_config = Inr s"
    using new_selector_built [of pass_config] sample_config_allowed(2) by (auto simp: pass_config_def NginxWRR_def LVSWRR_def)
  moreover have o: "Interface (Other pass_config) = []" "Bootstrap (Other pass_config) = [''8.8.8.8:53'']"
      "Passthrough (Other pass_config) = [''Example.com'']"
    by (simp_all add: pass_config_def sample_config_def client_defaults_other empty_client_config_def)
  ultimately obtain c where c: "NewClient sample_net pass_env pass_config = Inr c"
    by (simp add: NewClient_def dialer_addr_def newHTTPClient_def getInterfaceIPs_def sample_net_def pass_env_def)
  have "snd (ceToASCII pass_env n) = None" for n by (simp add: pass_env_def sample_client_env_def)
  note p = passthrough_is_subdomain [OF c this, unfolded o, simplified this]
  have "\<exists>pre. ''www.example.com'' = pre @ CHR ''.'' # ''example.com''" by (rule exI [of _ "''www''"]) simp
  moreover have "\<not> suffix (CHR ''.'' # ''example.com'') ''notexample.com''" by code_simp
  then have "\<nexists>pre. ''notexample.com'' = pre @ CHR ''.'' # ''example.com''" unfolding suffix_def by blast
  ultimately show ?thesis using c p [of "''www.example.COM.''"] p [of "''notexample.com''"] pass_names by simp
qed



end
