(* ===== verification/Server_Config.thy ===== *)
theory Server_Config
  imports Go_Strings
begin

section \<open>doh-server/config.go\<close>

text \<open>
  The configuration and its validation.  Reading the TOML file is done by a package outside the
  repository: the argument of \<open>loadConfig\<close> is its result, an error or the decoded configuration with
  the keys that had no field.  \<open>config_ok\<close> is what the rest of the server relies on; every
  configuration that \<open>loadConfig\<close> accepts satisfies it.
\<close>

record server_config =
  TLSClientAuthCA :: string
  LocalAddr :: string
  Cert :: string
  Key :: string
  cfgPath :: string
  DebugHTTPHeaders :: "string list"
  Listen :: "string list"
  Upstream :: "string list"
  Timeout :: nat
  Tries :: nat
  Verbose :: bool
  LogGuessedIP :: bool
  ECSAllowNonGlobalIP :: bool
  ECSUsePreciseIP :: bool
  TLSClientAuth :: bool

text \<open>The regular expression \<open>^[a-z-]+(:)\<close>: the index of the colon.\<close>

definition prefix_char :: "char \<Rightarrow> bool" where
  "prefix_char c \<longleftrightarrow> (97 \<le> (of_char c :: nat) \<and> (of_char c :: nat) \<le> 122) \<or> c = CHR ''-''"

definition rxUpstreamWithTypePrefix :: "string \<Rightarrow> nat option" where
  "rxUpstreamWithTypePrefix us =
     (let n = length (takeWhile prefix_char us)
      in if 0 < n \<and> n < length us \<and> us ! n = CHR '':'' then Some n else None)"

definition addressAndType :: "string \<Rightarrow> string \<times> string" where
  "addressAndType us = (case rxUpstreamWithTypePrefix us of
       None \<Rightarrow> ([], [])
     | Some p \<Rightarrow> (drop (p + 1) us, take p us))"

fun validate_upstreams :: "string list \<Rightarrow> string option" where
  "validate_upstreams [] = None"
| "validate_upstreams (us # uss) =
     (let (address, t) = addressAndType us in
      if address = [] then Some ''One of the upstreams has not a (udp|tcp|tcp-tls) prefix e.g. udp:1.1.1.1:53''
      else if t = ''tcp'' \<or> t = ''udp'' \<or> t = ''tcp-tls'' then validate_upstreams uss
      else Some ''Invalid upstream prefix specified, choose one of: udp tcp tcp-tls'')"

text \<open>The options that are left out or empty get their default values.\<close>

definition config_defaults :: "server_config \<Rightarrow> server_config" where
  "config_defaults conf = conf
     \<lparr>Listen := (if Listen conf = [] then [''127.0.0.1:8053'', ''[::1]:8053''] else Listen conf),
      cfgPath := (if cfgPath conf = [] then ''/dns-query'' else cfgPath conf),
      Upstream := (if Upstream conf = [] then [''udp:8.8.8.8:53'', ''udp:8.8.4.4:53''] else Upstream conf),
      Timeout := (if Timeout conf = 0 then 10 else Timeout conf),
      Tries := (if Tries conf = 0 then 1 else Tries conf)\<rparr>"

definition loadConfig ::
  "(string \<Rightarrow> string) \<Rightarrow> string + server_config \<times> string list \<Rightarrow> string + server_config" where
  "loadConfig quote decoded =
     (case decoded of
        Inl err \<Rightarrow> Inl err
      | Inr (conf, undecoded) \<Rightarrow>
          if undecoded \<noteq> [] then Inl (''unknown option '' @ quote (hd undecoded))
          else
            let conf = config_defaults conf
            in if (Cert conf \<noteq> []) \<noteq> (Key conf \<noteq> [])
               then Inl ''You must specify both -cert and -key to enable TLS''
               else case validate_upstreams (Upstream conf) of
                  Some err \<Rightarrow> Inl err
                | None \<Rightarrow> Inr conf)"

definition upstream_ok :: "string \<Rightarrow> bool" where
  "upstream_ok us \<longleftrightarrow> fst (addressAndType us) \<noteq> [] \<and> snd (addressAndType us) \<in> {''tcp'', ''udp'', ''tcp-tls''}"

definition config_ok :: "server_config \<Rightarrow> bool" where
  "config_ok conf \<longleftrightarrow> Listen conf \<noteq> [] \<and> cfgPath conf \<noteq> [] \<and> Upstream conf \<noteq> []
     \<and> 0 < Timeout conf \<and> 0 < Tries conf \<and> (Cert conf = [] \<longleftrightarrow> Key conf = [])
     \<and> list_all upstream_ok (Upstream conf)"

lemma validate_upstreams_None: "validate_upstreams uss = None \<longleftrightarrow> list_all upstream_ok uss"
  by (induction uss) (auto simp: upstream_ok_def split: prod.splits)

lemma addressAndType_join:
  assumes "t \<noteq> []" "list_all prefix_char t"
  shows "addressAndType (t @ CHR '':'' # a) = (a, t)"
proof -
  have "takeWhile prefix_char (t @ CHR '':'' # a) = t"
    using assms(2) by (simp add: takeWhile_append2 list_all_iff prefix_char_def)
  then show ?thesis using assms(1) by (simp add: addressAndType_def rxUpstreamWithTypePrefix_def Let_def)
qed

lemma addressAndType_split:
  assumes "addressAndType us = (a, t)" "t \<noteq> []"
  shows "us = t @ CHR '':'' # a" "list_all prefix_char t"
proof -
  obtain p where p: "p = length (takeWhile prefix_char us)" "p < length us" "us ! p = CHR '':''" "a = drop (p + 1) us" "t = take p us"
    using assms by (auto simp: addressAndType_def rxUpstreamWithTypePrefix_def Let_def split: if_splits)
  show "us = t @ CHR '':'' # a" using p id_take_nth_drop [of p us] by simp
  have "t = takeWhile prefix_char us" using p(1,5) takeWhile_eq_take [of prefix_char us] by simp
  then show "list_all prefix_char t" by (auto simp: list_all_iff dest: set_takeWhileD)
qed

lemma default_upstreams_ok: "list_all upstream_ok [''udp:8.8.8.8:53'', ''udp:8.8.4.4:53'']"
  by code_simp

lemma config_defaults_ok:
  assumes "(Cert c = []) = (Key c = [])" "list_all upstream_ok (Upstream (config_defaults c))"
  shows "config_ok (config_defaults c)"
  using assms by (simp add: config_ok_def config_defaults_def)

subsection \<open>Properties\<close>

text \<open>A configuration the server starts with has an address to listen on, a path, positive
  timeout and tries, a certificate exactly if it has a key, and at least one upstream, all of them with
  an address and one of the three transports; and a decoded configuration is rejected only for an
  unknown key, for one of certificate and key missing, or for such an upstream.\<close>

theorem loadConfig_ok:
  "case loadConfig quote decoded of
     Inr conf \<Rightarrow> config_ok conf
   | Inl err \<Rightarrow> (case decoded of Inl e \<Rightarrow> err = e | Inr (c, undecoded) \<Rightarrow>
       undecoded \<noteq> [] \<or> (Cert c = []) \<noteq> (Key c = []) \<or> \<not> list_all upstream_ok (Upstream c))"
proof (cases decoded)
  case (Inl e)
  then show ?thesis by (simp add: loadConfig_def)
next
  case (Inr p)
  obtain c u where p: "p = (c, u)" by (cases p)
  let ?c = "config_defaults c"
  have f: "Cert ?c = Cert c" "Key ?c = Key c" "list_all upstream_ok (Upstream ?c) \<longleftrightarrow> list_all upstream_ok (Upstream c)"
    using default_upstreams_ok by (simp_all add: config_defaults_def)
  show ?thesis
    using f validate_upstreams_None [of "Upstream ?c"] config_defaults_ok [of c]
    by (cases "validate_upstreams (Upstream ?c)") (auto simp: Inr p loadConfig_def Let_def)
qed

definition empty_config :: server_config where
  "empty_config = \<lparr>TLSClientAuthCA = [], LocalAddr = [], Cert = [], Key = [], cfgPath = [], DebugHTTPHeaders = [],
     Listen = [], Upstream = [], Timeout = 0, Tries = 0, Verbose = False, LogGuessedIP = False,
     ECSAllowNonGlobalIP = False, ECSUsePreciseIP = False, TLSClientAuth = False\<rparr>"

theorem loadConfig_ok_witness:
  "\<exists>conf. loadConfig id (Inr (empty_config, [])) = Inr conf \<and> config_ok conf \<and> cfgPath conf = ''/dns-query''"
proof -
  have "loadConfig id (Inr (empty_config, [])) = Inr (config_defaults empty_config)"
    using default_upstreams_ok validate_upstreams_None [of "[''udp:8.8.8.8:53'', ''udp:8.8.4.4:53'']"]
    by (simp add: loadConfig_def Let_def config_defaults_def empty_config_def)
  then show ?thesis using loadConfig_ok [where quote = id and decoded = "Inr (empty_config, [])"]
    by (simp add: config_defaults_def empty_config_def)
qed

text \<open>An upstream is split at the first colon: what \<open>addressAndType\<close> returns for a
  transport name, a colon and an address is that name and that address, and whenever it returns a
  transport the upstream is that transport, a colon and the address it returns.\<close>

theorem addressAndType_inverse:
  assumes "t \<noteq> []" "list_all prefix_char t"
  shows "addressAndType us = (a, t) \<longleftrightarrow> us = t @ CHR '':'' # a"
  using addressAndType_join [OF assms] addressAndType_split(1) [of us a t] assms(1) by auto

theorem addressAndType_inverse_witness:
  "addressAndType ''tcp-tls:1.1.1.1:853'' = (''1.1.1.1:853'', ''tcp-tls'')"
  using addressAndType_inverse [of "''tcp-tls''" "''tcp-tls:1.1.1.1:853''" "''1.1.1.1:853''"]
  by (simp add: prefix_char_def)

end
