(* ===== verification/Server_Query.thy ===== *)
theory Server_Query
  imports Server_Config Dns_Message
begin

section \<open>doh-server/server.go: querying the upstream DNS servers\<close>

text \<open>
  \<open>patchRootRD\<close>, \<open>indexQuestionType\<close> and \<open>doDNSQuery\<close>.  The exchanges with upstream servers and the
  random draws are an argument: \<open>qExchange i k t m a\<close> is what the \<open>k\<close>-th exchange of try \<open>i\<close> returns
  for the message \<open>m\<close> sent to the address \<open>a\<close> over the transport \<open>t\<close>, a message or nil together with
  an error or nil, and \<open>qRand i\<close> is the draw of try \<open>i\<close>.  A nil message that is dereferenced is a panic.
\<close>

record DNSRequest =
  request :: dns_msg
  response :: "dns_msg option"
  currentUpstream :: string
  errtext :: string
  errcode :: int
  transactionID :: u16
  isTailored :: bool

definition new_request :: DNSRequest where
  "new_request = \<lparr>request = new_msg, response = None, currentUpstream = [], errtext = [], errcode = 0,
     transactionID = 0, isTailored = False\<rparr>"

definition patchRootRD :: "DNSRequest \<Rightarrow> DNSRequest" where
  "patchRootRD req = foldl (\<lambda>req q. if qName q = ''.''
       then req\<lparr>request := (request req)\<lparr>RecursionDesired := True\<rparr>\<rparr> else req) req (msgQuestion (request req))"

fun index_from :: "int \<Rightarrow> dns_question list \<Rightarrow> u16 \<Rightarrow> int" where
  "index_from i [] t = -1"
| "index_from i (q # qs) t = (if Qtype q = t then i else index_from (i + 1) qs t)"

definition indexQuestionType :: "dns_msg \<Rightarrow> u16 \<Rightarrow> int" where
  "indexQuestionType msg qtype = index_from 0 (msgQuestion msg) qtype"

datatype transport = UDP | TCP | TLS

record query_env =
  qRand :: "nat \<Rightarrow> nat"
  qExchange :: "nat \<Rightarrow> nat \<Rightarrow> transport \<Rightarrow> dns_msg \<Rightarrow> string \<Rightarrow> dns_msg option \<times> string option"

text \<open>The UDP branch: an exchange, once more over TCP if the answer is truncated, and once more over
  TCP for an IXFR question that was answered with a single SOA record.\<close>

definition query_udp :: "query_env \<Rightarrow> nat \<Rightarrow> dns_msg \<Rightarrow> string \<Rightarrow> go_panic + dns_msg option \<times> string option" where
  "query_udp Q i m a =
     (let (r, err) = qExchange Q i 0 UDP m a;
          (r, err) = (case r of
              Some x \<Rightarrow> if err = None \<and> Truncated x then qExchange Q i 1 TCP m a else (r, err)
            | None \<Rightarrow> (r, err))
      in if indexQuestionType m TypeIXFR > -1 then
           (case r of
              None \<Rightarrow> Inl NilDereference
            | Some x \<Rightarrow>
                if length (msgAnswer x) = 1 \<and> Rrtype (rr_hdr (msgAnswer x ! 0)) = TypeSOA
                then Inr (qExchange Q i 2 TCP m a) else Inr (r, err))
         else Inr (r, err))"

definition query_once :: "query_env \<Rightarrow> nat \<Rightarrow> dns_msg \<Rightarrow> string \<Rightarrow> string \<Rightarrow> go_panic + dns_msg option \<times> string option" where
  "query_once Q i m a t =
     (if t = ''tcp-tls'' then Inr (qExchange Q i 0 TLS m a)
      else if t = ''tcp'' \<or> indexQuestionType m TypeAXFR > -1 then Inr (qExchange Q i 0 TCP m a)
      else query_udp Q i m a)"

fun query_loop :: "server_config \<Rightarrow> query_env \<Rightarrow> nat \<Rightarrow> nat \<Rightarrow> string option \<Rightarrow> DNSRequest \<Rightarrow> go_panic + DNSRequest \<times> string option" where
  "query_loop conf Q i 0 err req = Inr (req, err)"
| "query_loop conf Q i (Suc n) err req =
     (case rand_Intn (qRand Q i) (length (Upstream conf)) of
        Inl p \<Rightarrow> Inl p
      | Inr j \<Rightarrow>
          let req = req\<lparr>currentUpstream := Upstream conf ! j\<rparr>;
              (upstream, t) = addressAndType (currentUpstream req) in
          if t \<noteq> ''tcp-tls'' \<and> t \<noteq> ''tcp'' \<and> t \<noteq> ''udp'' then Inr (req, Some ''invalid DNS type'')
          else case query_once Q i (request req) upstream t of
            Inl p \<Rightarrow> Inl p
          | Inr (r, err') \<Rightarrow>
              let req = req\<lparr>response := r\<rparr> in
              if err' = None then Inr (req, None)
              else query_loop conf Q (i + 1) n err' req)"

definition doDNSQuery :: "server_config \<Rightarrow> query_env \<Rightarrow> DNSRequest \<Rightarrow> go_panic + DNSRequest \<times> string option" where
  "doDNSQuery conf Q req = query_loop conf Q 0 (Tries conf) None req"

subsection \<open>Facts\<close>

lemma index_from_iff: "0 \<le> i \<Longrightarrow> index_from i qs t > -1 \<longleftrightarrow> (\<exists>q \<in> set qs. Qtype q = t)"
  by (induction i qs t rule: index_from.induct) auto

lemma indexQuestionType_iff: "indexQuestionType m t > -1 \<longleftrightarrow> (\<exists>q \<in> set (msgQuestion m). Qtype q = t)"
  by (simp add: indexQuestionType_def index_from_iff)

lemma index_from_nth:
  "0 \<le> i \<Longrightarrow> index_from i qs t = k \<Longrightarrow> k > -1 \<Longrightarrow> i \<le> k \<and> nat (k - i) < length qs \<and> Qtype (qs ! nat (k - i)) = t
     \<and> (\<forall>j < nat (k - i). Qtype (qs ! j) \<noteq> t)"
proof (induction i qs t rule: index_from.induct)
  case (2 i q qs t)
  show ?case
  proof (cases "Qtype q = t")
    case True
    then show ?thesis using 2 by simp
  next
    case False
    then have IH: "i + 1 \<le> k" "nat (k - (i + 1)) < length qs" "Qtype (qs ! nat (k - (i + 1))) = t"
      "\<forall>j < nat (k - (i + 1)). Qtype (qs ! j) \<noteq> t"
      using 2 by auto
    have s: "nat (k - i) = Suc (nat (k - (i + 1)))" using IH(1) by simp
    have "Qtype ((q # qs) ! j) \<noteq> t" if "j < nat (k - i)" for j
      using that False IH(4) unfolding s by (cases j) auto
    then show ?thesis using IH unfolding s by simp
  qed
qed simp

lemma patchRootRD_eq:
  "patchRootRD req = (if \<exists>q \<in> set (msgQuestion (request req)). qName q = ''.''
     then req\<lparr>request := (request req)\<lparr>RecursionDesired := True\<rparr>\<rparr> else req)"
proof -
  have "foldl (\<lambda>req q. if qName q = ''.'' then req\<lparr>request := (request req)\<lparr>RecursionDesired := True\<rparr>\<rparr> else req) req qs
      = (if \<exists>q \<in> set qs. qName q = ''.'' then req\<lparr>request := (request req)\<lparr>RecursionDesired := True\<rparr>\<rparr> else req)" for qs and req :: DNSRequest
    by (induction qs arbitrary: req) auto
  then show ?thesis unfolding patchRootRD_def by blast
qed

text \<open>A question set for which no reply is dereferenced without a check.\<close>

definition no_IXFR :: "dns_msg \<Rightarrow> bool" where
  "no_IXFR m \<longleftrightarrow> (\<forall>q \<in> set (msgQuestion m). Qtype q \<noteq> TypeIXFR)"

lemma query_once_total:
  assumes "no_IXFR m"
  shows "\<exists>r. query_once Q i m a t = Inr r"
proof -
  have "\<not> indexQuestionType m TypeIXFR > -1" using assms by (simp add: indexQuestionType_iff no_IXFR_def)
  then show ?thesis by (simp add: query_once_def query_udp_def Let_def split: prod.split)
qed

lemma query_loop_step:
  assumes "config_ok conf" "no_IXFR (request req)"
  obtains u a t r e where "u \<in> set (Upstream conf)" "addressAndType u = (a, t)" "u = Upstream conf ! (qRand Q i mod length (Upstream conf))"
    "query_once Q i (request req) a t = Inr (r, e)"
    "query_loop conf Q i (Suc n) err req =
       (if e = None then Inr (req\<lparr>currentUpstream := u, response := r\<rparr>, None)
        else query_loop conf Q (i + 1) n e (req\<lparr>currentUpstream := u, response := r\<rparr>))"
proof -
  let ?j = "qRand Q i mod length (Upstream conf)"
  let ?u = "Upstream conf ! ?j"
  have ne: "Upstream conf \<noteq> []" using assms(1) by (simp add: config_ok_def)
  then have u: "?u \<in> set (Upstream conf)" by (intro nth_mem) simp
  obtain a t where at: "addressAndType ?u = (a, t)" by (cases "addressAndType ?u")
  have t: "t = ''tcp'' \<or> t = ''udp'' \<or> t = ''tcp-tls''"
  proof -
    have "upstream_ok ?u" using assms(1) u by (simp add: config_ok_def list_all_iff)
    then show ?thesis using at by (auto simp: upstream_ok_def)
  qed
  obtain r e where q: "query_once Q i (request req) a t = Inr (r, e)"
    using query_once_total [OF assms(2), of Q i a t] by auto
  have "query_loop conf Q i (Suc n) err req =
       (if e = None then Inr (req\<lparr>currentUpstream := ?u, response := r\<rparr>, None)
        else query_loop conf Q (i + 1) n e (req\<lparr>currentUpstream := ?u, response := r\<rparr>))"
    using ne t q by (auto simp: rand_Intn_def at Let_def)
  then show ?thesis using that u at q by blast
qed

text \<open>The upstream drawn for a try, and what the try returns.\<close>

definition drawn :: "server_config \<Rightarrow> query_env \<Rightarrow> nat \<Rightarrow> string" where
  "drawn conf Q i = Upstream conf ! (qRand Q i mod length (Upstream conf))"

definition try_result :: "server_config \<Rightarrow> query_env \<Rightarrow> dns_msg \<Rightarrow> nat \<Rightarrow> go_panic + dns_msg option \<times> string option" where
  "try_result conf Q m i = (case addressAndType (drawn conf Q i) of (a, t) \<Rightarrow> query_once Q i m a t)"

definition try_fails :: "server_config \<Rightarrow> query_env \<Rightarrow> dns_msg \<Rightarrow> nat \<Rightarrow> bool" where
  "try_fails conf Q m i \<longleftrightarrow> (\<exists>r e. try_result conf Q m i = Inr (r, Some e))"

lemma all_from_Suc:
  assumes "P i" "\<forall>j. i + 1 \<le> j \<and> j < m \<longrightarrow> P j"
  shows "\<forall>j. i \<le> j \<and> j < m \<longrightarrow> P (j :: nat)"
  using assms by (metis Suc_eq_plus1 le_antisym not_less_eq_eq)

lemma query_loop_outcome:
  assumes "config_ok conf" "no_IXFR (request req)"
  shows "(\<exists>k r. i \<le> k \<and> k < i + n \<and> try_result conf Q (request req) k = Inr (r, None)
      \<and> (\<forall>j. i \<le> j \<and> j < k \<longrightarrow> try_fails conf Q (request req) j)
      \<and> query_loop conf Q i n err req = Inr (req\<lparr>currentUpstream := drawn conf Q k, response := r\<rparr>, None)) \<or>
    ((\<forall>j. i \<le> j \<and> j < i + n \<longrightarrow> try_fails conf Q (request req) j)
      \<and> (\<exists>req' e. query_loop conf Q i n err req = Inr (req', if n = 0 then err else Some e)))"
  using assms(2)
proof (induction n arbitrary: i err req)
  case (Suc n)
  obtain u a t r e where s: "addressAndType u = (a, t)" "u = drawn conf Q i"
    "query_once Q i (request req) a t = Inr (r, e)"
    "query_loop conf Q i (Suc n) err req =
       (if e = None then Inr (req\<lparr>currentUpstream := u, response := r\<rparr>, None)
        else query_loop conf Q (i + 1) n e (req\<lparr>currentUpstream := u, response := r\<rparr>))"
    by (rule query_loop_step [OF assms(1) Suc.prems, of Q i n err]) (simp add: drawn_def)
  have res: "try_result conf Q (request req) i = Inr (r, e)" using s(1-3) by (simp add: try_result_def)
  show ?case
  proof (cases e)
    case None
    then show ?thesis using res s(2,4) by (intro disjI1 exI [of _ i] exI [of _ r]) auto
  next
    case (Some e')
    let ?req = "req\<lparr>currentUpstream := u, response := r\<rparr>"
    have f: "try_fails conf Q (request req) i" using res Some by (simp add: try_fails_def)
    have l: "query_loop conf Q i (Suc n) err req = query_loop conf Q (i + 1) n e ?req" using s(4) Some by simp
    have "no_IXFR (request ?req)" using Suc.prems by simp
    from Suc.IH [OF this, of "i + 1" e] show ?thesis
    proof (elim disjE)
      assume "\<exists>k r. i + 1 \<le> k \<and> k < i + 1 + n \<and> try_result conf Q (request ?req) k = Inr (r, None)
          \<and> (\<forall>j. i + 1 \<le> j \<and> j < k \<longrightarrow> try_fails conf Q (request ?req) j)
          \<and> query_loop conf Q (i + 1) n e ?req = Inr (?req\<lparr>currentUpstream := drawn conf Q k, response := r\<rparr>, None)"
      then obtain k r' where k: "i + 1 \<le> k" "k < i + 1 + n" "try_result conf Q (request req) k = Inr (r', None)"
        "\<forall>j. i + 1 \<le> j \<and> j < k \<longrightarrow> try_fails conf Q (request req) j"
        "query_loop conf Q (i + 1) n e ?req = Inr (?req\<lparr>currentUpstream := drawn conf Q k, response := r'\<rparr>, None)"
        by auto
      have "\<forall>j. i \<le> j \<and> j < k \<longrightarrow> try_fails conf Q (request req) j" by (rule all_from_Suc [where P = "try_fails conf Q (request req)", OF f k(4)])
      then show ?thesis using k l by (intro disjI1 exI [of _ k] exI [of _ r']) simp
    next
      assume a: "(\<forall>j. i + 1 \<le> j \<and> j < i + 1 + n \<longrightarrow> try_fails conf Q (request ?req) j)
          \<and> (\<exists>req' e'. query_loop conf Q (i + 1) n e ?req = Inr (req', if n = 0 then e else Some e'))"
      have "\<forall>j. i + 1 \<le> j \<and> j < i + Suc n \<longrightarrow> try_fails conf Q (request req) j" using a by simp
      then have "\<forall>j. i \<le> j \<and> j < i + Suc n \<longrightarrow> try_fails conf Q (request req) j" by (rule all_from_Suc [where P = "try_fails conf Q (request req)", OF f])
      moreover have "\<exists>req' e'. query_loop conf Q i (Suc n) err req = Inr (req', Some e')"
        using a l Some by (cases "n = 0") auto
      ultimately show ?thesis by simp
    qed
  qed
qed auto

subsection \<open>Properties\<close>

text \<open>Property C18.  With a validated configuration and without an IXFR question \<open>doDNSQuery\<close> never
  panics.  It returns the answer of the first try that succeeds, with the upstream drawn for it, and
  an error only if all of the configured number of tries have failed.\<close>

theorem doDNSQuery_first_success:
  assumes "config_ok conf" "no_IXFR (request req)"
  shows "(\<exists>k r. k < Tries conf \<and> try_result conf Q (request req) k = Inr (r, None)
      \<and> (\<forall>j < k. try_fails conf Q (request req) j)
      \<and> doDNSQuery conf Q req = Inr (req\<lparr>currentUpstream := drawn conf Q k, response := r\<rparr>, None)) \<or>
    ((\<forall>j < Tries conf. try_fails conf Q (request req) j) \<and> (\<exists>req' e. doDNSQuery conf Q req = Inr (req', Some e)))"
proof -
  have "0 < Tries conf" using assms(1) by (simp add: config_ok_def)
  then show ?thesis
    using query_loop_outcome [OF assms, of 0 "Tries conf" Q None] by (simp add: doDNSQuery_def)
qed

definition sample_query_env :: query_env where
  "sample_query_env = \<lparr>qRand = (\<lambda>i. i), qExchange = (\<lambda>i k t m a. if i = 0 then (None, Some ''timeout'')
     else (Some (m\<lparr>Response := True\<rparr>), None))\<rparr>"

definition two_tries :: server_config where
  "two_tries = (config_defaults empty_config)\<lparr>Tries := 2\<rparr>"

lemma two_tries_ok: "config_ok two_tries"
  using default_upstreams_ok by (simp add: two_tries_def config_ok_def config_defaults_def empty_config_def)

theorem doDNSQuery_first_success_witness:
  "\<exists>r. doDNSQuery two_tries sample_query_env new_request
     = Inr (new_request\<lparr>currentUpstream := ''udp:8.8.4.4:53'', response := r\<rparr>, None)"
proof -
  let ?m = "request new_request"
  have n: "no_IXFR ?m" by (simp add: no_IXFR_def new_request_def new_msg_def)
  have d: "drawn two_tries sample_query_env (Suc 0) = ''udp:8.8.4.4:53''" and t: "Tries two_tries = 2"
    by (simp_all add: two_tries_def drawn_def sample_query_env_def config_defaults_def empty_config_def)
  have a: "addressAndType ''udp:8.8.4.4:53'' = (''8.8.4.4:53'', ''udp'')" by code_simp
  have e: "qExchange sample_query_env i k tr m x =
      (if i = 0 then (None, Some ''timeout'') else (Some (m\<lparr>Response := True\<rparr>), None))" for i k tr m x
    by (simp add: sample_query_env_def)
  have i: "\<not> -1 < indexQuestionType ?m c" "\<not> Truncated ?m" for c
    by (simp_all add: indexQuestionType_def new_request_def new_msg_def)
  have s: "try_result two_tries sample_query_env ?m (Suc 0) = Inr (Some (?m\<lparr>Response := True\<rparr>), None)"
    by (simp add: try_result_def d a query_once_def query_udp_def e i)
  have "try_result two_tries sample_query_env ?m 0 \<noteq> Inr (r, None)" for r
    by (auto simp: try_result_def query_once_def query_udp_def e i split: prod.split)
  then have k: "k = Suc 0" if "k < 2" "try_result two_tries sample_query_env ?m k = Inr (r, None)" for k r
    using that by (auto simp: less_2_cases_iff)
  have "\<not> try_fails two_tries sample_query_env ?m (Suc 0)" using s by (simp add: try_fails_def)
  then show ?thesis
    using doDNSQuery_first_success [OF two_tries_ok n, of sample_query_env] k d unfolding t
    by (metis One_nat_def one_less_numeral_iff semiring_norm(76))
qed

text \<open>A truncated UDP answer is never returned: without an IXFR question, a truncated
  answer that came over UDP without error is replaced by the outcome of a TCP exchange with the same
  server; any other outcome of the UDP exchange is returned as it is.\<close>

theorem truncated_answer_retried:
  assumes "no_IXFR m"
  shows "query_udp Q i m a = Inr (case qExchange Q i 0 UDP m a of
     (Some x, None) \<Rightarrow> if Truncated x then qExchange Q i 1 TCP m a else (Some x, None)
   | r \<Rightarrow> r)"
proof -
  have "\<not> indexQuestionType m TypeIXFR > -1" using assms by (simp add: indexQuestionType_iff no_IXFR_def)
  then show ?thesis by (auto simp: query_udp_def Let_def split: prod.split option.split)
qed

theorem truncated_answer_retried_witness:
  "query_udp \<lparr>qRand = id, qExchange = (\<lambda>i k t m a. (Some (new_msg\<lparr>Truncated := (t = UDP)\<rparr>), None))\<rparr> 0 new_msg ''8.8.8.8:53''
     = Inr (Some new_msg, None)"
  using truncated_answer_retried [of new_msg "\<lparr>qRand = id, qExchange = (\<lambda>i k t m a. (Some (new_msg\<lparr>Truncated := (t = UDP)\<rparr>), None))\<rparr>" 0 "''8.8.8.8:53''"]
  by (simp add: no_IXFR_def new_msg_def)

text \<open>An IXFR question to a UDP upstream that does not answer ends in a nil pointer
  dereference instead of an error or another try.\<close>

theorem IXFR_without_answer_panics:
  assumes "config_ok conf" "\<exists>q \<in> set (msgQuestion (request req)). Qtype q = TypeIXFR"
    "\<forall>q \<in> set (msgQuestion (request req)). Qtype q \<noteq> TypeAXFR"
    "addressAndType (drawn conf Q 0) = (a, ''udp'')" "qExchange Q 0 0 UDP (request req) a = (None, Some e)"
  shows "doDNSQuery conf Q req = Inl NilDereference"
proof -
  have x: "indexQuestionType (request req) TypeIXFR > -1" "\<not> indexQuestionType (request req) TypeAXFR > -1"
    using assms(2,3) by (auto simp: indexQuestionType_iff)
  obtain n where n: "Tries conf = Suc n" using assms(1) by (cases "Tries conf") (auto simp: config_ok_def)
  have "rand_Intn (qRand Q 0) (length (Upstream conf)) = Inr (qRand Q 0 mod length (Upstream conf))"
    using assms(1) by (simp add: rand_Intn_def config_ok_def)
  then show ?thesis using x assms(4,5)
    by (simp add: doDNSQuery_def n drawn_def query_once_def query_udp_def Let_def)
qed

theorem IXFR_without_answer_panics_witness:
  "doDNSQuery two_tries sample_query_env (new_request\<lparr>request := new_msg\<lparr>msgQuestion := [\<lparr>qName = ''a.'', Qtype = TypeIXFR, Qclass = 1\<rparr>]\<rparr>\<rparr>)
     = Inl NilDereference"
proof -
  have d: "drawn two_tries sample_query_env 0 = ''udp:8.8.8.8:53''"
    by (simp add: two_tries_def drawn_def sample_query_env_def config_defaults_def empty_config_def)
  have a: "addressAndType ''udp:8.8.8.8:53'' = (''8.8.8.8:53'', ''udp'')" by code_simp
  have e: "qExchange sample_query_env 0 0 UDP m x = (None, Some ''timeout'')" for m x
    by (simp add: sample_query_env_def)
  show ?thesis
    by (rule IXFR_without_answer_panics [OF two_tries_ok, where a = "''8.8.8.8:53''" and e = "''timeout''"])
      (simp_all add: d a e TypeIXFR_def TypeAXFR_def)
qed

end
