(* ===== verification/Server_Request.thy ===== *)
theory Server_Request
  imports Server_Query Global_IP Go_Http Go_Base64 Go_Time
begin

section \<open>Parsing requests: google.go, ietf.go and findClientIP of doh-server\<close>

text \<open>
  A request carries its method, headers, remote address, the values of its form (query string and
  body parameters together, as \<open>FormValue\<close> sees them), those of the query string alone, and the
  outcome of reading its body.  Header names are written as the program writes them.  \<open>server_env\<close>
  holds what comes from outside the repository or from the machine: the time, the random message
  identifier, the IDNA conversion, the quoting of \<open>%q\<close>, upper case of non-ASCII text, the resolver and
  the JSON encoder.  Lines that only write to the log are left out.
\<close>

record server_request =
  srMethod :: string
  srHeader :: http_header
  srRemoteAddr :: string
  srForm :: http_header
  srQuery :: http_header
  srBody :: "string + bytes"

abbreviation FormValue :: "server_request \<Rightarrow> string \<Rightarrow> string" where
  "FormValue r k \<equiv> header_get (srForm r) k"

record server_env =
  seNow :: int
  seNowDate :: int
  seId :: u16
  seToASCII :: "string \<Rightarrow> string + string"
  seUpper :: "string \<Rightarrow> string"
  seQuote :: "string \<Rightarrow> string"
  seResolveTCP :: "string \<Rightarrow> string + ip"
  seEncode :: "json_value \<Rightarrow> string + bytes"

subsection \<open>findClientIP\<close>

fun first_global :: "'t iptree \<Rightarrow> string list \<Rightarrow> bytes option" where
  "first_global T [] = None"
| "first_global T (addr # addrs) =
     (let x = ParseIP (TrimSpace addr) in if IsGlobalIP T x then x else first_global T addrs)"

definition findClientIP :: "server_config \<Rightarrow> 't iptree \<Rightarrow> server_env \<Rightarrow> server_request \<Rightarrow> ip" where
  "findClientIP conf T E r =
     (if EqualFold (header_get (srQuery r) ''no_ecs'') ''true'' then None
      else
        let xff = header_get (srHeader r) ''X-Forwarded-For'';
            fwd = (if xff \<noteq> [] then first_global T (Split xff CHR '','') else None) in
        if fwd \<noteq> None then fwd
        else
          let xri = header_get (srHeader r) ''X-Real-IP'';
              x = ParseIP (TrimSpace xri) in
          if xri \<noteq> [] \<and> (ECSAllowNonGlobalIP conf \<or> IsGlobalIP T x) then x
          else case seResolveTCP E (srRemoteAddr r) of
            Inl err \<Rightarrow> None
          | Inr x \<Rightarrow> if ECSAllowNonGlobalIP conf \<or> IsGlobalIP T x then x else None)"

subsection \<open>Google requests\<close>

definition bad_subnet :: "(string \<Rightarrow> string) \<Rightarrow> string \<Rightarrow> string" where
  "bad_subnet quote ecs = ''Invalid argument value: '' @ [CHR 0x22] @ ''edns_client_subnet'' @ [CHR 0x22] @ '' = '' @ quote ecs"

definition parseSubnet :: "(string \<Rightarrow> string) \<Rightarrow> string \<Rightarrow> string + u16 \<times> bytes \<times> u8" where
  "parseSubnet quote ecs =
     (case IndexByte ecs CHR ''/'' of
        None \<Rightarrow>
          (case ParseIP ecs of
             None \<Rightarrow> Inl (bad_subnet quote ecs)
           | Some x \<Rightarrow> (case To4 x of Some v \<Rightarrow> Inr (1, v, 24) | None \<Rightarrow> Inr (2, x, 56)))
      | Some slash \<Rightarrow>
          (case ParseIP (take slash ecs) of
             None \<Rightarrow> Inl (bad_subnet quote ecs)
           | Some x \<Rightarrow>
               let (family, addr) = (case To4 x of Some v \<Rightarrow> (1, v) | None \<Rightarrow> (2, x)) in
               (case ParseUint 8 (drop (slash + 1) ecs) of
                  None \<Rightarrow> Inl (bad_subnet quote ecs)
                | Some n \<Rightarrow> Inr (family, addr, of_nat n))))"

definition invalid_argument :: "string \<Rightarrow> string \<Rightarrow> DNSRequest" where
  "invalid_argument k rest = new_request\<lparr>errcode := 400,
     errtext := ''Invalid argument value: '' @ [CHR 0x22] @ k @ [CHR 0x22] @ rest\<rparr>"

definition parse_type :: "dns_lib \<Rightarrow> server_env \<Rightarrow> string \<Rightarrow> u16 option" where
  "parse_type L E s =
     (if s = [] then Some 1
      else case ParseUint 16 s of
        Some v \<Rightarrow> Some (of_nat v)
      | None \<Rightarrow> StringToType L (ToUpper (seUpper E) s))"

definition parse_cd :: "string \<Rightarrow> bool option" where
  "parse_cd s =
     (if s = ''1'' \<or> EqualFold s ''true'' then Some True
      else if s = ''0'' \<or> EqualFold s ''false'' \<or> s = [] then Some False else None)"

text \<open>The client subnet of a Google request, from its parameter or from the client's address.\<close>

definition google_subnet ::
  "server_config \<Rightarrow> 't iptree \<Rightarrow> server_env \<Rightarrow> server_request \<Rightarrow> string + u16 \<times> ip \<times> u8" where
  "google_subnet conf T E r =
     (let ecs = FormValue r ''edns_client_subnet'' in
      if ecs \<noteq> [] then
        (case parseSubnet (seQuote E) (if ecs = ''0/0'' then ''0.0.0.0/0'' else ecs) of
           Inl err \<Rightarrow> Inl err
         | Inr (family, addr, netmask) \<Rightarrow> Inr (family, Some addr, netmask))
      else
        Inr (case findClientIP conf T E r of
           None \<Rightarrow> (0, None, 0)
         | Some x \<Rightarrow> (case To4 x of Some v \<Rightarrow> (1, Some v, 24) | None \<Rightarrow> (2, Some x, 56))))"

definition parseRequestGoogle ::
  "dns_lib \<Rightarrow> server_config \<Rightarrow> 't iptree \<Rightarrow> server_env \<Rightarrow> server_request \<Rightarrow> DNSRequest" where
  "parseRequestGoogle L conf T E r =
     (let name = FormValue r ''name'' in
      if name = [] then invalid_argument ''name'' []
      else case seToASCII E name of
        Inl err \<Rightarrow> invalid_argument ''name'' ('' = '' @ seQuote E name @ '' ('' @ err @ '')'')
      | Inr name \<Rightarrow>
          (case parse_type L E (FormValue r ''type'') of
             None \<Rightarrow> invalid_argument ''type'' ('' = '' @ seQuote E (FormValue r ''type''))
           | Some rrType \<Rightarrow>
               (case parse_cd (FormValue r ''cd'') of
                  None \<Rightarrow> invalid_argument ''cd'' ('' = '' @ seQuote E (FormValue r ''cd''))
                | Some cd \<Rightarrow>
                    (case google_subnet conf T E r of
                       Inl err \<Rightarrow> new_request\<lparr>errcode := 400, errtext := err\<rparr>
                     | Inr (family, addr, netmask) \<Rightarrow>
                         let msg = (SetQuestion L (seId E) (Fqdn L name) rrType new_msg)\<lparr>CheckingDisabled := cd\<rparr>;
                             opts = (if addr \<noteq> None then [EDNS0_SUBNET \<lparr>ecsCode = EDNS0SUBNET, ecsFamily = family,
                               SourceNetmask = netmask, SourceScope = 0, ecsAddress = addr\<rparr>] else [])
                         in new_request\<lparr>request := msg\<lparr>msgExtra := msgExtra msg @ [OPT (new_opt L DefaultMsgSize True) opts]\<rparr>,
                              isTailored := FormValue r ''edns_client_subnet'' = []\<rparr>))))"

subsection \<open>IETF requests\<close>

definition dnscrypt_query :: bytes where
  "dnscrypt_query = [0xca, 0xfe, 0x01, 0x00, 0x00, 0x01, 0x00, 0x00, 0x00, 0x00, 0x00, 0x01, 0x00, 0x00, 0x02, 0x00, 0x01,
     0x00, 0x00, 0x29, 0x10, 0x00, 0x00, 0x00, 0x80, 0x00, 0x00, 0x00]"

definition dnscrypt_reply :: bytes where
  "dnscrypt_reply = [0xca, 0xfe, 0x81, 0x05, 0x00, 0x01, 0x00, 0x01, 0x00, 0x00, 0x00, 0x00, 0x00, 0x00, 0x02, 0x00, 0x01,
     0x00, 0x00, 0x10, 0x00, 0x01, 0x00, 0x00, 0x00, 0x00, 0x00, 0xa8, 0xa7] @ [13, 10]
     @ bytes_of_string ''Workaround a bug causing DNSCrypt-Proxy to expect a response with TransactionID = 0xcafe'' @ [13, 10]
     @ bytes_of_string ''Refer to https://github.com/jedisct1/dnscrypt-proxy/issues/526 for details.''"

definition patchDNSCryptProxyReqID ::
  "server_env \<Rightarrow> server_request \<Rightarrow> bytes \<Rightarrow> http_writer \<Rightarrow> http_writer \<times> bool" where
  "patchDNSCryptProxyReqID E r requestBinary w =
     (if Contains (header_get (srHeader r) ''User-Agent'') ''dnscrypt-proxy'' \<and> requestBinary = dnscrypt_query then
        let w = w_Set ''Content-Type'' ''application/dns-message'' w;
            w = w_Set ''Vary'' ''Accept, User-Agent'' w;
            w = w_Set ''Date'' (format_http (seNowDate E)) w
        in (w_Write dnscrypt_reply w, True)
      else (w, False))"

text \<open>The binary query of a request: the base64 parameter \<open>dns\<close>, or the body if that is empty.\<close>

definition request_binary :: "server_env \<Rightarrow> server_request \<Rightarrow> DNSRequest + bytes" where
  "request_binary E r =
     (let requestBase64 = FormValue r ''dns''; ct = header_get (srHeader r) ''Content-Type'' in
      case DecodeString requestBase64 of
        None \<Rightarrow> Inl (invalid_argument ''dns'' ('' = '' @ seQuote E requestBase64))
      | Some b \<Rightarrow>
          (case (if b = [] \<and> (ct = ''application/dns-message'' \<or> ct = ''application/dns-udpwireformat'')
                 then srBody r else Inr b) of
             Inl err \<Rightarrow> Inl (new_request\<lparr>errcode := 400, errtext := ''Failed to read request body ('' @ err @ '')''\<rparr>)
           | Inr b \<Rightarrow> if b = [] then Inl (invalid_argument ''dns'' []) else Inr b))"

definition client_subnet :: "server_config \<Rightarrow> bytes \<Rightarrow> edns0_subnet" where
  "client_subnet conf x =
     (case To4 x of
        Some v \<Rightarrow>
          if ECSUsePreciseIP conf
          then \<lparr>ecsCode = EDNS0SUBNET, ecsFamily = 1, SourceNetmask = 32, SourceScope = 0, ecsAddress = Some v\<rparr>
          else \<lparr>ecsCode = EDNS0SUBNET, ecsFamily = 1, SourceNetmask = 24, SourceScope = 0, ecsAddress = Mask v (CIDRMask 24 32)\<rparr>
      | None \<Rightarrow>
          if ECSUsePreciseIP conf
          then \<lparr>ecsCode = EDNS0SUBNET, ecsFamily = 2, SourceNetmask = 128, SourceScope = 0, ecsAddress = Some x\<rparr>
          else \<lparr>ecsCode = EDNS0SUBNET, ecsFamily = 2, SourceNetmask = 56, SourceScope = 0, ecsAddress = Mask x (CIDRMask 56 128)\<rparr>)"

definition parseRequestIETF ::
  "dns_lib \<Rightarrow> server_config \<Rightarrow> 't iptree \<Rightarrow> server_env \<Rightarrow> http_writer \<Rightarrow> server_request \<Rightarrow> go_panic + http_writer \<times> DNSRequest" where
  "parseRequestIETF L conf T E w r =
     (case request_binary E r of
        Inl req \<Rightarrow> Inr (w, req)
      | Inr requestBinary \<Rightarrow>
          let (w, patched) = patchDNSCryptProxyReqID E r requestBinary w in
          if patched then Inr (w, new_request\<lparr>errcode := 444\<rparr>)
          else case Unpack L requestBinary of
            Inl err \<Rightarrow> Inr (w, new_request\<lparr>errcode := 400, errtext := ''DNS packet parse failure ('' @ err @ '')''\<rparr>)
          | Inr msg \<Rightarrow>
              let transactionID = Id msg;
                  (msg, i) = ensure_opt L (msg\<lparr>Id := seId E\<rparr>) in
              (case find_subnet (rr_options (msgExtra msg ! i)) of
                 Inl p \<Rightarrow> Inl p
               | Inr subnet \<Rightarrow>
                   let msg = (case subnet of
                          Some _ \<Rightarrow> msg
                        | None \<Rightarrow> (case findClientIP conf T E r of
                              None \<Rightarrow> msg
                            | Some x \<Rightarrow> append_option i (EDNS0_SUBNET (client_subnet conf x)) msg))
                   in Inr (w, new_request\<lparr>request := msg, transactionID := transactionID, isTailored := subnet = None\<rparr>)))"

subsection \<open>Facts\<close>

lemma first_global_SomeD: "first_global T addrs = Some x \<Longrightarrow> IsGlobalIP T (Some x) \<and> length x = 16"
  by (induction addrs) (auto simp: Let_def split: if_splits dest: ParseIP_length)

lemma findClientIP_global:
  assumes "\<not> ECSAllowNonGlobalIP conf" "findClientIP conf T E r = Some x"
  shows "IsGlobalIP T (Some x)"
  using assms first_global_SomeD unfolding findClientIP_def Let_def
  by (auto split: if_splits sum.splits)

lemma findClientIP_length:
  assumes "findClientIP conf T E r = Some x" "\<And>a y. seResolveTCP E a = Inr (Some y) \<Longrightarrow> length y \<in> {4, 16}"
  shows "length x \<in> {4, 16}"
proof -
  consider "first_global T (Split (header_get (srHeader r) ''X-Forwarded-For'') CHR '','') = Some x"
    | "ParseIP (TrimSpace (header_get (srHeader r) ''X-Real-IP'')) = Some x" | "seResolveTCP E (srRemoteAddr r) = Inr (Some x)"
    using assms(1) unfolding findClientIP_def Let_def by (auto split: if_splits sum.splits)
  then show ?thesis using first_global_SomeD ParseIP_length assms(2) by cases auto
qed

lemma client_subnet_facts:
  assumes "length x \<in> {4, 16}" "\<not> ECSUsePreciseIP conf"
  shows "client_subnet conf x = (case To4 x of
      Some v \<Rightarrow> \<lparr>ecsCode = EDNS0SUBNET, ecsFamily = 1, SourceNetmask = 24, SourceScope = 0, ecsAddress = Some (take 3 v @ [0])\<rparr>
    | None \<Rightarrow> \<lparr>ecsCode = EDNS0SUBNET, ecsFamily = 2, SourceNetmask = 56, SourceScope = 0, ecsAddress = Some (take 7 x @ replicate 9 0)\<rparr>)"
proof (cases "To4 x")
  case None
  then have "length x = 16" using assms(1) To4_None_length by auto
  then show ?thesis using None assms(2) by (simp add: client_subnet_def Mask_56)
next
  case (Some v)
  then show ?thesis using assms(2) Mask_24 [OF To4_length [OF Some]] by (simp add: client_subnet_def)
qed

lemma google_subnet_error: "google_subnet conf T E r = Inl err \<Longrightarrow> err \<noteq> []"
  by (auto simp: google_subnet_def parseSubnet_def bad_subnet_def Let_def split: if_splits option.splits sum.splits prod.splits)

lemma parseRequestIETF_eq:
  assumes "dns_lib_ok L" "request_binary E r = Inr b" "Unpack L b = Inr msg"
    "patchDNSCryptProxyReqID E r b w = (w, False)"
  shows "\<exists>m i subnet. ensure_opt L (msg\<lparr>Id := seId E\<rparr>) = (m, i) \<and> find_subnet (rr_options (msgExtra m ! i)) = Inr subnet
    \<and> parseRequestIETF L conf T E w r = Inr (w, new_request
        \<lparr>request := (case (subnet, findClientIP conf T E r) of
            (None, Some x) \<Rightarrow> append_option i (EDNS0_SUBNET (client_subnet conf x)) m | _ \<Rightarrow> m),
          transactionID := Id msg, isTailored := subnet = None\<rparr>)"
proof -
  have "wf_msg (msg\<lparr>Id := seId E\<rparr>)" using dns_lib_okD(9) [OF assms(1,3)] by (simp add: wf_msg_def)
  moreover obtain m i where e: "ensure_opt L (msg\<lparr>Id := seId E\<rparr>) = (m, i)" by (cases "ensure_opt L (msg\<lparr>Id := seId E\<rparr>)")
  ultimately obtain h os where "msgExtra m ! i = OPT h os" "list_all wf_option os"
    using ensure_opt_facts [OF assms(1)] by metis
  then obtain subnet where "find_subnet (rr_options (msgExtra m ! i)) = Inr subnet"
    using find_subnet_total by fastforce
  then show ?thesis using e assms(2-4)
    by (intro exI [of _ m] exI [of _ i] exI [of _ subnet])
      (auto simp: parseRequestIETF_def Let_def split: option.split)
qed

lemma parseRequestIETF_total:
  assumes "dns_lib_ok L"
  shows "\<exists>x. parseRequestIETF L conf T E w r = Inr x"
proof (cases "request_binary E r")
  case (Inl req)
  then show ?thesis by (simp add: parseRequestIETF_def)
next
  case (Inr b)
  show ?thesis
  proof (cases "snd (patchDNSCryptProxyReqID E r b w)")
    case True
    then show ?thesis using Inr by (auto simp: parseRequestIETF_def Let_def split: prod.split)
  next
    case False
    then have p: "patchDNSCryptProxyReqID E r b w = (w, False)"
      by (auto simp: patchDNSCryptProxyReqID_def Let_def)
    show ?thesis
    proof (cases "Unpack L b")
      case (Inl err)
      then show ?thesis using Inr p by (simp add: parseRequestIETF_def)
    next
      case (Inr msg)
      then show ?thesis using parseRequestIETF_eq [OF assms \<open>request_binary E r = Inr b\<close> Inr p] by blast
    qed
  qed
qed

text \<open>\<open>parseSubnet\<close> reads an IPv4 address with or without a prefix length.\<close>

lemma parseSubnet_v4:
  assumes "To4 x = Some v" "n < 256"
  shows "parseSubnet quote (IP_String x @ ''/'' @ FormatUint n) = Inr (1, v, of_nat n)
    \<and> parseSubnet quote (IP_String x) = Inr (1, v, 24)"
proof -
  have v: "length v = 4" by (rule To4_length [OF assms(1)])
  have s: "IP_String x = dotted v" using assms(1) by (auto simp: IP_String_def To4_def)
  have i: "IndexByte (dotted v @ CHR ''/'' # FormatUint n) CHR ''/'' = Some (length (dotted v))"
    by (rule IndexByte_append [OF slash_not_dotted [OF v]])
  have "IndexByte (dotted v) CHR ''/'' = None" using slash_not_dotted [OF v] by simp
  moreover have "ParseUint 8 (FormatUint n) = Some n" using assms(2) by (intro ParseUint_FormatUint) simp
  ultimately show ?thesis using i v by (simp add: s parseSubnet_def ParseIP_dotted)
qed

subsection \<open>Properties\<close>


definition sample_server_env :: server_env where
  "sample_server_env = \<lparr>seNow = 0, seNowDate = 0, seId = 0x1234, seToASCII = Inr, seUpper = id, seQuote = id,
     seResolveTCP = (\<lambda>a. Inr (Some [10, 0, 0, 1])), seEncode = (\<lambda>v. Inr [])\<rparr>"

definition sample_request :: server_request where
  "sample_request = \<lparr>srMethod = ''GET'', srHeader = [(''X-Forwarded-For'', ''10.1.1.1, 8.8.4.4'')], srRemoteAddr = ''10.0.0.1:80'',
     srForm = [(''name'', ''example.com'')], srQuery = [(''no_ecs'', ''TRUE'')], srBody = Inr []\<rparr>"

definition forwarded_request :: server_request where
  "forwarded_request = sample_request\<lparr>srHeader := [(''X-Forwarded-For'', ''10.0.0.1,203.0.114.77'')], srQuery := []\<rparr>"





definition binary_request :: server_request where
  "binary_request = sample_request\<lparr>srHeader := [], srForm := [(''dns'', ''AAAB'')], srQuery := [(''no_ecs'', ''true'')]\<rparr>"




end
