(* ===== verification/Server_Handler.thy ===== *)
theory Server_Handler
  imports Server_Request Json_Marshal
begin

section \<open>The HTTP handler of the server\<close>

text \<open>
  \<open>FormatError\<close> of json-dns, the two functions that generate responses, and \<open>handlerFunc\<close> of
  doh-server/server.go, which negotiates the content types and calls the parsers, the query and the
  generators.  A JSON document is the tree that the struct tags of response.go and error.go describe;
  its text is made by the encoder of the environment.  The handler returns the state of the response
  writer, or a panic; \<open>log.Fatalln\<close> ends the program and is a panic too.
\<close>

definition USER_AGENT :: string where
  "USER_AGENT = ''DNS-over-HTTPS/2.3.10 (+https://github.com/m13253/dns-over-https)''"

subsection \<open>JSON documents\<close>

definition json_nat :: "nat \<Rightarrow> json_value" where
  "json_nat n = JNumber (of_nat n)"

definition question_json :: "json_question \<Rightarrow> json_value" where
  "question_json q = JObject [(''name'', JString (jqName q)), (''type'', json_nat (unat (jqType q)))]"

definition rr_json :: "json_rr \<Rightarrow> json_value" where
  "rr_json r = JObject [(''name'', JString (jrName r)), (''type'', json_nat (unat (jrType r))),
     (''TTL'', json_nat (unat (jrTTL r))), (''Expires'', JString (jrExpiresStr r)), (''data'', JString (jrData r))]"

definition omitempty :: "string \<Rightarrow> 'a list \<Rightarrow> ('a list \<Rightarrow> json_value) \<Rightarrow> (string \<times> json_value) list" where
  "omitempty k xs f = (if xs = [] then [] else [(k, f xs)])"

definition response_json :: "json_response \<Rightarrow> json_value" where
  "response_json resp = JObject ([(''Status'', json_nat (unat (Status resp))), (''TC'', JBool (TC resp)), (''RD'', JBool (RD resp)),
     (''RA'', JBool (RA resp)), (''AD'', JBool (AD resp)), (''CD'', JBool (CD resp)),
     (''Question'', JArray (map question_json (Question resp)))]
     @ omitempty ''Answer'' (Answer resp) (\<lambda>rs. JArray (map rr_json rs))
     @ omitempty ''Authority'' (Authority resp) (\<lambda>rs. JArray (map rr_json rs))
     @ omitempty ''Additional'' (Additional resp) (\<lambda>rs. JArray (map rr_json rs))
     @ omitempty ''Comment'' (Comment resp) JString
     @ omitempty ''edns_client_subnet'' (EdnsClientSubnet resp) JString)"

definition dnsError_json :: "string \<Rightarrow> json_value" where
  "dnsError_json comment = JObject ((''Status'', json_nat 2) # omitempty ''Comment'' comment JString)"

definition FormatError :: "server_env \<Rightarrow> string \<Rightarrow> int \<Rightarrow> http_writer \<Rightarrow> go_panic + http_writer" where
  "FormatError E comment code w =
     (let w = w_Set ''Content-Type'' ''application/json; charset=UTF-8'' w in
      case seEncode E (dnsError_json comment) of
        Inl err \<Rightarrow> Inl (ExplicitPanic err)
      | Inr b \<Rightarrow> Inr (w_Write b (w_WriteHeader code w)))"

subsection \<open>Generating responses\<close>

definition cache_headers :: "json_response \<Rightarrow> bool \<Rightarrow> http_writer \<Rightarrow> http_writer" where
  "cache_headers resp tailored w =
     (if HaveTTL resp then
        w_Set ''Expires'' (format_http (EarliestExpires resp))
          (w_Set ''Cache-Control'' ((if tailored then ''private, max-age='' else ''public, max-age='') @ FormatUint (unat (LeastTTL resp))) w)
      else w)"

definition generateResponseGoogle ::
  "dns_lib \<Rightarrow> server_env \<Rightarrow> DNSRequest \<Rightarrow> http_writer \<Rightarrow> go_panic + http_writer" where
  "generateResponseGoogle L E req w =
     (case response req of
        None \<Rightarrow> Inl NilDereference
      | Some msg \<Rightarrow>
          (case Marshal L (seNow E) msg of
             Inl p \<Rightarrow> Inl p
           | Inr respJSON \<Rightarrow>
               (case seEncode E (response_json respJSON) of
                  Inl err \<Rightarrow> FormatError E (''DNS packet parse failure ('' @ err @ '')'') 500 w
                | Inr respStr \<Rightarrow>
                    let w = w_Set ''Content-Type'' ''application/json; charset=UTF-8'' w;
                        w = w_Set ''Date'' (format_http (seNowDate E)) w;
                        w = w_Set ''Last-Modified'' (format_http (seNowDate E)) w;
                        w = w_Set ''Vary'' ''Accept'' w;
                        w = cache_headers respJSON (isTailored req) w;
                        w = (if Status respJSON = 2 then w_WriteHeader 503 w else w)
                    in Inr (w_Write respStr w))))"

definition generateResponseIETF ::
  "dns_lib \<Rightarrow> server_env \<Rightarrow> DNSRequest \<Rightarrow> http_writer \<Rightarrow> go_panic + http_writer" where
  "generateResponseIETF L E req w =
     (case response req of
        None \<Rightarrow> Inl NilDereference
      | Some msg \<Rightarrow>
          (case Marshal L (seNow E) msg of
             Inl p \<Rightarrow> Inl p
           | Inr respJSON \<Rightarrow>
               (case Pack L (msg\<lparr>Id := transactionID req\<rparr>) of
                  Inl err \<Rightarrow> FormatError E (''DNS packet construct failure ('' @ err @ '')'') 500 w
                | Inr respBytes \<Rightarrow>
                    let w = w_Set ''Content-Type'' ''application/dns-message'' w;
                        w = w_Set ''Date'' (format_http (seNowDate E)) w;
                        w = w_Set ''Last-Modified'' (format_http (seNowDate E)) w;
                        w = w_Set ''Vary'' ''Accept'' w;
                        w = cache_headers respJSON (isTailored req) w;
                        w = (if Status respJSON = 2 then w_WriteHeader 503 w else w)
                    in Inr (w_Write respBytes w))))"

subsection \<open>handlerFunc\<close>

definition with_real_ip :: "server_request \<Rightarrow> server_request" where
  "with_real_ip r =
     (let realIP = header_get (srHeader r) ''X-Real-IP'' in
      if realIP = [] then r
      else
        let addr = (if CHR '':'' \<in> set realIP then ''['' @ realIP @ '']:0'' else realIP @ '':0'')
        in r\<lparr>srRemoteAddr := (if SplitHostPort addr = None then realIP else addr)\<rparr>)"

definition common_headers :: "http_writer \<Rightarrow> http_writer" where
  "common_headers w =
     (let w = w_Set ''Access-Control-Allow-Headers'' ''Content-Type'' w;
          w = w_Set ''Access-Control-Allow-Methods'' ''GET, HEAD, OPTIONS, POST'' w;
          w = w_Set ''Access-Control-Allow-Origin'' ''*'' w;
          w = w_Set ''Access-Control-Max-Age'' ''3600'' w;
          w = w_Set ''Server'' USER_AGENT w
      in w_Set ''X-Powered-By'' USER_AGENT w)"

definition content_type :: "server_request \<Rightarrow> string" where
  "content_type r =
     (let ct = (if FormValue r ''ct'' \<noteq> [] then FormValue r ''ct'' else header_get (srHeader r) ''Content-Type'') in
      if ct = [] then
        (if FormValue r ''name'' \<noteq> [] then ''application/dns-json''
         else if FormValue r ''dns'' \<noteq> [] then ''application/dns-message'' else ct)
      else ct)"

fun accepted_type :: "string list \<Rightarrow> string" where
  "accepted_type [] = []"
| "accepted_type (c # cs) =
     (let c = SplitN c CHR '';'' 2 ! 0 in
      if c = ''application/json'' then ''application/json''
      else if c = ''application/dns-udpwireformat'' then ''application/dns-message''
      else if c = ''application/dns-message'' then ''application/dns-message''
      else accepted_type cs)"

definition response_type :: "server_request \<Rightarrow> string \<Rightarrow> string" where
  "response_type r ct =
     (let rt = accepted_type (Split (header_get (srHeader r) ''Accept'') CHR '','') in
      if rt = [] then
        (if ct = ''application/dns-json'' then ''application/json''
         else if ct = ''application/dns-message'' then ''application/dns-message''
         else if ct = ''application/dns-udpwireformat'' then ''application/dns-message'' else rt)
      else rt)"

text \<open>Parsing by content type; \<open>None\<close> for a content type the server does not know.\<close>

definition parse_request ::
  "dns_lib \<Rightarrow> server_config \<Rightarrow> 't iptree \<Rightarrow> server_env \<Rightarrow> http_writer \<Rightarrow> server_request \<Rightarrow> (go_panic + http_writer \<times> DNSRequest) option" where
  "parse_request L conf T E w r =
     (let ct = content_type r in
      if ct = ''application/dns-json'' then Some (Inr (w, parseRequestGoogle L conf T E r))
      else if ct = ''application/dns-message'' then Some (parseRequestIETF L conf T E w r)
      else if ct = ''application/dns-udpwireformat'' then Some (parseRequestIETF L conf T E w r)
      else None)"

definition handlerFunc ::
  "dns_lib \<Rightarrow> server_config \<Rightarrow> 't iptree \<Rightarrow> server_env \<Rightarrow> query_env \<Rightarrow> http_writer \<Rightarrow> server_request \<Rightarrow> go_panic + http_writer" where
  "handlerFunc L conf T E Q w r =
     (let r = with_real_ip r; w = common_headers w in
      if srMethod r = ''OPTIONS'' then Inr (w_Set ''Content-Length'' ''0'' w)
      else case parse_request L conf T E w r of
        None \<Rightarrow> FormatError E (''Invalid argument value: '' @ [CHR 0x22] @ ''ct'' @ [CHR 0x22] @ '' = '' @ seQuote E (content_type r)) 415 w
      | Some (Inl p) \<Rightarrow> Inl p
      | Some (Inr (w, req)) \<Rightarrow>
          if errcode req = 444 then Inr w
          else if errcode req \<noteq> 0 then FormatError E (errtext req) (errcode req) w
          else case doDNSQuery conf Q (patchRootRD req) of
            Inl p \<Rightarrow> Inl p
          | Inr (req, Some err) \<Rightarrow> FormatError E (''DNS query failure ('' @ err @ '')'') 503 w
          | Inr (req, None) \<Rightarrow>
              let rt = response_type r (content_type r) in
              if rt = ''application/json'' then generateResponseGoogle L E req w
              else if rt = ''application/dns-message'' then generateResponseIETF L E req w
              else Inl (ExplicitPanic ''Unknown response Content-Type''))"

subsection \<open>Facts\<close>

text \<open>The contract of an exchange: without an error there is a message, and it is well-formed.  The JSON
  encoder does not fail on documents without cycles or unsupported types.\<close>

definition exchange_ok :: "query_env \<Rightarrow> bool" where
  "exchange_ok Q \<longleftrightarrow> (\<forall>i k t m a r. qExchange Q i k t m a = (r, None) \<longrightarrow> (\<exists>x. r = Some x \<and> wf_msg x))"

definition encode_ok :: "server_env \<Rightarrow> bool" where
  "encode_ok E \<longleftrightarrow> (\<forall>v. \<exists>b. seEncode E v = Inr b)"

lemma query_once_exchanged:
  "query_once Q i m a t = Inr (r, None) \<Longrightarrow> \<exists>k tr. qExchange Q i k tr m a = (r, None)"
  by (auto simp: query_once_def query_udp_def Let_def split: if_splits option.splits prod.splits)

lemma doDNSQuery_response:
  assumes "config_ok conf" "no_IXFR (request req)" "exchange_ok Q"
  obtains (err) req' e where "doDNSQuery conf Q req = Inr (req', Some e)"
  | (ok) req' x where "doDNSQuery conf Q req = Inr (req', None)" "response req' = Some x" "wf_msg x"
      "transactionID req' = transactionID req" "isTailored req' = isTailored req"
proof -
  have "0 < Tries conf" using assms(1) by (simp add: config_ok_def)
  then consider k r where "try_result conf Q (request req) k = Inr (r, None)"
      "doDNSQuery conf Q req = Inr (req\<lparr>currentUpstream := drawn conf Q k, response := r\<rparr>, None)"
    | req' e where "doDNSQuery conf Q req = Inr (req', Some e)"
    using query_loop_outcome [OF assms(1,2), of 0 "Tries conf" Q None] by (auto simp: doDNSQuery_def)
  then show ?thesis
  proof cases
    case (1 k r)
    obtain a t where "addressAndType (drawn conf Q k) = (a, t)" by fastforce
    then have "query_once Q k (request req) a t = Inr (r, None)" using 1(1) by (simp add: try_result_def)
    then obtain x where "r = Some x" "wf_msg x" using query_once_exchanged assms(3) unfolding exchange_ok_def by blast
    then show ?thesis using 1(2) ok by simp
  next
    case 2
    then show ?thesis by (rule err)
  qed
qed

lemma FormatError_total:
  assumes "encode_ok E"
  obtains b where "FormatError E c code w = Inr (w_Write b (w_WriteHeader code (w_Set ''Content-Type'' ''application/json; charset=UTF-8'' w)))"
    "seEncode E (dnsError_json c) = Inr b"
  using assms by (auto simp: encode_ok_def FormatError_def Let_def)

lemma FormatError_ex: "encode_ok E \<Longrightarrow> \<exists>w'. FormatError E c code w = Inr w'"
  using FormatError_total by metis

lemma generate_total:
  assumes "response req = Some msg" "wf_msg msg" "encode_ok E"
  shows "\<exists>w'. generateResponseGoogle L E req w = Inr w'" "\<exists>w'. generateResponseIETF L E req w = Inr w'"
proof -
  obtain resp where M: "Marshal L (seNow E) msg = Inr resp" using Marshal_spec [OF assms(2)] by blast
  show "\<exists>w'. generateResponseGoogle L E req w = Inr w'" "\<exists>w'. generateResponseIETF L E req w = Inr w'"
    using assms(1) M FormatError_ex [OF assms(3)]
    by (auto simp: generateResponseGoogle_def generateResponseIETF_def Let_def split: sum.split)
qed

lemma accepted_type_cases: "accepted_type cs \<in> {[], ''application/json'', ''application/dns-message''}"
  by (induction cs) (auto simp: Let_def)

lemma response_type_cases:
  assumes "ct \<in> {''application/dns-json'', ''application/dns-message'', ''application/dns-udpwireformat''}"
  shows "response_type r ct = ''application/json'' \<or> response_type r ct = ''application/dns-message''"
  using assms accepted_type_cases [of "Split (header_get (srHeader r) ''Accept'') CHR '',''"]
  by (auto simp: response_type_def Let_def)

lemma parse_request_Some:
  assumes "parse_request L conf T E w r = Some x"
  shows "content_type r \<in> {''application/dns-json'', ''application/dns-message'', ''application/dns-udpwireformat''}"
  using assms by (auto simp: parse_request_def Let_def split: if_splits)

lemma parse_request_total:
  assumes "dns_lib_ok L" "parse_request L conf T E w r = Some x"
  shows "\<exists>w' req. x = Inr (w', req)"
proof -
  obtain w' req where p: "parseRequestIETF L conf T E w r = Inr (w', req)"
    using parseRequestIETF_total [OF assms(1), of conf T E w r] by auto
  show ?thesis using assms(2) unfolding parse_request_def Let_def p by (simp split: if_splits) (metis prod.exhaust)+
qed

lemma patchRootRD_simps [simp]:
  "msgQuestion (request (patchRootRD req)) = msgQuestion (request req)"
  "no_IXFR (request (patchRootRD req)) = no_IXFR (request req)"
  "transactionID (patchRootRD req) = transactionID req" "isTailored (patchRootRD req) = isTailored req"
  by (simp_all add: patchRootRD_eq no_IXFR_def)

lemma handlerFunc_returns:
  assumes "config_ok conf" "dns_lib_ok L" "encode_ok E" "exchange_ok Q"
    "\<And>w' req. parse_request L conf T E (common_headers w) (with_real_ip r) = Some (Inr (w', req)) \<Longrightarrow> no_IXFR (request req)"
  shows "\<exists>w'. handlerFunc L conf T E Q w r = Inr w'"
proof -
  let ?r = "with_real_ip r" and ?w = "common_headers w"
  note fe = FormatError_ex [OF assms(3)]
  show ?thesis
  proof (cases "parse_request L conf T E ?w ?r")
    case None
    then show ?thesis using fe by (simp add: handlerFunc_def Let_def)
  next
    case (Some x)
    obtain w' req where x: "x = Inr (w', req)" using parse_request_total [OF assms(2) Some] by blast
    have "no_IXFR (request (patchRootRD req))" using assms(5) Some x by simp
    note q = doDNSQuery_response [OF assms(1) this assms(4)]
    note rt = response_type_cases [OF parse_request_Some [OF Some], of ?r]
    show ?thesis
    proof (rule q)
      fix req' e assume "doDNSQuery conf Q (patchRootRD req) = Inr (req', Some e)"
      then show ?thesis using Some x fe by (simp add: handlerFunc_def Let_def)
    next
      fix req' y assume "doDNSQuery conf Q (patchRootRD req) = Inr (req', None)" "response req' = Some y" "wf_msg y"
      then show ?thesis using Some x fe rt generate_total [of req' y E] assms(3)
        by (auto simp: handlerFunc_def Let_def)
    qed
  qed
qed

subsection \<open>Properties\<close>

text \<open>Property C2.  The handler answers every request: with a validated configuration, whatever the
  headers, the parameters and the answers of the upstreams are, it does not panic; in particular the
  panic for an unknown response type is never reached.  The exception is a question of type IXFR.\<close>

theorem handlerFunc_total:
  assumes "config_ok conf" "dns_lib_ok L" "encode_ok E" "exchange_ok Q"
    "\<And>w' req. parse_request L conf T E (common_headers w) (with_real_ip r) = Some (Inr (w', req)) \<Longrightarrow> no_IXFR (request req)"
  shows "\<exists>w'. handlerFunc L conf T E Q w r = Inr w'"
  by (rule handlerFunc_returns [OF assms])

definition echo_query_env :: query_env where
  "echo_query_env = \<lparr>qRand = (\<lambda>i. i), qExchange = (\<lambda>i k t m a. (Some sample_msg, None))\<rparr>"

lemma echo_query_env_ok: "exchange_ok echo_query_env"
  by (simp add: exchange_ok_def echo_query_env_def sample_msg_wf)

lemma sample_encode_ok: "encode_ok sample_server_env"
  by (simp add: encode_ok_def sample_server_env_def)

theorem handlerFunc_total_witness:
  "\<exists>w'. handlerFunc sample_lib two_tries list_tree sample_server_env echo_query_env new_writer
     (sample_request\<lparr>srForm := []\<rparr>) = Inr w'"
proof -
  have "content_type (with_real_ip (sample_request\<lparr>srForm := []\<rparr>)) = []"
    by (simp add: content_type_def with_real_ip_def sample_request_def header_get_def Let_def)
  then have "parse_request sample_lib two_tries list_tree sample_server_env v (with_real_ip (sample_request\<lparr>srForm := []\<rparr>)) = None" for v
    by (simp add: parse_request_def)
  then show ?thesis
    by (intro handlerFunc_total [OF two_tries_ok sample_lib_ok sample_encode_ok echo_query_env_ok]) simp
qed



text \<open>The same for the JSON response: the body is the text of the marshalled answer, the
  content type is JSON, the status and the caching headers follow the same rules.\<close>

theorem generateResponseGoogle_response:
  assumes "response req = Some msg" "wf_msg msg" "encode_ok E" "wStatus w = None"
  shows "\<exists>w' resp b. generateResponseGoogle L E req w = Inr w' \<and> Marshal L (seNow E) msg = Inr resp
    \<and> seEncode E (response_json resp) = Inr b \<and> wBody w' = wBody w @ b
    \<and> wStatus w' = Some (if Status resp = 2 then 503 else 200)
    \<and> header_get (wHeader w') ''Content-Type'' = ''application/json; charset=UTF-8''
    \<and> (ttl_records msg \<noteq> [] \<longrightarrow> header_get (wHeader w') ''Cache-Control'' =
         (if isTailored req then ''private, max-age='' else ''public, max-age='')
         @ FormatUint (unat (Min (set (map (Ttl \<circ> rr_hdr) (ttl_records msg))))))"
proof -
  obtain resp where M: "Marshal L (seNow E) msg = Inr resp" "HaveTTL resp \<longleftrightarrow> ttl_records msg \<noteq> []"
    "ttl_records msg \<noteq> [] \<Longrightarrow> LeastTTL resp = Min (set (map (Ttl \<circ> rr_hdr) (ttl_records msg)))"
    using Marshal_ttl_fields [OF assms(2), of L "seNow E"] by blast
  obtain b where b: "seEncode E (response_json resp) = Inr b" using assms(3) unfolding encode_ok_def by blast
  show ?thesis
  proof (cases "ttl_records msg = []")
    case True
    then show ?thesis using assms(1,4) b M(1,2) by (simp add: generateResponseGoogle_def cache_headers_def Let_def)
  next
    case False
    then show ?thesis using assms(1,4) b M by (simp add: generateResponseGoogle_def cache_headers_def Let_def)
  qed
qed

theorem generateResponseGoogle_response_witness:
  "\<exists>w'. generateResponseGoogle sample_lib sample_server_env (new_request\<lparr>response := Some sample_msg\<rparr>) new_writer = Inr w'
     \<and> header_get (wHeader w') ''Cache-Control'' = ''public, max-age='' @ FormatUint 60"
proof -
  have "Min (set (map (Ttl \<circ> rr_hdr) (ttl_records sample_msg))) = 60"
    by (simp add: sample_msg_records sample_rr_def)
  then show ?thesis
    using generateResponseGoogle_response [of "new_request\<lparr>response := Some sample_msg\<rparr>" sample_msg sample_server_env new_writer sample_lib]
      sample_msg_wf sample_msg_records sample_encode_ok
    by (auto simp: new_writer_def new_request_def)
qed



end
