(* ===== verification/Go_Url.thy ===== *)
theory Go_Url
  imports Go_Net Go_Http
begin

section \<open>Query strings of net/url\<close>

text \<open>
  \<open>url.QueryUnescape\<close>, \<open>url.ParseQuery\<close> (keys with an invalid escape or a semicolon are skipped) and the
  query part of a URL.  The lemmas say that a query string made of \<open>key=value\<close> texts joined by \<open>&\<close> is
  read as those pairs.
\<close>

fun QueryUnescape :: "string \<Rightarrow> string option" where
  "QueryUnescape [] = Some []"
| "QueryUnescape (c # s) =
     (if c = CHR ''%'' then
        (case s of
           a # b # t \<Rightarrow> if is_hex a \<and> is_hex b
             then map_option ((#) (char_of (16 * hexdigit_val a + hexdigit_val b))) (QueryUnescape t) else None
         | _ \<Rightarrow> None)
      else map_option ((#) (if c = CHR ''+'' then CHR '' '' else c)) (QueryUnescape s))"

definition parse_pair :: "string \<Rightarrow> (string \<times> string) option" where
  "parse_pair p =
     (if p = [] \<or> CHR '';'' \<in> set p then None
      else
        let (k, v) = (case IndexByte p CHR ''='' of None \<Rightarrow> (p, []) | Some i \<Rightarrow> (take i p, drop (i + 1) p)) in
        Option.bind (QueryUnescape k) (\<lambda>k. Option.bind (QueryUnescape v) (\<lambda>v. Some (k, v))))"

definition ParseQuery :: "string \<Rightarrow> http_header" where
  "ParseQuery s = List.map_filter parse_pair (Split s CHR ''&'')"

definition url_query :: "string \<Rightarrow> string" where
  "url_query u =
     (let s = takeWhile (\<lambda>c. c \<noteq> CHR ''#'') u in
      case IndexByte s CHR ''?'' of None \<Rightarrow> [] | Some i \<Rightarrow> drop (i + 1) s)"

subsection \<open>Facts\<close>

lemma hexdigit_char: "n < 16 \<Longrightarrow> is_hex (hex_char n) \<and> hexdigit_val (hex_char n) = n"
  by (auto simp: hex_char_def is_hex_def hexdigit_val_def Let_def)

lemma QueryUnescape_escape_char: "QueryUnescape (escape_char c @ s) = map_option ((#) c) (QueryUnescape s)"
proof -
  have h: "is_hex (hex_char (of_char c div 16))" "hexdigit_val (hex_char (of_char c div 16)) = of_char c div 16"
    "is_hex (hex_char (of_char c mod 16))" "hexdigit_val (hex_char (of_char c mod 16)) = of_char c mod 16"
    using hexdigit_char [OF nibbles(1) [of c]] hexdigit_char [OF nibbles(2) [of c]] by simp_all
  have "unreserved c \<Longrightarrow> c \<noteq> CHR ''%'' \<and> c \<noteq> CHR ''+''" by (auto simp: unreserved_def)
  then show ?thesis by (auto simp: escape_char_def h)
qed

lemma QueryUnescape_QueryEscape: "QueryUnescape (QueryEscape s) = Some s"
  by (induction s) (simp_all add: QueryEscape_def QueryUnescape_escape_char)

text \<open>Texts that stand for themselves and cannot end a key or a value.\<close>

definition plain_text :: "string \<Rightarrow> bool" where
  "plain_text s \<longleftrightarrow> list_all (\<lambda>c. c \<notin> set ''%+&;=#'') s"

lemma QueryUnescape_plain: "plain_text s \<Longrightarrow> QueryUnescape s = Some s"
  by (induction s) (auto simp: plain_text_def)

lemma plain_text_append [simp]: "plain_text (s @ t) \<longleftrightarrow> plain_text s \<and> plain_text t"
  by (auto simp: plain_text_def)

lemma plain_text_Cons [simp]: "plain_text (c # s) \<longleftrightarrow> c \<notin> set ''%+&;=#'' \<and> plain_text s" "plain_text []"
  by (auto simp: plain_text_def)

lemma plain_FormatUint [simp]: "plain_text (FormatUint n)"
  using FormatUint_digits [of n] by (auto simp: plain_text_def list_all_iff is_digit_def)

lemma plain_dotted: "length x = 4 \<Longrightarrow> plain_text (dotted x)"
  by (erule length_4_cases) (simp add: dotted_def)

lemma escaped_chars: "x \<in> set (QueryEscape s) \<Longrightarrow> x \<notin> set ''&;=#?''"
  using escape_char_safe [of x] by (fastforce simp: QueryEscape_def unreserved_def Let_def)

lemma parse_pair_value:
  assumes "plain_text k" "k \<noteq> []" "CHR '';'' \<notin> set t" "QueryUnescape t = Some v"
  shows "parse_pair (k @ CHR ''='' # t) = Some (k, v)"
proof -
  have "CHR ''='' \<notin> set k" "CHR '';'' \<notin> set k" using assms(1) by (auto simp: plain_text_def list_all_iff)
  then show ?thesis using assms QueryUnescape_plain [OF assms(1)] by (simp add: parse_pair_def)
qed

lemma Split_join:
  assumes "c \<notin> set p" "\<forall>q \<in> set ps. c \<notin> set q"
  shows "Split (p @ concat (map ((#) c) ps)) c = p # ps"
  using assms by (induction ps arbitrary: p) (simp_all add: Split_no_sep Split_append)

lemma ParseQuery_join:
  assumes "\<forall>q \<in> set (p # ps). CHR ''&'' \<notin> set q"
  shows "ParseQuery (p @ concat (map ((#) CHR ''&'') ps)) = List.map_filter parse_pair (p # ps)"
  using assms by (simp add: ParseQuery_def Split_join)

lemma url_query_no_fragment:
  assumes "CHR ''#'' \<notin> set s"
  shows "url_query s = (case IndexByte s CHR ''?'' of None \<Rightarrow> [] | Some i \<Rightarrow> drop (i + 1) s)"
proof -
  have "takeWhile (\<lambda>c. c \<noteq> CHR ''#'') s = s" using assms by (auto simp: takeWhile_eq_all_conv)
  then show ?thesis unfolding url_query_def Let_def by (simp only:)
qed

lemma url_query_append:
  assumes "CHR ''#'' \<notin> set u" "CHR ''?'' \<notin> set u" "CHR ''#'' \<notin> set q"
  shows "url_query (u @ CHR ''?'' # q) = q" "url_query u = []"
  using assms by (simp_all add: url_query_no_fragment)

end
