(* ===== verification/Client_Server.thy ===== *)
theory Client_Server
  imports Client_Handler Server_Handler Go_Url
begin

section \<open>The client's request at the server\<close>

text \<open>
  \<open>received q a\<close> is the request a server sees when the client has sent \<open>q\<close> from the address \<open>a\<close>: the same
  method, headers and body, and the parameters of the URL's query string.  (A body of content type
  \<open>application/dns-message\<close> adds no parameters.)  The lemmas compute the parameters of the two kinds of
  request; the composed theorems are in the root theory.
\<close>

definition received :: "http_request \<Rightarrow> string \<Rightarrow> server_request" where
  "received q a = (let ps = ParseQuery (url_query (reqURL q)) in
     \<lparr>srMethod = reqMethod q, srHeader = reqHeader q, srRemoteAddr = a, srForm = ps, srQuery = ps, srBody = Inr (reqBody q)\<rparr>)"

definition clean_url :: "string \<Rightarrow> bool" where
  "clean_url u \<longleftrightarrow> CHR ''?'' \<notin> set u \<and> CHR ''#'' \<notin> set u"

subsection \<open>Binary requests\<close>

lemma base64_text:
  "QueryUnescape (EncodeToString b) = Some (EncodeToString b)" "plain_text (EncodeToString b)"
proof -
  have "unreserved c \<Longrightarrow> c \<notin> set ''%+&;=#''" for c by (auto simp: unreserved_def)
  then show p: "plain_text (EncodeToString b)"
    using EncodeToString_unreserved unfolding plain_text_def list_all_iff by blast
  show "QueryUnescape (EncodeToString b) = Some (EncodeToString b)" by (rule QueryUnescape_plain [OF p])
qed

lemma plain_text_chars: "plain_text s \<Longrightarrow> c \<in> set ''%+&;=#'' \<Longrightarrow> c \<notin> set s"
  by (auto simp: plain_text_def list_all_iff)

lemma ietf_url_params:
  assumes "clean_url (URL u)"
  shows "ParseQuery (url_query (ietf_url u b)) = [(''ct'', ''application/dns-message''), (''dns'', EncodeToString b)]"
proof -
  let ?p = "''ct'' @ CHR ''='' # ''application/dns-message''" and ?q = "''dns'' @ CHR ''='' # EncodeToString b"
  have url: "ietf_url u b = URL u @ CHR ''?'' # (?p @ concat (map ((#) CHR ''&'') [?q]))" by (simp add: ietf_url_def)
  have no: "CHR ''&'' \<notin> set (EncodeToString b)" "CHR '';'' \<notin> set (EncodeToString b)" "CHR ''#'' \<notin> set (EncodeToString b)"
    using plain_text_chars [OF base64_text(2) [of b]] by simp_all
  have "url_query (ietf_url u b) = ?p @ concat (map ((#) CHR ''&'') [?q])"
    unfolding url by (rule url_query_append) (use assms no in \<open>simp_all add: clean_url_def\<close>)
  moreover have "ParseQuery (?p @ concat (map ((#) CHR ''&'') [?q])) = List.map_filter parse_pair [?p, ?q]"
    by (rule ParseQuery_join) (use no in simp)
  moreover have "parse_pair ?p = Some (''ct'', ''application/dns-message'')"
    by (rule parse_pair_value) (simp_all add: QueryUnescape_plain)
  moreover have "parse_pair ?q = Some (''dns'', EncodeToString b)"
    by (rule parse_pair_value) (use no base64_text in simp_all)
  ultimately show ?thesis by (simp only: map_filter_simps option.case)
qed

lemma empty_query: "ParseQuery [] = []"
  by (simp add: ParseQuery_def map_filter_simps parse_pair_def)

subsection \<open>JSON requests\<close>

definition google_params :: "dns_lib \<Rightarrow> dns_msg \<Rightarrow> dns_question \<Rightarrow> ip \<Rightarrow> u8 \<Rightarrow> http_header" where
  "google_params L r q addr netmask =
     [(''ct'', ''application/dns-json''), (''name'', qName q), (''type'', type_text L (Qtype q))]
     @ (if CheckingDisabled r then [(''cd'', ''1'')] else [])
     @ (case IsEdns0 L r of None \<Rightarrow> [] | Some i \<Rightarrow> if getDo L (rr_hdr (msgExtra r ! i)) then [(''do'', ''1'')] else [])
     @ (case addr of None \<Rightarrow> [] | Some x \<Rightarrow> [(''edns_client_subnet'', IP_String x @ ''/'' @ FormatUint (unat netmask))])"

lemma IP_String_v4: "To4 x = Some v \<Longrightarrow> IP_String x = dotted v"
  by (auto simp: IP_String_def To4_def)

lemma plain_no_amp: "plain_text s \<Longrightarrow> CHR ''&'' \<notin> set s \<and> CHR '';'' \<notin> set s \<and> CHR ''#'' \<notin> set s"
  using plain_text_chars [of s] by simp

lemma google_url_params:
  assumes "clean_url (URL u)" "\<And>x. addr = Some x \<Longrightarrow> To4 x \<noteq> None"
  shows "ParseQuery (url_query (google_url L u r q addr netmask)) = google_params L r q addr netmask"
proof -
  define ecs where "ecs = (case addr of None \<Rightarrow> [] | Some x \<Rightarrow> IP_String x @ ''/'' @ FormatUint (unat netmask))"
  define ps where "ps = [''name'' @ CHR ''='' # QueryEscape (qName q), ''type'' @ CHR ''='' # QueryEscape (type_text L (Qtype q))]
     @ (if CheckingDisabled r then [''cd=1''] else [])
     @ (case IsEdns0 L r of None \<Rightarrow> [] | Some i \<Rightarrow> if getDo L (rr_hdr (msgExtra r ! i)) then [''do=1''] else [])
     @ (if addr = None then [] else [''edns_client_subnet'' @ CHR ''='' # ecs])"
  let ?p = "''ct'' @ CHR ''='' # ''application/dns-json''"
  have url: "google_url L u r q addr netmask = URL u @ CHR ''?'' # (?p @ concat (map ((#) CHR ''&'') ps))"
    by (auto simp: google_url_def ps_def ecs_def split: option.split)
  have pe: "plain_text ecs"
  proof (cases addr)
    case (Some x)
    then obtain v where v: "To4 x = Some v" using assms(2) by blast
    then show ?thesis using Some plain_dotted [OF To4_length [OF v]] by (simp add: ecs_def IP_String_v4)
  qed (simp add: ecs_def)
  have esc: "CHR ''&'' \<notin> set (QueryEscape s)" "CHR '';'' \<notin> set (QueryEscape s)" "CHR ''#'' \<notin> set (QueryEscape s)" for s
    using escaped_chars [of _ s] by auto
  have no: "CHR ''&'' \<notin> set p" "CHR ''#'' \<notin> set p" if "p \<in> set ps" for p
    using that esc plain_no_amp [OF pe] by (auto simp: ps_def split: if_splits option.splits)
  have "CHR ''#'' \<notin> set (concat (map ((#) CHR ''&'') ps))" using no by auto
  then have "url_query (google_url L u r q addr netmask) = ?p @ concat (map ((#) CHR ''&'') ps)"
    unfolding url by (intro url_query_append) (use assms(1) in \<open>simp_all add: clean_url_def\<close>)
  moreover have "ParseQuery (?p @ concat (map ((#) CHR ''&'') ps)) = List.map_filter parse_pair (?p # ps)"
    by (rule ParseQuery_join) (use no in auto)
  moreover have lit: "parse_pair ?p = Some (''ct'', ''application/dns-json'')"
    "parse_pair ''cd=1'' = Some (''cd'', ''1'')" "parse_pair ''do=1'' = Some (''do'', ''1'')"
    by code_simp+
  moreover have "parse_pair (''name'' @ CHR ''='' # QueryEscape (qName q)) = Some (''name'', qName q)"
    "parse_pair (''type'' @ CHR ''='' # QueryEscape (type_text L (Qtype q))) = Some (''type'', type_text L (Qtype q))"
    "parse_pair (''edns_client_subnet'' @ CHR ''='' # ecs) = Some (''edns_client_subnet'', ecs)"
    by (rule parse_pair_value; simp add: esc QueryUnescape_QueryEscape plain_no_amp [OF pe] QueryUnescape_plain [OF pe])+
  ultimately have "ParseQuery (url_query (google_url L u r q addr netmask)) =
     [(''ct'', ''application/dns-json''), (''name'', qName q), (''type'', type_text L (Qtype q))]
     @ (if CheckingDisabled r then [(''cd'', ''1'')] else [])
     @ (case IsEdns0 L r of None \<Rightarrow> [] | Some i \<Rightarrow> if getDo L (rr_hdr (msgExtra r ! i)) then [(''do'', ''1'')] else [])
     @ (if addr = None then [] else [(''edns_client_subnet'', ecs)])"
    by (simp only: ps_def append.simps map_filter_simps option.case) (simp add: map_filter_simps split: option.split)
  then show ?thesis by (auto simp: google_params_def ecs_def split: option.split)
qed

subsection \<open>What the server makes of the parameters\<close>

lemma header_get_Cons [simp]: "header_get ((k, v) # h) k' = (if k = k' then v else header_get h k')" "header_get [] k' = []"
  by (simp_all add: header_get_def)

lemma google_param_values:
  "header_get (google_params L r q addr n) ''ct'' = ''application/dns-json''"
  "header_get (google_params L r q addr n) ''name'' = qName q"
  "header_get (google_params L r q addr n) ''type'' = type_text L (Qtype q)"
  "header_get (google_params L r q addr n) ''cd'' = (if CheckingDisabled r then ''1'' else [])"
  "header_get (google_params L r q addr n) ''edns_client_subnet'' =
     (case addr of None \<Rightarrow> [] | Some x \<Rightarrow> IP_String x @ ''/'' @ FormatUint (unat n))"
  by (simp_all add: google_params_def split: option.split)

text \<open>
  The name the client sends for a type is read back by the server: what the library's two tables
  promise of a type they know.
\<close>

definition type_readable :: "dns_lib \<Rightarrow> u16 \<Rightarrow> bool" where
  "type_readable L t \<longleftrightarrow> (case TypeToString L t of
       None \<Rightarrow> True
     | Some s \<Rightarrow> s \<noteq> [] \<and> ParseUint 16 s = None \<and> ascii s \<and> StringToType L (map upper_char s) = Some t)"

lemma parse_type_text: "type_readable L t \<Longrightarrow> parse_type L E (type_text L t) = Some t"
proof (cases "TypeToString L t")
  case None
  have "unat t < 2 ^ 16" using unsigned_less [of t] by simp
  then show ?thesis using None by (simp add: type_text_def parse_type_def ParseUint_FormatUint)
next
  case (Some s)
  then show "type_readable L t \<Longrightarrow> ?thesis" by (simp add: type_text_def parse_type_def type_readable_def ToUpper_def)
qed

lemma parse_cd_flag: "parse_cd (if b then ''1'' else []) = Some b"
proof -
  have "parse_cd [] = Some False" "parse_cd ''1'' = Some True" by code_simp+
  then show ?thesis by simp
qed

lemma google_subnet_sent:
  assumes "FormValue r ''edns_client_subnet'' = IP_String x @ ''/'' @ FormatUint (unat (n :: u8))" "To4 x = Some v"
  shows "google_subnet conf T E r = Inr (1, Some v, n)"
proof -
  have "length v = 4" by (rule To4_length [OF assms(2)])
  then have "CHR ''.'' \<in> set (dotted v)" by (rule length_4_cases) (simp add: dotted_def)
  then have "CHR ''.'' \<in> set (FormValue r ''edns_client_subnet'')" by (simp add: assms(1) IP_String_v4 [OF assms(2)])
  moreover have "CHR ''.'' \<notin> set ''0/0''" by simp
  ultimately have "FormValue r ''edns_client_subnet'' \<noteq> ''0/0''" "FormValue r ''edns_client_subnet'' \<noteq> []" by force+
  moreover have "parseSubnet (seQuote E) (IP_String x @ ''/'' @ FormatUint (unat n)) = Inr (1, v, n)"
    using parseSubnet_v4 [OF assms(2), of "unat n" "seQuote E"] by simp
  ultimately show ?thesis using assms(1) by (simp add: google_subnet_def)
qed

subsection \<open>A binary request at the server\<close>

definition binary_request_of :: "Config \<Rightarrow> upstream \<Rightarrow> bytes \<Rightarrow> string \<Rightarrow> server_request" where
  "binary_request_of conf u b a = received (set_agent conf (ietf_request u b)) a"

lemma binary_request_headers:
  "header_get (srHeader (binary_request_of conf u b a)) ''X-Real-IP'' = []"
  "header_get (srHeader (binary_request_of conf u b a)) ''Accept'' = ''application/dns-message, application/dns-udpwireformat, application/json''"
  "header_get (srHeader (binary_request_of conf u b a)) ''User-Agent'' = (if NoUserAgent (Other conf) then [] else CLIENT_USER_AGENT)"
  "header_get (srHeader (binary_request_of conf u b a)) ''Content-Type'' =
     (if length (ietf_url u b) < 2048 then [] else ''application/dns-message'')"
  "srMethod (binary_request_of conf u b a) \<noteq> ''OPTIONS''"
  by (simp_all add: binary_request_of_def received_def set_agent_def ietf_request_def header_get_set Let_def header_get_Cons)

lemma binary_request_form:
  assumes "clean_url (URL u)"
  shows "srForm (binary_request_of conf u b a) =
    (if length (ietf_url u b) < 2048 then [(''ct'', ''application/dns-message''), (''dns'', EncodeToString b)] else [])"
proof -
  have "url_query (URL u) = []" by (rule url_query_append(2) [of _ "[]"]) (use assms in \<open>simp_all add: clean_url_def\<close>)
  then show ?thesis
    by (simp add: binary_request_of_def received_def set_agent_def ietf_request_def Let_def ietf_url_params [OF assms] empty_query)
qed

lemma DecodeString_empty: "DecodeString [] = Some []"
  by code_simp

lemma binary_request_parsed:
  assumes "clean_url (URL u)" "b \<noteq> []"
  shows "content_type (binary_request_of conf u b a) = ''application/dns-message''"
    "request_binary E (binary_request_of conf u b a) = Inr b"
    "response_type (binary_request_of conf u b a) ct = ''application/dns-message''"
    "with_real_ip (binary_request_of conf u b a) = binary_request_of conf u b a"
    "patchDNSCryptProxyReqID E (binary_request_of conf u b a) b w = (w, False)"
proof -
  note f = binary_request_form [OF assms(1), of conf b a] and h = binary_request_headers [of conf u b a]
  have body: "srBody (binary_request_of conf u b a) = Inr b" if "\<not> length (ietf_url u b) < 2048"
    using that by (simp add: binary_request_of_def received_def set_agent_def ietf_request_def Let_def)
  show "content_type (binary_request_of conf u b a) = ''application/dns-message''"
    by (simp add: content_type_def f h Let_def)
  show "request_binary E (binary_request_of conf u b a) = Inr b"
    using assms(2) body by (simp add: request_binary_def f h Let_def DecodeString_EncodeToString DecodeString_empty)
  have "accepted_type (Split ''application/dns-message, application/dns-udpwireformat, application/json'' CHR '','') = ''application/dns-message''"
    by code_simp
  then show "response_type (binary_request_of conf u b a) ct = ''application/dns-message''"
    by (simp only: response_type_def h Let_def) simp
  show "with_real_ip (binary_request_of conf u b a) = binary_request_of conf u b a"
    by (simp add: with_real_ip_def h)
  have "\<not> Contains [] ''dnscrypt-proxy''" "\<not> Contains CLIENT_USER_AGENT ''dnscrypt-proxy''" by code_simp+
  then show "patchDNSCryptProxyReqID E (binary_request_of conf u b a) b w = (w, False)"
    by (simp add: patchDNSCryptProxyReqID_def h)
qed

text \<open>The server's upstreams answer every query for the given question with the same message.\<close>

definition upstream_answers :: "query_env \<Rightarrow> dns_question list \<Rightarrow> dns_msg \<Rightarrow> bool" where
  "upstream_answers Q qs m \<longleftrightarrow> (\<forall>i k t q a. msgQuestion q = qs \<longrightarrow> qExchange Q i k t q a = (Some m, None))"

lemma doDNSQuery_answered:
  assumes "config_ok sconf" "upstream_answers Q (msgQuestion (request req)) m"
  shows "\<exists>a. doDNSQuery sconf Q req = Inr (req\<lparr>currentUpstream := a, response := Some m\<rparr>, None)"
proof -
  obtain n where n: "Tries sconf = Suc n" using assms(1) by (cases "Tries sconf") (auto simp: config_ok_def)
  obtain j where j: "rand_Intn (qRand Q 0) (length (Upstream sconf)) = Inr j" "j < length (Upstream sconf)"
    using rand_Intn_pos [of "length (Upstream sconf)" "qRand Q 0"] assms(1) by (auto simp: config_ok_def)
  obtain a t where at: "addressAndType (Upstream sconf ! j) = (a, t)" by fastforce
  have "upstream_ok (Upstream sconf ! j)" using assms(1) j(2) by (simp add: config_ok_def list_all_length)
  then have t: "t = ''tcp-tls'' \<or> t = ''tcp'' \<or> t = ''udp''" using at by (auto simp: upstream_ok_def)
  have x: "qExchange Q i k tr (request req) a = (Some m, None)" for i k tr using assms(2) by (simp add: upstream_answers_def)
  then have "query_once Q 0 (request req) a t = Inr (Some m, None)"
    by (simp add: query_once_def query_udp_def Let_def)
  then show ?thesis using t by (auto simp: doDNSQuery_def n j at Let_def)
qed

lemma generateResponseIETF_written:
  assumes "response req = Some m" "wf_msg m" "Pack L (m\<lparr>Id := transactionID req\<rparr>) = Inr b" "wStatus w = None" "wBody w = []"
  shows "\<exists>w'. generateResponseIETF L E req w = Inr w' \<and> wBody w' = b \<and> wStatus w' \<noteq> None
    \<and> header_get (wHeader w') ''Content-Type'' = ''application/dns-message''
    \<and> header_get (wHeader w') ''Date'' = header_get (wHeader w') ''Last-Modified''"
proof -
  obtain resp where M: "Marshal L (seNow E) m = Inr resp" using Marshal_spec [OF assms(2)] by blast
  show ?thesis using assms M by (cases "HaveTTL resp") (simp_all add: generateResponseIETF_def cache_headers_def Let_def)
qed

lemma server_binary_response:
  assumes "dns_lib_ok L" "config_ok sconf" "clean_url (URL u)" "b \<noteq> []" "Unpack L b = Inr q"
    "upstream_answers Q (msgQuestion q) m" "wf_msg m" "Pack L (m\<lparr>Id := Id q\<rparr>) = Inr b'"
  shows "\<exists>w'. handlerFunc L sconf T Es Q new_writer (binary_request_of conf u b a) = Inr w' \<and> wBody w' = b' \<and> wStatus w' \<noteq> None
    \<and> header_get (wHeader w') ''Content-Type'' = ''application/dns-message''
    \<and> header_get (wHeader w') ''Date'' = header_get (wHeader w') ''Last-Modified''"
proof -
  let ?r = "binary_request_of conf u b a" and ?w = "common_headers new_writer"
  note p = binary_request_parsed [OF assms(3,4), where conf = conf and a = a]
  have "msgQuestion msg = msgQuestion m" if "ensure_opt L m = (msg, i)" for m msg i
    using that by (auto simp: ensure_opt_def split: option.splits)
  then obtain req where req: "parseRequestIETF L sconf T Es ?w ?r = Inr (?w, req)" "msgQuestion (request req) = msgQuestion q"
      "transactionID req = Id q" "errcode req = 0"
    using parseRequestIETF_eq [OF assms(1) p(2) assms(5) p(5), where conf = sconf and T = T and E = Es and w = ?w]
    by (fastforce simp: append_option_def new_request_def split: option.splits)
  obtain addr where d: "doDNSQuery sconf Q (patchRootRD req) =
      Inr ((patchRootRD req)\<lparr>currentUpstream := addr, response := Some m\<rparr>, None)"
    using doDNSQuery_answered [OF assms(2), of Q "patchRootRD req" m] assms(6) req(2) by auto
  have w: "wStatus ?w = None" "wBody ?w = []" by (simp_all add: common_headers_def new_writer_def Let_def)
  have "\<exists>w'. generateResponseIETF L Es ((patchRootRD req)\<lparr>currentUpstream := addr, response := Some m\<rparr>) ?w = Inr w'
    \<and> wBody w' = b' \<and> wStatus w' \<noteq> None \<and> header_get (wHeader w') ''Content-Type'' = ''application/dns-message''
    \<and> header_get (wHeader w') ''Date'' = header_get (wHeader w') ''Last-Modified''"
    by (rule generateResponseIETF_written [OF _ assms(7) _ w]) (use assms(8) req(3) in simp_all)
  then show ?thesis using binary_request_headers(5) [of conf u b a] req(1,4) d
    by (simp add: handlerFunc_def p Let_def parse_request_def)
qed

subsection \<open>The client of this server\<close>

text \<open>
  \<open>Client.Do\<close> when the upstream of the client is this server: the handler's response, or an error if
  the handler panics.
\<close>

definition served_by ::
  "dns_lib \<Rightarrow> server_config \<Rightarrow> 't iptree \<Rightarrow> server_env \<Rightarrow> query_env \<Rightarrow> string \<Rightarrow> http_request \<Rightarrow> (string \<times> bool) + http_response" where
  "served_by L sconf T Es Q a q =
     (case handlerFunc L sconf T Es Q new_writer (received q a) of
        Inl p \<Rightarrow> Inl (''EOF'', False)
      | Inr w \<Rightarrow> Inr \<lparr>StatusCode = (case wStatus w of None \<Rightarrow> 200 | Some code \<Rightarrow> code), respHeader = wHeader w, respBody = Inr (wBody w)\<rparr>)"

text \<open>A message that the library packs and unpacks unchanged.\<close>

definition carries :: "dns_lib \<Rightarrow> dns_msg \<Rightarrow> bool" where
  "carries L m \<longleftrightarrow> (\<exists>b. b \<noteq> [] \<and> Pack L m = Inr b \<and> Unpack L b = Inr m)"

lemma time_delta_same: "header_get h ''Date'' = header_get h ''Last-Modified'' \<Longrightarrow> time_delta h now = 0"
  by (auto simp: time_delta_def header_date_def time_Sub_def clamp64_def Let_def split: option.split)

lemma fixRecordTTL_0: "fixRecordTTL 0 a = a"
proof -
  obtain t where t: "fixRecordTTL 0 a = map_hdr (\<lambda>h. h\<lparr>Ttl := t\<rparr>) a" "uint t = max 0 ((uint (Ttl (rr_hdr a)) * Second - 0) div Second)"
    using fixRecordTTL_aged [of 0 a] by (auto simp: aged_record_def)
  then have "uint t = uint (Ttl (rr_hdr a))" by (simp add: Second_def)
  then have "t = Ttl (rr_hdr a)" by (rule word_uint_eqI)
  then show ?thesis using t(1) by (cases a) simp_all
qed

lemma fix_message_0: "fix_message 0 m = m"
  by (simp add: fix_message_def map_idI fixRecordTTL_0)

lemma parse_binary_response:
  assumes "respBody (crResponse req) = Inr b" "Unpack L b = Inr m"
    "header_get (respHeader (crResponse req)) ''Content-Type'' = ''application/dns-message''"
    "header_get (respHeader (crResponse req)) ''Date'' = header_get (respHeader (crResponse req)) ''Last-Modified''"
  shows "parse_response L E w r isTCP u req = Inr (write_reply L isTCP w req (m\<lparr>Id := Id r\<rparr>))"
proof -
  have "SplitN ''application/dns-message'' CHR '';'' 2 ! 0 = ''application/dns-message''" by code_simp
  then show ?thesis using assms
    by (simp add: parse_response_def parseResponseIETF_def unreadable_def time_delta_same fix_message_0 Let_def)
qed

lemma served_binary_query:
  assumes "dns_lib_ok L" "config_ok sconf" "clean_url (URL u)" "wf_msg m"
    "\<And>q. ceDo E q = served_by L sconf T' Es Q a q" "\<And>m u. ceNewRequest E m u = None"
    "ensure_opt L r = (r1, i)" "ietf_subnet L conf T E w r1 i = Inr (r2, addr, k)" "carries L (r2\<lparr>Id := 0\<rparr>)"
    "upstream_answers Q (msgQuestion r2) m" "carries L (m\<lparr>Id := 0\<rparr>)"
  shows "\<exists>r' req. generateRequestIETF L conf T E w r u = Inr (w, r', Inr req) \<and> Id r' = Id r \<and> crUdpSize req = query_udp_size L r
    \<and> parse_response L E w r' isTCP v req = Inr (write_reply L isTCP w req (m\<lparr>Id := Id r\<rparr>))"
proof -
  obtain b where b: "b \<noteq> []" "Pack L (r2\<lparr>Id := 0\<rparr>) = Inr b" "Unpack L b = Inr (r2\<lparr>Id := 0\<rparr>)" using assms(9) by (auto simp: carries_def)
  obtain b' where b': "Pack L (m\<lparr>Id := 0\<rparr>) = Inr b'" "Unpack L b' = Inr (m\<lparr>Id := 0\<rparr>)" using assms(11) by (auto simp: carries_def)
  have "\<exists>w'. handlerFunc L sconf T' Es Q new_writer (binary_request_of conf u b a) = Inr w' \<and> wBody w' = b' \<and> wStatus w' \<noteq> None
    \<and> header_get (wHeader w') ''Content-Type'' = ''application/dns-message''
    \<and> header_get (wHeader w') ''Date'' = header_get (wHeader w') ''Last-Modified''"
    by (rule server_binary_response [OF assms(1-3) b(1,3) _ assms(4)]) (use assms(10) b'(1) in simp_all)
  then obtain w' where w': "handlerFunc L sconf T' Es Q new_writer (binary_request_of conf u b a) = Inr w'" "wBody w' = b'"
    "header_get (wHeader w') ''Content-Type'' = ''application/dns-message''"
    "header_get (wHeader w') ''Date'' = header_get (wHeader w') ''Last-Modified''" by blast
  then have do: "ceDo E (set_agent conf (ietf_request u b)) =
      Inr \<lparr>StatusCode = (case wStatus w' of None \<Rightarrow> 200 | Some code \<Rightarrow> code), respHeader = wHeader w', respBody = Inr b'\<rparr>"
    by (simp add: assms(5) served_by_def binary_request_of_def)
  define req where "req = \<lparr>crResponse = \<lparr>StatusCode = (case wStatus w' of None \<Rightarrow> 200 | Some code \<Rightarrow> code),
      respHeader = wHeader w', respBody = Inr b'\<rparr>, crReply = PrepareReply (r2\<lparr>Id := Id r\<rparr>), crUpstream = URL u, crAddress = addr,
      crUdpSize = query_udp_size L r, crNetmask = k\<rparr>"
  have g: "generateRequestIETF L conf T E w r u = Inr (w, r2\<lparr>Id := Id r\<rparr>, Inr req)"
    by (simp add: generateRequestIETF_def assms(6-8) b(2) Let_def send_request_def do req_def)
  moreover have "parse_response L E w (r2\<lparr>Id := Id r\<rparr>) isTCP v req = Inr (write_reply L isTCP w req (m\<lparr>Id := Id r\<rparr>))"
    using parse_binary_response [of req b' L "m\<lparr>Id := 0\<rparr>"] w'(3,4) b'(2) by (simp add: req_def)
  moreover have "crUdpSize req = query_udp_size L r" by (simp add: req_def)
  ultimately show ?thesis by (intro exI [of _ "r2\<lparr>Id := Id r\<rparr>"] exI [of _ req]) simp
qed

end
