(* ===== verification/Pid_File.thy ===== *)
theory Pid_File
  imports Go_Strings
begin

text \<open>
  The PID file of both programs: \<open>checkPIDFile\<close> of \<open>doh-client/main.go\<close> and \<open>doh-server/main.go\<close>, which
  are the same.  The function is a sequence of system calls with a \<open>goto retry\<close>; \<open>pid_step\<close> performs one of
  them, so that the model has the interleavings of several processes that start at the same time.
  A directory entry refers to a file by its number: a process that has created the file writes to it
  even if another process has removed the entry in between.  A system call may fail for reasons other
  than those the code asks for (\<open>IsExist\<close>, \<open>IsNotExist\<close>), given as the text of the error; \<open>alive\<close> says
  for which numbers \<open>/proc\<close> has a directory.  The texts of the errors that the states themselves give
  rise to are only logged and are abbreviated.
\<close>

section \<open>checkPIDFile\<close>

record pid_dir =
  entry :: "nat option"
  files :: "string list"

datatype pid_pc = AtOpen | AtRead | AtStat nat | AtRemove | AtWrite nat | Done "string + bool"

definition pid_step ::
  "(nat \<Rightarrow> bool) \<Rightarrow> string option \<Rightarrow> nat \<Rightarrow> pid_dir \<Rightarrow> pid_pc \<Rightarrow> pid_dir \<times> pid_pc" where
  "pid_step alive fault self d pc =
     (case fault of
        Some err \<Rightarrow> (d, case pc of Done r \<Rightarrow> Done r | _ \<Rightarrow> Done (Inl err))
      | None \<Rightarrow>
          (case pc of
             AtOpen \<Rightarrow>
               (case entry d of
                  Some _ \<Rightarrow> (d, AtRead)
                | None \<Rightarrow> (d\<lparr>entry := Some (length (files d)), files := files d @ [[]]\<rparr>, AtWrite (length (files d))))
           | AtRead \<Rightarrow>
               (case entry d of
                  None \<Rightarrow> (d, Done (Inl ''no such file or directory''))
                | Some i \<Rightarrow>
                    (case ParseUint 64 (files d ! i) of
                       None \<Rightarrow> (d, Done (Inl ''invalid PID''))
                     | Some pid \<Rightarrow> (d, AtStat pid)))
           | AtStat pid \<Rightarrow> (d, if alive pid then Done (Inr False) else AtRemove)
           | AtRemove \<Rightarrow>
               (case entry d of
                  None \<Rightarrow> (d, Done (Inl ''no such file or directory''))
                | Some _ \<Rightarrow> (d\<lparr>entry := None\<rparr>, AtOpen))
           | AtWrite i \<Rightarrow> (d\<lparr>files := (files d)[i := FormatUint self]\<rparr>, Done (Inr True))
           | Done r \<Rightarrow> (d, Done r)))"

text \<open>The function as one process runs it, with \<open>faults k\<close> the failure of its \<open>k\<close>-th system call.\<close>

partial_function (option) check_loop ::
  "(nat \<Rightarrow> bool) \<Rightarrow> (nat \<Rightarrow> string option) \<Rightarrow> nat \<Rightarrow> nat \<Rightarrow> pid_dir \<Rightarrow> pid_pc \<Rightarrow> (pid_dir \<times> (string + bool)) option" where
  "check_loop alive faults self k d pc =
     (case pc of
        Done r \<Rightarrow> Some (d, r)
      | _ \<Rightarrow> (case pid_step alive (faults k) self d pc of (d', pc') \<Rightarrow> check_loop alive faults self (Suc k) d' pc'))"

definition checkPIDFile ::
  "(nat \<Rightarrow> bool) \<Rightarrow> (nat \<Rightarrow> string option) \<Rightarrow> nat \<Rightarrow> pid_dir \<Rightarrow> (pid_dir \<times> (string + bool)) option" where
  "checkPIDFile alive faults self d = check_loop alive faults self 0 d AtOpen"

text \<open>Several processes: any of those that are running makes its next step.\<close>

inductive pid_sched :: "(nat \<Rightarrow> bool) \<Rightarrow> pid_dir \<times> (nat \<Rightarrow> pid_pc) \<Rightarrow> pid_dir \<times> (nat \<Rightarrow> pid_pc) \<Rightarrow> bool" for alive where
  init: "pid_sched alive s s"
| step: "pid_sched alive s (d, pcs) \<Longrightarrow> alive p \<Longrightarrow> p < 2 ^ 64 \<Longrightarrow> pid_step alive fault p d (pcs p) = (d', pc') \<Longrightarrow>
     pid_sched alive s (d', pcs(p := pc'))"

section \<open>One process\<close>

definition file_text :: "pid_dir \<Rightarrow> string option" where
  "file_text d = (case entry d of None \<Rightarrow> None | Some i \<Rightarrow> Some (files d ! i))"

definition dir_ok :: "pid_dir \<Rightarrow> bool" where
  "dir_ok d \<longleftrightarrow> (case entry d of None \<Rightarrow> True | Some i \<Rightarrow> i < length (files d))"

lemma check_loop_Done [simp]: "check_loop alive faults self k d (Done r) = Some (d, r)"
  by (simp add: check_loop.simps)

lemma check_loop_step:
  "(\<And>r. pc \<noteq> Done r) \<Longrightarrow> pid_step alive (faults k) self d pc = (d', pc') \<Longrightarrow>
   check_loop alive faults self k d pc = check_loop alive faults self (Suc k) d' pc'"
  by (subst check_loop.simps) (auto split: pid_pc.split)

text \<open>What an outcome says about the file, for a process that found the directory \<open>d\<close>.\<close>

definition pid_outcome :: "(nat \<Rightarrow> bool) \<Rightarrow> (nat \<Rightarrow> string option) \<Rightarrow> nat \<Rightarrow> pid_dir \<Rightarrow> pid_dir \<Rightarrow> string + bool \<Rightarrow> bool" where
  "pid_outcome alive faults self d d' r \<longleftrightarrow> (case r of
      Inr True \<Rightarrow> file_text d' = Some (FormatUint self) \<and> dir_ok d' \<and> (file_text d = None
        \<or> (\<exists>s pid. file_text d = Some s \<and> ParseUint 64 s = Some pid \<and> \<not> alive pid))
    | Inr False \<Rightarrow> d' = d \<and> (\<exists>s pid. file_text d = Some s \<and> ParseUint 64 s = Some pid \<and> alive pid)
    | Inl err \<Rightarrow> (\<exists>k. faults k = Some err) \<or> d' = d \<and> (\<exists>s. file_text d = Some s \<and> ParseUint 64 s = None))"

definition leads_to_outcome where
  "leads_to_outcome alive faults self d k d1 pc \<longleftrightarrow>
     (\<exists>d' r. check_loop alive faults self k d1 pc = Some (d', r) \<and> pid_outcome alive faults self d d' r)"

text \<open>A system call either fails, which ends the check with its error, or makes its step.\<close>

lemma outcome_step:
  assumes "\<forall>r. pc \<noteq> Done r" "faults k = None \<Longrightarrow> pid_step alive None self d1 pc = (d2, pc2)"
    "faults k = None \<Longrightarrow> leads_to_outcome alive faults self d (Suc k) d2 pc2"
  shows "leads_to_outcome alive faults self d k d1 pc"
proof (cases "faults k")
  case None
  then show ?thesis using assms by (simp add: leads_to_outcome_def check_loop_step)
next
  case (Some err)
  then have "pid_step alive (faults k) self d1 pc = (d1, Done (Inl err))"
    using assms(1) by (cases pc) (simp_all add: pid_step_def)
  then show ?thesis using Some assms(1) by (auto simp: leads_to_outcome_def pid_outcome_def check_loop_step)
qed

lemma outcome_Done: "pid_outcome alive faults self d d1 r \<Longrightarrow> leads_to_outcome alive faults self d k d1 (Done r)"
  by (simp add: leads_to_outcome_def)

lemma outcome_create:
  assumes "entry d1 = None"
    "file_text d = None \<or> (\<exists>s pid. file_text d = Some s \<and> ParseUint 64 s = Some pid \<and> \<not> alive pid)"
  shows "leads_to_outcome alive faults self d k d1 AtOpen"
proof -
  let ?d2 = "d1\<lparr>entry := Some (length (files d1)), files := files d1 @ [[]]\<rparr>"
  let ?d3 = "d1\<lparr>entry := Some (length (files d1)), files := files d1 @ [FormatUint self]\<rparr>"
  have fin: "leads_to_outcome alive faults self d k ?d3 (Done (Inr True))" for k
    by (rule outcome_Done) (use assms(2) in \<open>simp add: pid_outcome_def file_text_def dir_ok_def\<close>)
  have "leads_to_outcome alive faults self d (Suc k) ?d2 (AtWrite (length (files d1)))"
    by (rule outcome_step [OF _ _ fin]) (simp_all add: pid_step_def)
  then show ?thesis by (rule outcome_step [rotated 2]) (simp_all add: pid_step_def assms(1))
qed

lemma outcome_stat:
  assumes "entry d = Some i" "ParseUint 64 (files d ! i) = Some pid"
  shows "leads_to_outcome alive faults self d k d (AtStat pid)"
proof -
  have t: "file_text d = Some (files d ! i)" by (simp add: file_text_def assms(1))
  show ?thesis
  proof (cases "alive pid")
    case True
    then have "leads_to_outcome alive faults self d (Suc k) d (Done (Inr False))"
      by (intro outcome_Done) (simp add: pid_outcome_def t assms(2))
    then show ?thesis by (rule outcome_step [rotated 2]) (simp_all add: pid_step_def True)
  next
    case False
    have "leads_to_outcome alive faults self d (Suc (Suc k)) (d\<lparr>entry := None\<rparr>) AtOpen"
      by (rule outcome_create) (use False t assms(2) in auto)
    then have "leads_to_outcome alive faults self d (Suc k) d AtRemove"
      by (rule outcome_step [rotated 2]) (simp_all add: pid_step_def assms(1))
    then show ?thesis by (rule outcome_step [rotated 2]) (simp_all add: pid_step_def False)
  qed
qed

lemma outcome_read:
  assumes "entry d = Some i"
  shows "leads_to_outcome alive faults self d k d AtRead"
proof (cases "ParseUint 64 (files d ! i)")
  case None
  then have "leads_to_outcome alive faults self d (Suc k) d (Done (Inl ''invalid PID''))"
    by (intro outcome_Done) (simp add: pid_outcome_def file_text_def assms)
  then show ?thesis by (rule outcome_step [rotated 2]) (simp_all add: pid_step_def assms None)
next
  case (Some pid)
  show ?thesis
    by (rule outcome_step [OF _ _ outcome_stat [OF assms Some]]) (simp_all add: pid_step_def assms Some)
qed

lemma check_outcome:
  "\<exists>d' r. checkPIDFile alive faults self d = Some (d', r) \<and> pid_outcome alive faults self d d' r"
proof -
  have "leads_to_outcome alive faults self d 0 d AtOpen"
  proof (cases "entry d")
    case None
    then show ?thesis by (intro outcome_create) (simp_all add: file_text_def)
  next
    case (Some i)
    show ?thesis by (rule outcome_step [OF _ _ outcome_read [OF Some]]) (simp_all add: pid_step_def Some)
  qed
  then show ?thesis by (simp add: leads_to_outcome_def checkPIDFile_def)
qed

section \<open>Several processes\<close>

text \<open>
  The invariant of processes that have started without a PID file: once there is one, it belongs to
  one process, and it is empty or holds the number of that process.
\<close>

definition owner_inv :: "nat \<Rightarrow> pid_dir \<Rightarrow> (nat \<Rightarrow> pid_pc) \<Rightarrow> nat \<Rightarrow> bool" where
  "owner_inv i d pcs q \<longleftrightarrow> i < length (files d) \<and> (files d ! i = [] \<or> files d ! i = FormatUint q)
     \<and> (pcs q = AtWrite i \<or> pcs q = Done (Inr True) \<or> (\<exists>err. pcs q = Done (Inl err)))
     \<and> (\<forall>p. p \<noteq> q \<longrightarrow> pcs p \<in> {AtOpen, AtRead, AtStat q, Done (Inr False)} \<or> (\<exists>err. pcs p = Done (Inl err)))"

definition fresh_inv :: "(nat \<Rightarrow> bool) \<Rightarrow> pid_dir \<times> (nat \<Rightarrow> pid_pc) \<Rightarrow> bool" where
  "fresh_inv alive = (\<lambda>(d, pcs). case entry d of
       None \<Rightarrow> (\<forall>p. pcs p = AtOpen \<or> (\<exists>err. pcs p = Done (Inl err)))
     | Some i \<Rightarrow> (\<exists>q. alive q \<and> q < 2 ^ 64 \<and> owner_inv i d pcs q))"

lemma owner_inv_step:
  assumes "owner_inv i d pcs q" "entry d = Some i" "alive q" "q < 2 ^ 64" "pid_step alive fault p d (pcs p) = (d', pc')"
  shows "entry d' = Some i \<and> owner_inv i d' (pcs(p := pc')) q"
proof -
  have par: "ParseUint 64 (FormatUint q) = Some q" "ParseUint 64 [] = None" using assms(4) by (simp_all add: ParseUint_FormatUint ParseUint_def)
  show ?thesis
  proof (cases "p = q")
    case True
    then have "pcs p = AtWrite i \<or> (\<exists>r. pcs p = Done r)" using assms(1) by (auto simp: owner_inv_def)
    then show ?thesis using True assms by (auto simp: owner_inv_def pid_step_def split: option.splits)
  next
    case False
    then have "pcs p \<in> {AtOpen, AtRead, AtStat q, Done (Inr False)} \<or> (\<exists>err. pcs p = Done (Inl err))"
      using assms(1) by (auto simp: owner_inv_def)
    moreover have "ParseUint 64 (files d ! i) = Some q \<or> ParseUint 64 (files d ! i) = None"
      using assms(1) par by (auto simp: owner_inv_def)
    ultimately have "d' = d \<and> (pc' \<in> {AtRead, AtStat q, Done (Inr False)} \<or> (\<exists>err. pc' = Done (Inl err)))"
      using assms(2,3,5) by (cases fault) (auto simp: pid_step_def dest!: sym [of "Done _"])
    then show ?thesis using assms(1,2) False by (auto simp: owner_inv_def)
  qed
qed

lemma fresh_inv_step:
  assumes "fresh_inv alive (d, pcs)" "alive p" "p < 2 ^ 64" "pid_step alive fault p d (pcs p) = (d', pc')"
  shows "fresh_inv alive (d', pcs(p := pc'))"
proof (cases "entry d")
  case (Some i)
  then obtain q where q: "alive q" "q < 2 ^ 64" "owner_inv i d pcs q" using assms(1) by (auto simp: fresh_inv_def)
  then show ?thesis using owner_inv_step [where alive = alive, OF q(3) Some q(1,2) assms(4)] by (auto simp: fresh_inv_def)
next
  case None
  then have pcs: "pcs r = AtOpen \<or> (\<exists>err. pcs r = Done (Inl err))" for r using assms(1) by (simp add: fresh_inv_def)
  show ?thesis
  proof (cases "pcs p = AtOpen \<and> fault = None")
    case True
    then have "owner_inv (length (files d)) d' (pcs(p := pc')) p" "entry d' = Some (length (files d))"
      using assms(4) None pcs by (auto simp: owner_inv_def pid_step_def)
    then show ?thesis using assms(2,3) by (auto simp: fresh_inv_def)
  next
    case False
    then have "d' = d \<and> (\<exists>err. pc' = Done (Inl err))"
      using assms(4) pcs [of p] by (cases fault) (auto simp: pid_step_def dest!: sym [of "Done _"])
    then show ?thesis using None pcs by (auto simp: fresh_inv_def)
  qed
qed

lemma fresh_inv_sched:
  assumes "pid_sched alive s t" "fresh_inv alive s"
  shows "fresh_inv alive t"
  using assms by (induction rule: pid_sched.induct) (auto intro: fresh_inv_step)


section \<open>Properties\<close>

text \<open>\<open>checkPIDFile\<close> run by one process at a time always returns, whatever system calls
  fail.  It says yes only if there was no PID file or the file named a process that does not run, and
  then the file holds the number of this process; it says no only if the file names a running process,
  and then nothing has changed; an error comes from a system call or from a file that holds no number.\<close>

theorem checkPIDFile_outcome:
  "\<exists>d' r. checkPIDFile alive faults self d = Some (d', r) \<and> (case r of
      Inr True \<Rightarrow> file_text d' = Some (FormatUint self) \<and> dir_ok d' \<and> (file_text d = None
        \<or> (\<exists>s pid. file_text d = Some s \<and> ParseUint 64 s = Some pid \<and> \<not> alive pid))
    | Inr False \<Rightarrow> d' = d \<and> (\<exists>s pid. file_text d = Some s \<and> ParseUint 64 s = Some pid \<and> alive pid)
    | Inl err \<Rightarrow> (\<exists>k. faults k = Some err) \<or> d' = d \<and> (\<exists>s. file_text d = Some s \<and> ParseUint 64 s = None))"
  using check_outcome [of alive faults self d] by (simp only: pid_outcome_def)

theorem checkPIDFile_outcome_witness:
  "\<exists>d'. checkPIDFile (\<lambda>p. p = 42) (\<lambda>_. None) 42 \<lparr>entry = Some 0, files = [''17'']\<rparr> = Some (d', Inr True)
     \<and> file_text d' = Some ''42''"
proof -
  have f: "FormatUint 17 = ''17''" "FormatUint 42 = ''42''" by code_simp+
  have n: "ParseUint 64 ''17'' = Some 17" "FormatUint 42 = ''42''" using ParseUint_FormatUint [of 17 64] f by simp_all
  note out = checkPIDFile_outcome [of "\<lambda>p. p = 42" "\<lambda>_. None" 42 "\<lparr>entry = Some 0, files = [''17'']\<rparr>"]
  have "\<exists>d'. checkPIDFile (\<lambda>p. p = 42) (\<lambda>_. None) 42 \<lparr>entry = Some 0, files = [''17'']\<rparr> = Some (d', Inr True)"
    by (simp add: checkPIDFile_def check_loop_step pid_step_def n)
  then obtain d' where c: "checkPIDFile (\<lambda>p. p = 42) (\<lambda>_. None) 42 \<lparr>entry = Some 0, files = [''17'']\<rparr> = Some (d', Inr True)" ..
  from out have "file_text d' = Some ''42''" unfolding c by (simp add: n)
  with c show ?thesis by blast
qed


lemma sched_step:
  assumes "pid_sched alive s (d, pcs)" "alive p" "p < 2 ^ 64"
  shows "pid_sched alive s (fst (pid_step alive None p d (pcs p)), pcs(p := snd (pid_step alive None p d (pcs p))))"
  using pid_sched.step [OF assms, of None] by simp

text \<open>One process after the other: several steps of the same process.\<close>

fun steps_of :: "(nat \<Rightarrow> bool) \<Rightarrow> nat \<Rightarrow> nat \<Rightarrow> pid_dir \<times> pid_pc \<Rightarrow> pid_dir \<times> pid_pc" where
  "steps_of alive p 0 s = s"
| "steps_of alive p (Suc n) s = steps_of alive p n (pid_step alive None p (fst s) (snd s))"

lemma sched_steps:
  assumes "pid_sched alive s (d, pcs)" "alive p" "p < 2 ^ 64"
  shows "pid_sched alive s (fst (steps_of alive p n (d, pcs p)), pcs(p := snd (steps_of alive p n (d, pcs p))))"
  using assms(1)
proof (induction n arbitrary: d pcs)
  case (Suc n)
  show ?case using Suc.IH [OF sched_step [OF Suc.prems assms(2,3)]] by (simp add: fun_upd_def cong: if_cong)
qed simp


text \<open>Property C26.  With the PID file of a process that has died, two processes started at the same
  time can both be told to go on: the second removes the file that the first has just created.\<close>

theorem stale_file_race:
  assumes "file_text d = Some (FormatUint old)" "dir_ok d" "old < 2 ^ 64" "\<not> alive old"
    "alive p" "alive q" "p < 2 ^ 64" "q < 2 ^ 64" "p \<noteq> q"
  shows "\<exists>d' pcs. pid_sched alive (d, \<lambda>_. AtOpen) (d', pcs) \<and> pcs p = Done (Inr True) \<and> pcs q = Done (Inr True)
    \<and> file_text d' = Some (FormatUint q)"
proof -
  obtain i where i: "entry d = Some i" "files d ! i = FormatUint old" using assms(1) by (auto simp: file_text_def split: option.splits)
  note st = pid_step_def eval_nat_numeral
  have par: "ParseUint 64 (FormatUint old) = Some old" using assms(3) by (simp add: ParseUint_FormatUint)
  let ?d1 = "d\<lparr>entry := Some (length (files d)), files := files d @ [FormatUint p]\<rparr>"
  let ?d2 = "d\<lparr>entry := Some (Suc (length (files d))), files := files d @ [FormatUint p, FormatUint q]\<rparr>"
  have s1: "steps_of alive q 3 (d, AtOpen) = (d, AtRemove)" using i assms(4) par by (simp add: st)
  have s2: "steps_of alive p 6 (d, AtOpen) = (?d1, Done (Inr True))" using i assms(4) par by (simp add: st)
  have "(files d @ [FormatUint p, []])[Suc (length (files d)) := FormatUint q] = files d @ [FormatUint p, FormatUint q]"
    by (simp add: list_update_append)
  then have s3: "steps_of alive q 3 (?d1, AtRemove) = (?d2, Done (Inr True))" by (simp add: st)
  have "pid_sched alive (d, \<lambda>_. AtOpen) (d, (\<lambda>_. AtOpen)(q := AtRemove))"
    using sched_steps [where alive = alive, OF pid_sched.init assms(6,8), of d "\<lambda>_. AtOpen" 3] by (simp add: s1)
  from sched_steps [where alive = alive, OF this assms(5,7), of 6]
  have "pid_sched alive (d, \<lambda>_. AtOpen) (?d1, (\<lambda>_. AtOpen)(q := AtRemove, p := Done (Inr True)))"
    using assms(9) by (simp add: s2)
  from sched_steps [where alive = alive, OF this assms(6,8), of 3]
  have r: "pid_sched alive (d, \<lambda>_. AtOpen) (?d2, (\<lambda>_. AtOpen)(q := AtRemove, p := Done (Inr True), q := Done (Inr True)))"
    using assms(9) by (simp add: s3)
  show ?thesis by (rule exI, rule exI, rule conjI [OF r]) (use assms(9) in \<open>simp add: file_text_def nth_append\<close>)
qed

theorem stale_file_race_witness:
  "\<exists>d' pcs. pid_sched (\<lambda>p. p \<in> {1, 2}) (\<lparr>entry = Some 0, files = [''7'']\<rparr>, \<lambda>_. AtOpen) (d', pcs)
     \<and> pcs 1 = Done (Inr True) \<and> pcs 2 = Done (Inr True)"
proof -
  have "FormatUint 7 = ''7''" by code_simp
  then have "file_text \<lparr>entry = Some 0, files = [''7'']\<rparr> = Some (FormatUint 7)" by (simp add: file_text_def)
  then show ?thesis
    using stale_file_race [of "\<lparr>entry = Some 0, files = [''7'']\<rparr>" 7 "\<lambda>p. p \<in> {1, 2}" 1 2] by (auto simp: dir_ok_def)
qed

end
