(* ===== verification/Programs.thy ===== *)
theory Programs
  imports Client_Handler Server_Handler Pid_File
begin

text \<open>
  The two programs around their handlers: \<open>NewServer\<close> and \<open>Start\<close> of \<open>doh-server/server.go\<close>, \<open>Start\<close> of
  \<open>doh-client/client.go\<close> and both \<open>main\<close> functions.  The listeners run in goroutines; what a listener
  returns and the order in which the listeners end are arguments.  \<open>log.Fatalln\<close> ends the program and is
  an outcome; log output, the text of \<open>-version\<close> and the X.509 and TLS libraries are not modelled, so a
  certificate pool is the content of its file.
\<close>

section \<open>Waiting for the listeners\<close>

datatype start_outcome = Returned "string option" | Waiting | Fatal string

text \<open>The loop of both \<open>Start\<close> functions: \<open>n\<close> results are received, in the order in which they were sent.\<close>

fun wait_results :: "nat \<Rightarrow> string option list \<Rightarrow> start_outcome" where
  "wait_results 0 rs = Returned None"
| "wait_results (Suc n) [] = Waiting"
| "wait_results (Suc n) (Some err # rs) = Returned (Some err)"
| "wait_results (Suc n) (None # rs) = wait_results n rs"

section \<open>The server\<close>

record dns_client =
  dcNet :: string
  dcUDPSize :: u16
  dcTimeout :: int
  dcLocalAddr :: "udp_addr option"

record Server =
  sConf :: server_config
  sUdpClient :: dns_client
  sTcpClient :: dns_client
  sTcpClientTLS :: dns_client
  servemux :: string

definition server_timeout :: "server_config \<Rightarrow> int" where
  "server_timeout conf = wrap64 (wrap64 (int (Timeout conf)) * Second)"

definition server_client :: "string \<Rightarrow> u16 \<Rightarrow> server_config \<Rightarrow> udp_addr option \<Rightarrow> dns_client" where
  "server_client n sz conf a = \<lparr>dcNet = n, dcUDPSize = sz, dcTimeout = server_timeout conf, dcLocalAddr = a\<rparr>"

text \<open>\<open>HandleFunc\<close> panics for a pattern it does not accept, which is the argument \<open>pattern_err\<close>.\<close>

definition NewServer ::
  "(string \<Rightarrow> string + udp_addr) \<Rightarrow> (string \<Rightarrow> string + udp_addr) \<Rightarrow> (string \<Rightarrow> string option) \<Rightarrow> server_config \<Rightarrow>
   go_panic + (string + Server)" where
  "NewServer resolveUDP resolveTCP pattern_err conf =
     (let make = (\<lambda>udp tcp. case pattern_err (cfgPath conf) of
            Some err \<Rightarrow> Inl (ExplicitPanic err)
          | None \<Rightarrow> Inr (Inr \<lparr>sConf = conf, sUdpClient = server_client ''udp'' DefaultMsgSize conf udp,
              sTcpClient = server_client ''tcp'' 0 conf tcp, sTcpClientTLS = server_client ''tcp-tls'' 0 conf tcp,
              servemux = cfgPath conf\<rparr>))
      in if LocalAddr conf = [] then make None None
         else case resolveUDP (LocalAddr conf) of
           Inl err \<Rightarrow> Inr (Inl err)
         | Inr udpLocalAddr \<Rightarrow>
             (case resolveTCP (LocalAddr conf) of
                Inl err \<Rightarrow> Inr (Inl err)
              | Inr tcpLocalAddr \<Rightarrow> make (Some udpLocalAddr) (Some tcpLocalAddr)))"

text \<open>How an address is listened on: plain HTTP, TLS, or TLS with client certificates signed by a CA.\<close>

datatype listen_mode = PlainHTTP | TLS string string | MutualTLS bytes string string

definition client_ca_pool :: "(string \<Rightarrow> string + bytes) \<Rightarrow> server_config \<Rightarrow> string + bytes option" where
  "client_ca_pool readFile conf =
     (if TLSClientAuth conf then
        (if TLSClientAuthCA conf \<noteq> [] then
           (case readFile (TLSClientAuthCA conf) of
              Inl err \<Rightarrow> Inl (''Reading certificate for client authentication has failed: '' @ err)
            | Inr clientCA \<Rightarrow> Inr (Some clientCA))
         else Inl ''TLS client authentication requires both tls_client_auth and tls_client_auth_ca, exiting.'')
      else Inr None)"

definition mode_of :: "server_config \<Rightarrow> bytes option \<Rightarrow> listen_mode" where
  "mode_of conf pool =
     (if Cert conf \<noteq> [] \<or> Key conf \<noteq> [] then
        (case pool of Some ca \<Rightarrow> MutualTLS ca (Cert conf) (Key conf) | None \<Rightarrow> TLS (Cert conf) (Key conf))
      else PlainHTTP)"

definition server_listeners :: "(string \<Rightarrow> string + bytes) \<Rightarrow> server_config \<Rightarrow> string + (string \<times> listen_mode) list" where
  "server_listeners readFile conf =
     map_sum id (\<lambda>pool. map (\<lambda>addr. (addr, mode_of conf pool)) (Listen conf)) (client_ca_pool readFile conf)"

text \<open>\<open>listen a m\<close> is what the listener for \<open>a\<close> returns when it ends, and \<open>ended\<close> lists the listeners that
  have ended, by their numbers.\<close>

definition server_Start ::
  "(string \<Rightarrow> string + bytes) \<Rightarrow> (string \<Rightarrow> listen_mode \<Rightarrow> string option) \<Rightarrow> nat list \<Rightarrow> Server \<Rightarrow> start_outcome" where
  "server_Start readFile listen ended s =
     (case server_listeners readFile (sConf s) of
        Inl err \<Rightarrow> Fatal err
      | Inr ls \<Rightarrow> wait_results (length ls) (map (\<lambda>i. case_prod listen (ls ! i)) ended))"

section \<open>The client\<close>

datatype transport = UDP | TCP

definition client_listeners :: "Client \<Rightarrow> (string \<times> transport) list" where
  "client_listeners c = map (\<lambda>a. (a, UDP)) (udpServers c) @ map (\<lambda>a. (a, TCP)) (tcpServers c)"

text \<open>\<open>Start\<close> starts the listeners and the evaluation, of which the first round is performed here, and
  waits for the listeners.\<close>

definition client_Start ::
  "probe_env \<Rightarrow> nat list \<Rightarrow> (string \<Rightarrow> transport \<Rightarrow> string option) \<Rightarrow> nat list \<Rightarrow> Client \<Rightarrow> go_panic + Client \<times> start_outcome" where
  "client_Start e ord listen ended c =
     (case selector_StartEvaluate e ord (cSelector c) of
        Inl p \<Rightarrow> Inl p
      | Inr s \<Rightarrow> Inr (c\<lparr>cSelector := s\<rparr>,
          wait_results (length (client_listeners c)) (map (\<lambda>i. case_prod listen (client_listeners c ! i)) ended)))"

section \<open>The main functions\<close>

record main_flags =
  flConf :: string
  flVerbose :: bool
  flVersion :: bool
  flPidFile :: "string option"

datatype 'p exit_reason = ShowedVersion | PidRefused | FatalError string | Panicked go_panic | Ran 'p start_outcome

text \<open>The check of the PID file, if the platform has the flag and it is given: \<open>None\<close> if it does not
  return, else the directory and whether the program goes on.\<close>

definition pid_guard ::
  "(nat \<Rightarrow> bool) \<Rightarrow> (nat \<Rightarrow> string option) \<Rightarrow> nat \<Rightarrow> main_flags \<Rightarrow> pid_dir \<Rightarrow> (pid_dir \<times> bool) option" where
  "pid_guard alive faults self fl d =
     (if flPidFile fl \<noteq> None \<and> flPidFile fl \<noteq> Some [] then
        (case checkPIDFile alive faults self d of
           None \<Rightarrow> None
         | Some (d, Inl err) \<Rightarrow> Some (d, False)
         | Some (d, Inr ok) \<Rightarrow> Some (d, ok))
      else Some (d, True))"

text \<open>What the programs meet, beside the PID file: the configuration file, the resolver and the listeners.\<close>

record server_world =
  swQuote :: "string \<Rightarrow> string"
  swDecode :: "string \<Rightarrow> string + server_config \<times> string list"
  swResolveUDP :: "string \<Rightarrow> string + udp_addr"
  swResolveTCP :: "string \<Rightarrow> string + udp_addr"
  swPattern :: "string \<Rightarrow> string option"
  swReadFile :: "string \<Rightarrow> string + bytes"
  swListen :: "string \<Rightarrow> listen_mode \<Rightarrow> string option"
  swEnded :: "nat list"

record 'conn client_world =
  cwQuote :: "string \<Rightarrow> string"
  cwDecode :: "string \<Rightarrow> string + Config \<times> string list"
  cwNet :: "'conn net_env"
  cwEnv :: client_env
  cwProbe :: probe_env
  cwOrder :: "nat list"
  cwListen :: "string \<Rightarrow> transport \<Rightarrow> string option"
  cwEnded :: "nat list"

definition server_main ::
  "(nat \<Rightarrow> bool) \<Rightarrow> (nat \<Rightarrow> string option) \<Rightarrow> nat \<Rightarrow> server_world \<Rightarrow> main_flags \<Rightarrow> pid_dir \<Rightarrow> (pid_dir \<times> Server exit_reason) option" where
  "server_main alive faults self W fl d =
     (if flVersion fl then Some (d, ShowedVersion)
      else case pid_guard alive faults self fl d of
        None \<Rightarrow> None
      | Some (d, ok) \<Rightarrow>
          if \<not> ok then Some (d, PidRefused)
          else case loadConfig (swQuote W) (swDecode W (flConf fl)) of
             Inl err \<Rightarrow> Some (d, FatalError err)
           | Inr conf \<Rightarrow>
               (case NewServer (swResolveUDP W) (swResolveTCP W) (swPattern W) (if flVerbose fl then conf\<lparr>Verbose := True\<rparr> else conf) of
                  Inl p \<Rightarrow> Some (d, Panicked p)
                | Inr (Inl err) \<Rightarrow> Some (d, FatalError err)
                | Inr (Inr s) \<Rightarrow> Some (d, Ran s (server_Start (swReadFile W) (swListen W) (swEnded W) s))))"

definition client_main ::
  "(nat \<Rightarrow> bool) \<Rightarrow> (nat \<Rightarrow> string option) \<Rightarrow> nat \<Rightarrow> 'conn client_world \<Rightarrow> main_flags \<Rightarrow> pid_dir \<Rightarrow> (pid_dir \<times> Client exit_reason) option" where
  "client_main alive faults self W fl d =
     (if flVersion fl then Some (d, ShowedVersion)
      else case pid_guard alive faults self fl d of
        None \<Rightarrow> None
      | Some (d, ok) \<Rightarrow>
          if \<not> ok then Some (d, PidRefused)
          else case LoadConfig (cwQuote W) (cwDecode W (flConf fl)) of
             Inl err \<Rightarrow> Some (d, FatalError err)
           | Inr conf \<Rightarrow>
               (case NewClient (cwNet W) (cwEnv W) (if flVerbose fl then conf\<lparr>Other := (Other conf)\<lparr>confVerbose := True\<rparr>\<rparr> else conf) of
                  Inl err \<Rightarrow> Some (d, FatalError err)
                | Inr c \<Rightarrow>
                    (case client_Start (cwProbe W) (cwOrder W) (cwListen W) (cwEnded W) c of
                       Inl p \<Rightarrow> Some (d, Panicked p)
                     | Inr (c, out) \<Rightarrow> Some (d, Ran c out))))"

section \<open>Facts\<close>

lemma loadConfig_config_ok:
  assumes "loadConfig quote decoded = Inr conf"
  shows "config_ok conf" "Cert conf = [] \<longleftrightarrow> Key conf = []"
proof -
  obtain c where "conf = config_defaults c" "validate_upstreams (Upstream conf) = None" "Cert conf = [] \<longleftrightarrow> Key conf = []"
    using assms by (auto simp: loadConfig_def Let_def split: sum.splits if_splits option.splits)
  moreover have "Cert (config_defaults c) = Cert c" "Key (config_defaults c) = Key c" by (simp_all add: config_defaults_def)
  ultimately show "config_ok conf" "Cert conf = [] \<longleftrightarrow> Key conf = []"
    using config_defaults_ok [of c] validate_upstreams_None by auto
qed

lemma pid_guard_outcome:
  "\<exists>d' ok. pid_guard alive faults self fl d = Some (d', ok) \<and>
    (ok \<and> flPidFile fl \<noteq> None \<and> flPidFile fl \<noteq> Some [] \<longrightarrow> file_text d' = Some (FormatUint self))"
proof -
  obtain d' r where c: "checkPIDFile alive faults self d = Some (d', r)"
    using check_outcome [of alive faults self d] by blast
  have "file_text d' = Some (FormatUint self)" if "r = Inr True"
    using check_outcome [of alive faults self d] c that by (simp add: pid_outcome_def)
  then show ?thesis using c by (cases r) (auto simp: pid_guard_def)
qed

lemma wait_results_eq:
  "wait_results n rs = (case filter (\<lambda>r. r \<noteq> None) (take n rs) of
     e # _ \<Rightarrow> Returned e | [] \<Rightarrow> if n \<le> length rs then Returned None else Waiting)"
  by (induction n rs rule: wait_results.induct) auto


lemma server_main_ran:
  assumes "server_main alive faults self W fl d = Some (d', Ran s out)"
  shows "config_ok (sConf s)"
    "flPidFile fl \<noteq> None \<and> flPidFile fl \<noteq> Some [] \<Longrightarrow> file_text d' = Some (FormatUint self)"
proof -
  obtain d1 ok where g: "pid_guard alive faults self fl d = Some (d1, ok)"
    "ok \<and> flPidFile fl \<noteq> None \<and> flPidFile fl \<noteq> Some [] \<longrightarrow> file_text d1 = Some (FormatUint self)"
    using pid_guard_outcome by blast
  then have v: "\<not> flVersion fl" "ok" using assms by (auto simp: server_main_def split: if_splits)
  then obtain conf where c: "loadConfig (swQuote W) (swDecode W (flConf fl)) = Inr conf"
    using assms g(1) by (auto simp: server_main_def split: sum.splits)
  let ?conf = "if flVerbose fl then conf\<lparr>Verbose := True\<rparr> else conf"
  have n: "NewServer (swResolveUDP W) (swResolveTCP W) (swPattern W) ?conf = Inr (Inr s) \<and> d' = d1"
    using assms g(1) v c by (auto simp: server_main_def split: sum.splits)
  then have "sConf s = ?conf" by (auto simp: NewServer_def Let_def split: if_splits sum.splits option.splits)
  then show "config_ok (sConf s)" using loadConfig_config_ok(1) [OF c] by (simp add: config_ok_def)
  show "flPidFile fl \<noteq> None \<and> flPidFile fl \<noteq> Some [] \<Longrightarrow> file_text d' = Some (FormatUint self)"
    using g(2) v(2) n by simp
qed

lemma client_main_ran:
  assumes "client_main alive faults self W fl d = Some (d', Ran c out)"
  obtains conf c0 where "LoadConfig (cwQuote W) (cwDecode W (flConf fl)) = Inr conf"
    "NewClient (cwNet W) (cwEnv W) (if flVerbose fl then conf\<lparr>Other := (Other conf)\<lparr>confVerbose := True\<rparr>\<rparr> else conf) = Inr c0"
    "client_Start (cwProbe W) (cwOrder W) (cwListen W) (cwEnded W) c0 = Inr (c, out)"
    "flPidFile fl \<noteq> None \<and> flPidFile fl \<noteq> Some [] \<longrightarrow> file_text d' = Some (FormatUint self)"
proof -
  obtain d1 ok where g: "pid_guard alive faults self fl d = Some (d1, ok)"
    "ok \<and> flPidFile fl \<noteq> None \<and> flPidFile fl \<noteq> Some [] \<longrightarrow> file_text d1 = Some (FormatUint self)"
    using pid_guard_outcome by blast
  then have v: "\<not> flVersion fl" "ok" using assms by (auto simp: client_main_def split: if_splits)
  then show ?thesis using that assms g by (auto simp: client_main_def split: sum.splits prod.splits)
qed

lemma selector_evaluated:
  assumes "client_inv c" "set ord \<subseteq> {..<length (selector_upstreams (cSelector c))}" "client_Start e ord listen ended c = Inr (c', out)"
  shows "client_inv c'"
proof -
  obtain s where s: "selector_StartEvaluate e ord (cSelector c) = Inr s" "c' = c\<lparr>cSelector := s\<rparr>"
    using assms(3) by (auto simp: client_Start_def split: sum.splits)
  have inv: "selector_inv (cSelector c)" using assms(1) by (simp add: client_inv_def)
  show ?thesis using assms(1) s sel.evaluate_invar [OF inv assms(2) s(1)] known_type_ids [OF sel.evaluate_ids [OF inv assms(2) s(1)]]
    by (simp add: client_inv_def)
qed

section \<open>Properties\<close>

text \<open>Property C24.  When the server's \<open>main\<close> has come to serving requests, the PID file, if one was asked
  for, holds the number of the process, and every request is answered without a panic, whatever the
  upstreams do, unless its question is of type IXFR: the configuration that is served has passed the
  checks the handler relies on.\<close>

theorem server_main_serves:
  assumes "server_main alive faults self W fl d = Some (d', Ran s out)"
    "dns_lib_ok L" "encode_ok E" "exchange_ok Q"
    "\<And>w' req. parse_request L (sConf s) T E (common_headers w) (with_real_ip r) = Some (Inr (w', req)) \<Longrightarrow> no_IXFR (request req)"
  shows "(flPidFile fl \<noteq> None \<and> flPidFile fl \<noteq> Some [] \<longrightarrow> file_text d' = Some (FormatUint self))
    \<and> (\<exists>w'. handlerFunc L (sConf s) T E Q w r = Inr w')"
proof -
  have "\<exists>w'. handlerFunc L (sConf s) T E Q w r = Inr w'"
    by (rule handlerFunc_returns [OF server_main_ran(1) [OF assms(1)] assms(2-4)]) (rule assms(5))
  then show ?thesis using server_main_ran(2) [OF assms(1)] by blast
qed

definition sample_flags :: main_flags where
  "sample_flags = \<lparr>flConf = ''doh.conf'', flVerbose = True, flVersion = False, flPidFile = Some ''/run/doh.pid''\<rparr>"

definition sample_world :: server_world where
  "sample_world = \<lparr>swQuote = id, swDecode = (\<lambda>_. Inr (empty_config, [])), swResolveUDP = (\<lambda>_. Inl ''no host''),
     swResolveTCP = (\<lambda>_. Inl ''no host''), swPattern = (\<lambda>_. None), swReadFile = (\<lambda>_. Inl ''no file''),
     swListen = (\<lambda>_ _. Some ''closed''), swEnded = []\<rparr>"

lemma sample_guard:
  "pid_guard (\<lambda>_. False) (\<lambda>_. None) 42 sample_flags \<lparr>entry = None, files = []\<rparr> =
    Some (\<lparr>entry = Some 0, files = [FormatUint 42]\<rparr>, True)"
  by (simp add: pid_guard_def sample_flags_def checkPIDFile_def check_loop_step pid_step_def)

lemma empty_config_loads: "loadConfig id (Inr (empty_config, [])) = Inr (config_defaults empty_config)"
  using default_upstreams_ok validate_upstreams_None [of "[''udp:8.8.8.8:53'', ''udp:8.8.4.4:53'']"]
  by (simp add: loadConfig_def Let_def config_defaults_def empty_config_def)

theorem server_main_serves_witness:
  "\<exists>d' s out. server_main (\<lambda>_. False) (\<lambda>_. None) 42 sample_world sample_flags \<lparr>entry = None, files = []\<rparr> = Some (d', Ran s out)
     \<and> file_text d' = Some (FormatUint 42)
     \<and> (\<exists>w'. handlerFunc sample_lib (sConf s) list_tree sample_server_env echo_query_env new_writer
          (sample_request\<lparr>srForm := []\<rparr>) = Inr w')"
proof -
  let ?d = "\<lparr>entry = None, files = []\<rparr> :: pid_dir"
  obtain d' s out where m: "server_main (\<lambda>_. False) (\<lambda>_. None) 42 sample_world sample_flags ?d = Some (d', Ran s out)"
    using sample_guard empty_config_loads
    by (simp add: server_main_def sample_world_def NewServer_def config_defaults_def empty_config_def sample_flags_def Let_def)
  have "content_type (with_real_ip (sample_request\<lparr>srForm := []\<rparr>)) = []"
    by (simp add: content_type_def with_real_ip_def sample_request_def header_get_def Let_def)
  then have "parse_request sample_lib conf list_tree sample_server_env v (with_real_ip (sample_request\<lparr>srForm := []\<rparr>)) = None" for conf v
    by (simp add: parse_request_def)
  then have "(flPidFile sample_flags \<noteq> None \<and> flPidFile sample_flags \<noteq> Some [] \<longrightarrow> file_text d' = Some (FormatUint 42))
    \<and> (\<exists>w'. handlerFunc sample_lib (sConf s) list_tree sample_server_env echo_query_env new_writer (sample_request\<lparr>srForm := []\<rparr>) = Inr w')"
    by (intro server_main_serves [OF m sample_lib_ok sample_encode_ok echo_query_env_ok]) simp
  then have "file_text d' = Some (FormatUint 42)
    \<and> (\<exists>w'. handlerFunc sample_lib (sConf s) list_tree sample_server_env echo_query_env new_writer (sample_request\<lparr>srForm := []\<rparr>) = Inr w')"
    by (simp add: sample_flags_def)
  with m show ?thesis by blast
qed

text \<open>Property C27.  With TLS client authentication configured, the server serves only if it could read
  the file with the CA certificates, and then every listener that speaks TLS asks for client
  certificates of that CA; but without a certificate of its own it listens on plain HTTP, without
  authentication.\<close>

theorem client_auth_enforced:
  assumes "loadConfig quote decoded = Inr conf" "TLSClientAuth conf" "server_listeners readFile conf = Inr ls"
  shows "\<exists>ca. readFile (TLSClientAuthCA conf) = Inr ca \<and> ls = map (\<lambda>a. (a, if Cert conf = [] then PlainHTTP
      else MutualTLS ca (Cert conf) (Key conf))) (Listen conf)"
  using assms(2,3) loadConfig_config_ok(2) [OF assms(1)]
  by (auto simp: server_listeners_def client_ca_pool_def mode_of_def split: if_splits sum.splits)

theorem client_auth_enforced_witness:
  "\<exists>conf. loadConfig id (Inr (empty_config\<lparr>TLSClientAuth := True, TLSClientAuthCA := ''ca.pem'', Cert := ''c'', Key := ''k''\<rparr>, [])) = Inr conf
     \<and> TLSClientAuth conf \<and> server_listeners (\<lambda>_. Inr [1]) conf =
       Inr (map (\<lambda>a. (a, MutualTLS [1] ''c'' ''k'')) (Listen conf))"
proof -
  let ?c = "empty_config\<lparr>TLSClientAuth := True, TLSClientAuthCA := ''ca.pem'', Cert := ''c'', Key := ''k''\<rparr>"
  have l: "loadConfig id (Inr (?c, [])) = Inr (config_defaults ?c)"
    using default_upstreams_ok validate_upstreams_None [of "[''udp:8.8.8.8:53'', ''udp:8.8.4.4:53'']"]
    by (simp add: loadConfig_def Let_def config_defaults_def empty_config_def)
  have c: "TLSClientAuth (config_defaults ?c)" "TLSClientAuthCA (config_defaults ?c) = ''ca.pem''" "Cert (config_defaults ?c) = ''c''"
    "Key (config_defaults ?c) = ''k''" by (simp_all add: config_defaults_def empty_config_def)
  obtain ls where ls: "server_listeners (\<lambda>_. Inr [1]) (config_defaults ?c) = Inr ls"
    using c by (simp add: server_listeners_def client_ca_pool_def)
  show ?thesis using client_auth_enforced [OF l c(1) ls] l c ls by auto
qed

text \<open>When the client's \<open>main\<close> has come to serving queries, with a configuration for the
  random or the smooth weighted selector, the PID file, if one was asked for, holds the number of the
  process, and every query of any sequence of queries is answered with one message.\<close>

theorem client_main_serves:
  assumes "client_main alive faults self W fl d = Some (d', Ran c out)"
    "LoadConfig (cwQuote W) (cwDecode W (flConf fl)) = Inr conf" "weights_allowed conf"
    "UpstreamSelector (confUpstream conf) \<noteq> LVSWRR" "set (cwOrder W) \<subseteq> {..<upstream_count conf}"
    "dns_lib_ok L" "truncate_ok L" "list_all query_ok qs"
  shows "(flPidFile fl \<noteq> None \<and> flPidFile fl \<noteq> Some [] \<longrightarrow> file_text d' = Some (FormatUint self))
    \<and> (\<exists>c' ws. handle_all L T c qs = Some (Inr (c', ws)) \<and> list_all2 (answered L) qs ws)"
proof -
  let ?conf = "if flVerbose fl then conf\<lparr>Other := (Other conf)\<lparr>confVerbose := True\<rparr>\<rparr> else conf"
  obtain c0 where n: "NewClient (cwNet W) (cwEnv W) ?conf = Inr c0"
    and st: "client_Start (cwProbe W) (cwOrder W) (cwListen W) (cwEnded W) c0 = Inr (c, out)"
    and pid: "flPidFile fl \<noteq> None \<and> flPidFile fl \<noteq> Some [] \<longrightarrow> file_text d' = Some (FormatUint self)"
    using client_main_ran [OF assms(1)] assms(2) by (metis sum.inject(2))
  have same: "confUpstream ?conf = confUpstream conf" by simp
  then have w: "weights_allowed ?conf" "upstream_count ?conf = upstream_count conf"
    using assms(3) by (simp_all add: weights_allowed_def upstream_count_def configured_details_def)
  have inv: "client_inv c0" by (rule NewClient_client_inv [OF n w(1)]) (use assms(4) in simp)
  have s: "new_selector ?conf = Inr (cSelector c0)" using n by (auto simp: NewClient_def Let_def split: sum.splits)
  have "length (selector_upstreams (cSelector c0)) = upstream_count conf"
    using new_selector_built [of ?conf] s assms(4) configured_facts(1) w(2) by auto
  then have "client_inv c" using selector_evaluated [OF inv _ st] assms(5) by simp
  then show ?thesis using pid handle_all_answers [OF assms(6,7) _ assms(8)] by blast
qed


definition sample_client_world :: "string client_world" where
  "sample_client_world = \<lparr>cwQuote = id, cwDecode = (\<lambda>_. Inr (empty_client_config\<lparr>confUpstream := \<lparr>UpstreamGoogle = [],
     UpstreamIETF = [\<lparr>udURL = ''https://a/dns-query'', udWeight = 50\<rparr>, \<lparr>udURL = ''https://b/dns-query'', udWeight = 20\<rparr>],
     UpstreamSelector = NginxWRR\<rparr>\<rparr>, [])), cwNet = sample_net, cwEnv = sample_client_env,
     cwProbe = \<lparr>probeNewRequest = (\<lambda>_. None), probeDo = (\<lambda>_ _. Inl ''refused''), probeDecode = (\<lambda>_. Inl ''bad'')\<rparr>,
     cwOrder = [], cwListen = (\<lambda>_ _. Some ''closed''), cwEnded = [1]\<rparr>"

theorem client_main_serves_witness:
  "\<exists>d' c out c' ws. client_main (\<lambda>_. False) (\<lambda>_. None) 42 sample_client_world (sample_flags\<lparr>flVerbose := False\<rparr>)
      \<lparr>entry = None, files = []\<rparr> = Some (d', Ran c out)
    \<and> file_text d' = Some (FormatUint 42)
    \<and> handle_all sample_lib list_tree c [sample_client_query] = Some (Inr (c', ws))
    \<and> list_all2 (answered sample_lib) [sample_client_query] ws"
proof -
  let ?d = "\<lparr>entry = None, files = []\<rparr> :: pid_dir" and ?fl = "sample_flags\<lparr>flVerbose := False\<rparr>" and ?W = sample_client_world
  have l: "LoadConfig (cwQuote ?W) (cwDecode ?W (flConf ?fl)) = Inr sample_config"
    by (simp add: LoadConfig_def sample_client_world_def sample_config_def)
  have u: "UpstreamSelector (confUpstream sample_config) \<noteq> LVSWRR"
    using sample_config_allowed(2) by (simp add: NginxWRR_def LVSWRR_def)
  obtain c0 where c0: "NewClient sample_net sample_client_env sample_config = Inr c0" using sample_client_ex by blast
  have "evaluate_round f [] us = Inr us" for f us by simp
  then have "selector_StartEvaluate e [] s = Inr s" for e s
    by (cases s) (simp_all add: selector_StartEvaluate_def random_StartEvaluate_def nginx_StartEvaluate_def lvs_StartEvaluate_def)
  then obtain c out where s: "client_Start (cwProbe ?W) (cwOrder ?W) (cwListen ?W) (cwEnded ?W) c0 = Inr (c, out)"
    by (simp add: client_Start_def sample_client_world_def)
  have g: "pid_guard (\<lambda>_. False) (\<lambda>_. None) 42 ?fl ?d = Some (\<lparr>entry = Some 0, files = [FormatUint 42]\<rparr>, True)"
    using sample_guard by (simp add: pid_guard_def)
  have n: "NewClient (cwNet ?W) (cwEnv ?W) sample_config = Inr c0" using c0 by (simp add: sample_client_world_def)
  have fl: "\<not> flVersion ?fl" "\<not> flVerbose ?fl" "flPidFile ?fl = Some ''/run/doh.pid''" by (simp_all add: sample_flags_def)
  have m: "client_main (\<lambda>_. False) (\<lambda>_. None) 42 ?W ?fl ?d = Some (\<lparr>entry = Some 0, files = [FormatUint 42]\<rparr>, Ran c out)"
    by (simp only: client_main_def g l n s fl if_False not_True_eq_False not_False_eq_True option.case sum.case prod.case)
  from client_main_serves [OF m l sample_config_allowed(1) u _ sample_lib_ok sample_query_ok(2), of "[sample_client_query]"]
  show ?thesis using m fl(3) sample_query_ok(1) by (fastforce simp: sample_client_world_def)
qed

end
