(* ===== verification/Weight_Steps.thy ===== *)
theory Weight_Steps
  imports Upstream
begin

text \<open>
  The effective weight of one upstream under concurrent updates.  Every update of the selectors is
  an \<open>atomic.AddInt32\<close> followed, if the sum has left the range, by an \<open>atomic.StoreInt32\<close> of the
  bound; between the two any number of other goroutines (queries that report a status, the probes
  of the evaluation) may run.  The state is the shared effective weight together with the stores
  that are still outstanding; a step is one atomic operation.  The relation holds for the updates of
  both weighted selectors: they differ only in the amounts.

  The theorems say that the bounds \<open>1 \<le> effectiveWeight \<le> weight\<close> hold whenever no store is
  outstanding, in every interleaving, how far the weight can be out of bounds in between, and that
  outstanding stores are the only reason for it.
\<close>

section \<open>Atomic steps on one effective weight\<close>

datatype pending = StoreLow | StoreHigh

record weight_state =
  eff :: int
  todo :: "pending list"

inductive weight_step :: "int \<Rightarrow> weight_state \<Rightarrow> weight_state \<Rightarrow> bool" for w where
  lower: "d \<in> {2, 3, 5, 10} \<Longrightarrow> e = wrap32 (eff s - d) \<Longrightarrow>
     weight_step w s \<lparr>eff = e, todo = (if e < 1 then StoreLow # todo s else todo s)\<rparr>"
| raise: "d \<in> {1, 5} \<Longrightarrow> e = wrap32 (eff s + d) \<Longrightarrow>
     weight_step w s \<lparr>eff = e, todo = (if w < e then StoreHigh # todo s else todo s)\<rparr>"
| store: "todo s = ps @ p # qs \<Longrightarrow>
     weight_step w s \<lparr>eff = (case p of StoreLow \<Rightarrow> 1 | StoreHigh \<Rightarrow> w), todo = ps @ qs\<rparr>"

inductive weight_reach :: "int \<Rightarrow> nat \<Rightarrow> weight_state \<Rightarrow> weight_state \<Rightarrow> bool" for w N where
  start: "weight_reach w N s s"
| step: "weight_reach w N s t \<Longrightarrow> weight_step w t u \<Longrightarrow> length (todo u) \<le> N \<Longrightarrow> weight_reach w N s u"

inductive_cases weight_stepE: "weight_step w s t"

text \<open>\<open>N\<close> bounds the number of goroutines that are between their two atomic operations.\<close>

definition steps_inv :: "int \<Rightarrow> weight_state \<Rightarrow> bool" where
  "steps_inv w s \<longleftrightarrow>
     1 - 10 * int (count_list (todo s) StoreLow) \<le> eff s
     \<and> eff s \<le> w + 5 * int (count_list (todo s) StoreHigh)"

definition no_wrap :: "int \<Rightarrow> nat \<Rightarrow> bool" where
  "no_wrap w N \<longleftrightarrow> 1 \<le> w \<and> w + 5 * int N + 5 < 2147483648 \<and> 10 * int N + 10 < 2147483648"

lemma count_list_le_length: "count_list xs x \<le> length xs"
  by (induction xs) auto

lemma steps_inv_range:
  assumes "steps_inv w s" "no_wrap w N" "length (todo s) \<le> N" "0 \<le> d" "d \<le> 10"
  shows "wrap32 (eff s - d) = eff s - d" "d \<le> 5 \<Longrightarrow> wrap32 (eff s + d) = eff s + d"
proof -
  have "int (count_list (todo s) StoreLow) \<le> int N" "int (count_list (todo s) StoreHigh) \<le> int N"
    using count_list_le_length [of "todo s"] assms(3) by (meson le_trans of_nat_mono)+
  then show "wrap32 (eff s - d) = eff s - d" "d \<le> 5 \<Longrightarrow> wrap32 (eff s + d) = eff s + d"
    using assms by (auto simp: steps_inv_def no_wrap_def in32_def intro!: wrap32_id)
qed

lemma steps_inv_step:
  assumes "weight_step w s t" "steps_inv w s" "no_wrap w N" "length (todo s) \<le> N"
  shows "steps_inv w t"
  using assms(1)
proof cases
  case (lower d e)
  then have "e = eff s - d" using steps_inv_range(1) [OF assms(2-4), of d] by auto
  then show ?thesis using lower assms(2) by (auto simp: steps_inv_def)
next
  case (raise d e)
  then have "e = eff s + d" using steps_inv_range(2) [OF assms(2-4), of d] by auto
  then show ?thesis using raise assms(2) by (auto simp: steps_inv_def)
next
  case (store ps p qs)
  then show ?thesis using assms(3) by (cases p) (simp_all add: steps_inv_def no_wrap_def)
qed

lemma steps_inv_reach:
  assumes "weight_reach w N s t" "steps_inv w s" "no_wrap w N" "length (todo s) \<le> N"
  shows "steps_inv w t \<and> length (todo t) \<le> N"
  using assms by (induction rule: weight_reach.induct) (blast intro: steps_inv_step)+

lemma weight_reach_trans:
  assumes "weight_reach w N t u" "weight_reach w N s t"
  shows "weight_reach w N s u"
  using assms by (induction rule: weight_reach.induct) (blast intro: weight_reach.step)+

text \<open>The outstanding stores alone bring the state to rest.\<close>

lemma drain:
  assumes "length (todo s) \<le> N" "todo s \<noteq> []"
  shows "\<exists>t. weight_reach w N s t \<and> todo t = [] \<and> (eff t = 1 \<or> eff t = w)"
  using assms
proof (induction "todo s" arbitrary: s)
  case Nil
  then show ?case by simp
next
  case (Cons p qs)
  let ?t = "\<lparr>eff = (case p of StoreLow \<Rightarrow> 1 | StoreHigh \<Rightarrow> w), todo = qs\<rparr>"
  have "weight_step w s ?t" using weight_step.store [of s "[]" p qs w] Cons.hyps(2) by simp
  then have st: "weight_reach w N s ?t"
    using Cons.hyps(2) Cons.prems(1) weight_reach.step [OF weight_reach.start, of w s ?t N]
    by (metis Suc_leD length_Cons weight_state.select_convs(2))
  have len: "length qs \<le> N" using Cons.prems(1) unfolding Cons.hyps(2) [symmetric] by simp
  show ?case
  proof (cases "qs = []")
    case True
    then show ?thesis using st by (intro exI [of _ ?t]) (cases p; simp)
  next
    case False
    have "\<exists>t. weight_reach w N ?t t \<and> todo t = [] \<and> (eff t = 1 \<or> eff t = w)"
      using Cons.hyps(1) [of ?t] len False by simp
    then show ?thesis using weight_reach_trans st by blast
  qed
qed

subsection \<open>Properties\<close>

text \<open>Property C34.  However the atomic operations of any number of reports and probes interleave, the
  effective weight of an upstream that starts within \<open>[1, weight]\<close> is in that range whenever no
  store is outstanding; it can be below 1 only by 10 for each outstanding store of 1, and above the
  configured weight only by 5 for each outstanding store of the weight.  \<open>N\<close> bounds the number of
  goroutines between their two operations; no addition wraps around.\<close>

theorem weight_interleaving_bounds:
  assumes "weight_reach w N \<lparr>eff = e, todo = []\<rparr> t" "1 \<le> e" "e \<le> w"
    "w + 5 * int N + 5 < 2147483648" "10 * int N + 10 < 2147483648"
  shows "1 - 10 * int (count_list (todo t) StoreLow) \<le> eff t
    \<and> eff t \<le> w + 5 * int (count_list (todo t) StoreHigh)
    \<and> (todo t = [] \<longrightarrow> 1 \<le> eff t \<and> eff t \<le> w)"
proof -
  have "no_wrap w N" "steps_inv w \<lparr>eff = e, todo = []\<rparr>"
    using assms by (auto simp: no_wrap_def steps_inv_def)
  then have "steps_inv w t" using steps_inv_reach [OF assms(1)] by simp
  then show ?thesis by (auto simp: steps_inv_def)
qed

text \<open>A run in which a second report is applied between the addition and the store of a first one.\<close>

lemma two_reports_run:
  "weight_reach 50 2 \<lparr>eff = 4, todo = []\<rparr> \<lparr>eff = -6, todo = [StoreLow, StoreLow]\<rparr>"
proof -
  have "weight_step 50 \<lparr>eff = 4, todo = []\<rparr> \<lparr>eff = -1, todo = [StoreLow]\<rparr>"
    using weight_step.lower [of 5 "-1" "\<lparr>eff = 4, todo = []\<rparr>" 50] by (simp add: wrap32_def)
  moreover have "weight_step 50 \<lparr>eff = -1, todo = [StoreLow]\<rparr> \<lparr>eff = -6, todo = [StoreLow, StoreLow]\<rparr>"
    using weight_step.lower [of 5 "-6" "\<lparr>eff = -1, todo = [StoreLow]\<rparr>" 50] by (simp add: wrap32_def)
  ultimately show ?thesis
    by (intro weight_reach.step [OF weight_reach.step [OF weight_reach.start]]) simp_all
qed

theorem weight_interleaving_bounds_witness:
  "weight_reach 50 2 \<lparr>eff = 4, todo = []\<rparr> \<lparr>eff = -6, todo = [StoreLow, StoreLow]\<rparr> \<and>
   1 - 10 * int (count_list [StoreLow, StoreLow] StoreLow) \<le> -6"
  using weight_interleaving_bounds [OF two_reports_run] two_reports_run by simp

text \<open>In every reachable state the outstanding stores, run alone one after
  the other, bring the effective weight back into \<open>[1, weight]\<close> with nothing outstanding.\<close>

theorem weight_settles:
  assumes "weight_reach w N \<lparr>eff = e, todo = []\<rparr> s" "1 \<le> e" "e \<le> w"
    "w + 5 * int N + 5 < 2147483648" "10 * int N + 10 < 2147483648"
  shows "\<exists>t. weight_reach w N s t \<and> todo t = [] \<and> 1 \<le> eff t \<and> eff t \<le> w"
proof -
  have "no_wrap w N" "steps_inv w \<lparr>eff = e, todo = []\<rparr>"
    using assms by (auto simp: no_wrap_def steps_inv_def)
  then have inv: "steps_inv w s" "length (todo s) \<le> N" using steps_inv_reach [OF assms(1)] by auto
  show ?thesis
  proof (cases "todo s = []")
    case True
    then show ?thesis using inv(1) weight_reach.start [of w N s]
      by (intro exI [of _ s]) (simp add: steps_inv_def)
  next
    case False
    then show ?thesis using drain [OF inv(2) False, of w] assms(2,3) by fastforce
  qed
qed

theorem weight_settles_witness:
  "\<exists>t. weight_reach 50 2 \<lparr>eff = -6, todo = [StoreLow, StoreLow]\<rparr> t \<and> todo t = [] \<and> 1 \<le> eff t \<and> eff t \<le> 50"
  using weight_settles [OF two_reports_run] by simp

text \<open>An update that is not interrupted is the sequential one of the selector models:
  two atomic steps at most lead from the effective weight before to the one after \<open>lower_weight\<close> or
  \<open>raise_weight\<close>, with no store outstanding.\<close>

theorem sequential_update_is_a_run:
  assumes "1 \<le> weight u" "d \<in> {2, 3, 5, 10}" "d' \<in> {1, 5}"
  shows "weight_reach (weight u) 1 \<lparr>eff = effectiveWeight u, todo = []\<rparr>
      \<lparr>eff = effectiveWeight (lower_weight d u), todo = []\<rparr> \<and>
    weight_reach (weight u) 1 \<lparr>eff = effectiveWeight u, todo = []\<rparr>
      \<lparr>eff = effectiveWeight (raise_weight d' u), todo = []\<rparr>"
proof
  let ?s = "\<lparr>eff = effectiveWeight u, todo = []\<rparr>"
  have st: "weight_reach (weight u) 1 ?s t \<Longrightarrow> todo t = [p] \<Longrightarrow>
      weight_reach (weight u) 1 ?s \<lparr>eff = (case p of StoreLow \<Rightarrow> 1 | StoreHigh \<Rightarrow> weight u), todo = []\<rparr>" for t p
    using weight_step.store [of t "[]" p "[]" "weight u"] by (auto intro: weight_reach.step)
  have one: "weight_step (weight u) ?s t \<Longrightarrow> length (todo t) \<le> 1 \<Longrightarrow> weight_reach (weight u) 1 ?s t" for t
    by (rule weight_reach.step [OF weight_reach.start])
  show "weight_reach (weight u) 1 ?s \<lparr>eff = effectiveWeight (lower_weight d u), todo = []\<rparr>"
    using one [OF weight_step.lower [OF assms(2) refl]] st [of _ StoreLow]
    by (fastforce simp: lower_weight_def Let_def split: if_splits)
  show "weight_reach (weight u) 1 ?s \<lparr>eff = effectiveWeight (raise_weight d' u), todo = []\<rparr>"
    using one [OF weight_step.raise [OF assms(3) refl]] st [of _ StoreHigh]
    by (fastforce simp: raise_weight_def Let_def split: if_splits)
qed


definition lowered_upstream :: upstream where
  "lowered_upstream = \<lparr>uType = IETF, URL = ''a'', RequestType = ''application/dns-message'', weight = 50,
     effectiveWeight = 4, currentWeight = 0\<rparr>"

theorem sequential_update_is_a_run_witness:
  "weight_reach 50 1 \<lparr>eff = 4, todo = []\<rparr> \<lparr>eff = 1, todo = []\<rparr> \<and>
   weight_reach 50 1 \<lparr>eff = 4, todo = []\<rparr> \<lparr>eff = 9, todo = []\<rparr>"
  using sequential_update_is_a_run [of lowered_upstream 5 5]
  by (simp add: lowered_upstream_def lower_weight_def raise_weight_def wrap32_def)

end
