(* ===== verification/Interleaving.thy ===== *)
theory Interleaving
  imports Main
begin

section \<open>Goroutines on a shared state\<close>

text \<open>
  The code starts a goroutine for every query and shares the selector between them.  A goroutine is a
  program counter that holds its local variables; \<open>step\<close> performs its next operation on the shared
  state.  An event is the start of a goroutine for some request, the next operation of a goroutine, or
  a change of the shared state from outside, and a run is any list of events, so a statement about
  every run is one about every interleaving.  The locales hold what the concurrent models share: an
  invariant of the shared state and of all program counters, and a bound on the operations a goroutine
  needs.
\<close>

datatype ('q, 'e) event = Start 'q | Run nat | Outside 'e

record ('s, 'pc) system =
  shared :: 's
  calls :: "'pc list"

fun apply_event ::
  "('s \<Rightarrow> 'q \<Rightarrow> 'pc) \<Rightarrow> ('s \<Rightarrow> 'pc \<Rightarrow> 's \<times> 'pc) \<Rightarrow> ('e \<Rightarrow> 's \<Rightarrow> 's) \<Rightarrow> ('q, 'e) event \<Rightarrow> ('s, 'pc) system \<Rightarrow> ('s, 'pc) system" where
  "apply_event start step outside (Start q) st = st\<lparr>calls := calls st @ [start (shared st) q]\<rparr>"
| "apply_event start step outside (Run k) st =
     (if k < length (calls st) then
        case step (shared st) (calls st ! k) of (s, pc) \<Rightarrow> st\<lparr>shared := s, calls := (calls st)[k := pc]\<rparr>
      else st)"
| "apply_event start step outside (Outside e) st = st\<lparr>shared := outside e (shared st)\<rparr>"

text \<open>For a model in which the goroutines alone change the shared state.\<close>

definition no_outside :: "unit \<Rightarrow> 's \<Rightarrow> 's" where
  "no_outside e s = s"

definition run_events where
  "run_events start step outside evs st = fold (apply_event start step outside) evs st"

lemma run_events_simps [simp]:
  "run_events start step outside [] st = st"
  "run_events start step outside (ev # evs) st = run_events start step outside evs (apply_event start step outside ev st)"
  "run_events start step outside (evs @ evs') st = run_events start step outside evs' (run_events start step outside evs st)"
  by (simp_all add: run_events_def)

subsection \<open>One goroutine that is not interrupted\<close>

fun steps_alone :: "('s \<Rightarrow> 'pc \<Rightarrow> 's \<times> 'pc) \<Rightarrow> nat \<Rightarrow> 's \<times> 'pc \<Rightarrow> 's \<times> 'pc" where
  "steps_alone step 0 x = x"
| "steps_alone step (Suc m) x = steps_alone step m (step (fst x) (snd x))"

lemma alone_add: "steps_alone step (m + k) x = steps_alone step k (steps_alone step m x)"
  by (induction m arbitrary: x) simp_all

lemma alone_end: "step s pc = (s, pc) \<Longrightarrow> steps_alone step m (s, pc) = (s, pc)"
  by (induction m) simp_all

definition reaches :: "('s \<Rightarrow> 'pc \<Rightarrow> 's \<times> 'pc) \<Rightarrow> 's \<times> 'pc \<Rightarrow> 's \<times> 'pc \<Rightarrow> bool" where
  "reaches step x y \<longleftrightarrow> (\<exists>m. steps_alone step m x = y)"

lemma reaches_refl [simp]: "reaches step x x"
  unfolding reaches_def by (rule exI [of _ 0]) simp

lemma reaches_trans [trans]: "reaches step x y \<Longrightarrow> reaches step y z \<Longrightarrow> reaches step x z"
  unfolding reaches_def by (metis alone_add)

lemma reaches_step: "reaches step (step s pc) y \<Longrightarrow> reaches step (s, pc) y"
proof -
  assume "reaches step (step s pc) y"
  then obtain m where "steps_alone step m (step s pc) = y" by (auto simp: reaches_def)
  then have "steps_alone step (Suc m) (s, pc) = y" by simp
  then show ?thesis unfolding reaches_def by blast
qed

lemma run_alone:
  assumes "k < length (calls st)"
  shows "run_events start step outside (replicate m (Run k)) st =
    st\<lparr>shared := fst (steps_alone step m (shared st, calls st ! k)),
       calls := (calls st)[k := snd (steps_alone step m (shared st, calls st ! k))]\<rparr>"
  using assms
proof (induction m arbitrary: st)
  case (Suc m)
  obtain s pc where g: "step (shared st) (calls st ! k) = (s, pc)" by fastforce
  have "run_events start step outside (replicate m (Run k)) (st\<lparr>shared := s, calls := (calls st)[k := pc]\<rparr>) =
    st\<lparr>shared := fst (steps_alone step m (s, pc)), calls := (calls st)[k := snd (steps_alone step m (s, pc))]\<rparr>"
    using Suc.IH [of "st\<lparr>shared := s, calls := (calls st)[k := pc]\<rparr>"] Suc.prems by simp
  then show ?case using Suc.prems g by simp
qed simp

lemma reaches_run:
  assumes "reaches step (shared st, calls st ! k) (s, pc)" "k < length (calls st)"
  shows "\<exists>m. run_events start step outside (replicate m (Run k)) st = st\<lparr>shared := s, calls := (calls st)[k := pc]\<rparr>"
  using assms run_alone [OF assms(2), of start step outside] unfolding reaches_def by (metis fst_conv snd_conv)

text \<open>What no operation changes of its program counter, a goroutine keeps in every run.\<close>

lemma run_kept:
  assumes kept: "\<And>s pc. f (snd (step s pc)) = f pc"
  shows "k < length (calls st) \<Longrightarrow> k < length (calls (run_events start step outside evs st)) \<and>
    f (calls (run_events start step outside evs st) ! k) = f (calls st ! k)"
proof (induction evs arbitrary: st)
  case (Cons ev evs)
  have "f pc = f (calls st ! j)" if "step (shared st) (calls st ! j) = (s, pc)" for j s pc
    using kept [of "shared st" "calls st ! j"] that by simp
  then have "k < length (calls (apply_event start step outside ev st))"
    "f (calls (apply_event start step outside ev st) ! k) = f (calls st ! k)"
    using Cons.prems by (cases ev; force simp: nth_append nth_list_update split: prod.split)+
  then show ?case using Cons.IH by simp
qed simp

subsection \<open>Invariants of every run\<close>

locale event_system =
  fixes react :: "'e \<Rightarrow> 's \<Rightarrow> 's" and inv :: "'s \<Rightarrow> bool"
  assumes react_inv: "inv s \<Longrightarrow> inv (react e s)"
begin

lemma run_inv: "inv s \<Longrightarrow> inv (fold react es s)"
  by (induction es arbitrary: s) (simp_all add: react_inv)

end

definition all_ok :: "('s \<Rightarrow> bool) \<Rightarrow> ('s \<Rightarrow> 'pc \<Rightarrow> bool) \<Rightarrow> ('s, 'pc) system \<Rightarrow> bool" where
  "all_ok ok pc_ok st \<longleftrightarrow> ok (shared st) \<and> list_all (pc_ok (shared st)) (calls st)"

text \<open>
  An invariant of the shared state with a condition on program counters: an operation keeps the
  invariant, establishes the condition for its own program counter and does not invalidate it for
  others.
\<close>

locale interleaving =
  fixes start :: "'s \<Rightarrow> 'q \<Rightarrow> 'pc" and step :: "'s \<Rightarrow> 'pc \<Rightarrow> 's \<times> 'pc" and outside :: "'e \<Rightarrow> 's \<Rightarrow> 's"
    and ok :: "'s \<Rightarrow> bool" and pc_ok :: "'s \<Rightarrow> 'pc \<Rightarrow> bool"
  assumes start_ok: "ok s \<Longrightarrow> pc_ok s (start s q)"
    and step_ok: "ok s \<Longrightarrow> pc_ok s pc \<Longrightarrow> step s pc = (s', pc') \<Longrightarrow> ok s' \<and> pc_ok s' pc'"
    and step_others: "ok s \<Longrightarrow> pc_ok s pc \<Longrightarrow> step s pc = (s', pc') \<Longrightarrow> pc_ok s other \<Longrightarrow> pc_ok s' other"
    and outside_ok: "ok s \<Longrightarrow> ok (outside e s)"
    and outside_others: "ok s \<Longrightarrow> pc_ok s other \<Longrightarrow> pc_ok (outside e s) other"
begin

lemma apply_all_ok:
  assumes "all_ok ok pc_ok st"
  shows "all_ok ok pc_ok (apply_event start step outside ev st)"
proof (cases ev)
  case (Start q)
  then show ?thesis using assms start_ok by (simp add: all_ok_def)
next
  case (Outside e)
  then show ?thesis using assms outside_ok outside_others by (auto simp: all_ok_def list_all_iff)
next
  case (Run k)
  show ?thesis
  proof (cases "k < length (calls st)")
    case True
    obtain s pc where g: "step (shared st) (calls st ! k) = (s, pc)" by fastforce
    have a: "ok (shared st)" "pc_ok (shared st) (calls st ! k)" using assms True by (simp_all add: all_ok_def list_all_length)
    show ?thesis using Run True g step_ok [OF a g] step_others [OF a g] assms
      by (auto simp: all_ok_def list_all_length nth_list_update)
  next
    case False
    then show ?thesis using Run assms by simp
  qed
qed

end

sublocale interleaving \<subseteq> system: event_system "apply_event start step outside" "all_ok ok pc_ok"
  by unfold_locales (rule apply_all_ok)

context interleaving
begin

lemma run_all_ok: "all_ok ok pc_ok st \<Longrightarrow> all_ok ok pc_ok (run_events start step outside evs st)"
  unfolding run_events_def by (rule system.run_inv)

lemma run_pc_ok:
  assumes "all_ok ok pc_ok st" "pc \<in> set (calls (run_events start step outside evs st))"
  shows "pc_ok (shared (run_events start step outside evs st)) pc"
  using run_all_ok [OF assms(1), of evs] assms(2) by (simp add: all_ok_def list_all_iff)

end

subsection \<open>A bound on the operations of a goroutine\<close>

locale wait_free = interleaving start step outside ok pc_ok
  for start :: "'s \<Rightarrow> 'q \<Rightarrow> 'pc" and step :: "'s \<Rightarrow> 'pc \<Rightarrow> 's \<times> 'pc" and outside :: "'e \<Rightarrow> 's \<Rightarrow> 's"
    and ok :: "'s \<Rightarrow> bool" and pc_ok :: "'s \<Rightarrow> 'pc \<Rightarrow> bool" +
  fixes left :: "'pc \<Rightarrow> nat"
  assumes step_left: "ok s \<Longrightarrow> pc_ok s pc \<Longrightarrow> step s pc = (s', pc') \<Longrightarrow> left pc' \<le> left pc - 1"
begin

lemma apply_left:
  assumes "all_ok ok pc_ok st" "k < length (calls st)"
  shows "k < length (calls (apply_event start step outside ev st)) \<and>
    left (calls (apply_event start step outside ev st) ! k) \<le> left (calls st ! k) - (if ev = Run k then 1 else 0)"
proof (cases "\<exists>j. ev = Run j \<and> j < length (calls st)")
  case True
  then obtain j where j: "ev = Run j" "j < length (calls st)" by blast
  obtain s pc where g: "step (shared st) (calls st ! j) = (s, pc)" by fastforce
  have a: "ok (shared st)" "pc_ok (shared st) (calls st ! j)" using assms(1) j by (simp_all add: all_ok_def list_all_length)
  show ?thesis using step_left [OF a g] g j assms(2) by (auto simp: nth_list_update)
next
  case False
  then show ?thesis using assms(2) by (cases ev) (auto simp: nth_append)
qed

lemma run_left:
  "all_ok ok pc_ok st \<Longrightarrow> k < length (calls st) \<Longrightarrow> k < length (calls (run_events start step outside evs st)) \<and>
    left (calls (run_events start step outside evs st) ! k) \<le> left (calls st ! k) - count_list evs (Run k)"
proof (induction evs arbitrary: st)
  case (Cons ev evs)
  note a = apply_left [OF Cons.prems, of ev]
  have "k < length (calls (run_events start step outside evs (apply_event start step outside ev st))) \<and>
      left (calls (run_events start step outside evs (apply_event start step outside ev st)) ! k)
      \<le> left (calls (apply_event start step outside ev st) ! k) - count_list evs (Run k)"
    by (rule Cons.IH [OF apply_all_ok [OF Cons.prems(1)]]) (use a in simp)
  then show ?case using a by (auto split: if_splits)
qed simp

text \<open>A goroutine that has had as many operations as it needs from its start has nothing left to do.\<close>

lemma finished:
  assumes "all_ok ok pc_ok st" "left (start (shared st) q) \<le> count_list evs (Run (length (calls st)))"
  obtains pc where "pc_ok (shared (run_events start step outside (Start q # evs) st)) pc" "left pc = 0"
    "calls (run_events start step outside (Start q # evs) st) ! length (calls st) = pc"
    "length (calls st) < length (calls (run_events start step outside (Start q # evs) st))"
proof -
  let ?st = "apply_event start step outside (Start q) st" and ?k = "length (calls st)"
  let ?fin = "run_events start step outside (Start q # evs) st"
  have ok: "all_ok ok pc_ok ?st" by (rule apply_all_ok [OF assms(1)])
  have "?k < length (calls ?st)" by simp
  from run_left [OF ok this, of evs] have r: "?k < length (calls ?fin)" "left (calls ?fin ! ?k) = 0" using assms(2) by simp_all
  have "pc_ok (shared ?fin) (calls ?fin ! ?k)"
    by (rule run_pc_ok [OF assms(1)]) (use r(1) in simp)
  then show thesis using r that by blast
qed

end

end
