(* ===== verification/Get_Steps.thy ===== *)
theory Get_Steps
  imports Nginx_WRR Interleaving
begin

text \<open>
  Concurrent calls of \<open>Get\<close> of the smooth weighted selector.  The code takes no lock: each query runs
  \<open>Get\<close> in a goroutine of its own, as a sequence of atomic loads and additions on the shared weights.
  Here a call is a program counter with its local variables, an event is the start of a call, one
  atomic operation of a call, or a change of an effective weight by a report or a probe, and a run is
  any list of events.  The theorems hold for every run: no call panics, each returns after a bounded
  number of its own operations, the current weights add up to the same as before whenever no call is
  under way, and a call that is not interrupted is \<open>nginx_Get\<close>.
\<close>

section \<open>Get as atomic operations\<close>

datatype get_pc =
    LoadEffective nat int "nat option"
  | AddCurrent nat int int "nat option"
  | LoadCurrent nat int nat
  | LoadBest nat int int nat
  | Settle int "nat option"
  | GetReturned nat
  | GetPanicked

record get_shared =
  curs :: "int list"
  effs :: "int list"

text \<open>The head of the loop: \<open>n\<close> upstreams, index, total and best index so far.\<close>

definition loop_head :: "nat \<Rightarrow> nat \<Rightarrow> int \<Rightarrow> nat option \<Rightarrow> get_pc" where
  "loop_head n i tot best = (if i < n then LoadEffective i tot best else Settle tot best)"

definition get_step :: "get_shared \<Rightarrow> get_pc \<Rightarrow> get_shared \<times> get_pc" where
  "get_step s pc =
     (let n = length (curs s) in
      case pc of
        LoadEffective i tot best \<Rightarrow> (s, AddCurrent i (effs s ! i) tot best)
      | AddCurrent i e tot best \<Rightarrow>
          (s\<lparr>curs := (curs s)[i := wrap32 (curs s ! i + e)]\<rparr>,
           case best of
             None \<Rightarrow> loop_head n (Suc i) (wrap32 (tot + e)) (Some i)
           | Some b \<Rightarrow> LoadCurrent i (wrap32 (tot + e)) b)
      | LoadCurrent i tot b \<Rightarrow> (s, LoadBest i (curs s ! i) tot b)
      | LoadBest i x tot b \<Rightarrow> (s, loop_head n (Suc i) tot (Some (if x > curs s ! b then i else b)))
      | Settle tot None \<Rightarrow> (s, GetPanicked)
      | Settle tot (Some b) \<Rightarrow> (s\<lparr>curs := (curs s)[b := wrap32 (curs s ! b - tot)]\<rparr>, GetReturned b)
      | GetReturned b \<Rightarrow> (s, GetReturned b)
      | GetPanicked \<Rightarrow> (s, GetPanicked))"

definition get_start :: "get_shared \<Rightarrow> unit \<Rightarrow> get_pc" where
  "get_start s _ = loop_head (length (curs s)) 0 0 None"

text \<open>A report or a probe changes the effective weight of an upstream.\<close>

definition set_effective :: "nat \<times> int \<Rightarrow> get_shared \<Rightarrow> get_shared" where
  "set_effective = (\<lambda>(j, e) s. s\<lparr>effs := (effs s)[j := e]\<rparr>)"

abbreviation "get_run \<equiv> run_events get_start get_step set_effective"

section \<open>Calls stay in range\<close>

fun get_pc_ok :: "nat \<Rightarrow> get_pc \<Rightarrow> bool" where
  "get_pc_ok n (LoadEffective i tot best) \<longleftrightarrow> i < n \<and> (case best of None \<Rightarrow> i = 0 | Some b \<Rightarrow> b < i)"
| "get_pc_ok n (AddCurrent i e tot best) \<longleftrightarrow> i < n \<and> (case best of None \<Rightarrow> i = 0 | Some b \<Rightarrow> b < i)"
| "get_pc_ok n (LoadCurrent i tot b) \<longleftrightarrow> i < n \<and> b < i"
| "get_pc_ok n (LoadBest i x tot b) \<longleftrightarrow> i < n \<and> b < i"
| "get_pc_ok n (Settle tot best) \<longleftrightarrow> (case best of None \<Rightarrow> False | Some b \<Rightarrow> b < n)"
| "get_pc_ok n (GetReturned b) \<longleftrightarrow> b < n"
| "get_pc_ok n GetPanicked \<longleftrightarrow> False"

text \<open>How many operations a call has left.\<close>

fun remaining :: "nat \<Rightarrow> get_pc \<Rightarrow> nat" where
  "remaining n (LoadEffective i tot best) = 4 * (n - i) + 1"
| "remaining n (AddCurrent i e tot best) = 4 * (n - i)"
| "remaining n (LoadCurrent i tot b) = 4 * (n - i) - 1"
| "remaining n (LoadBest i x tot b) = 4 * (n - i) - 2"
| "remaining n (Settle tot best) = 1"
| "remaining n (GetReturned b) = 0"
| "remaining n GetPanicked = 0"

text \<open>What a call has added to the current weights and not yet taken back.\<close>

fun owed :: "get_pc \<Rightarrow> int" where
  "owed (LoadEffective i tot best) = tot"
| "owed (AddCurrent i e tot best) = tot"
| "owed (LoadCurrent i tot b) = tot"
| "owed (LoadBest i x tot b) = tot"
| "owed (Settle tot best) = tot"
| "owed (GetReturned b) = 0"
| "owed GetPanicked = 0"

lemma loop_head_ok: "b < Suc i \<Longrightarrow> Suc i \<le> n \<Longrightarrow> get_pc_ok n (loop_head n (Suc i) tot (Some b))"
  by (auto simp: loop_head_def)

lemma loop_head_owed [simp]: "owed (loop_head n i tot best) = tot"
  by (simp add: loop_head_def)

lemma get_step_length: "get_step s pc = (s', pc') \<Longrightarrow> length (curs s') = length (curs s) \<and> effs s' = effs s"
  by (auto simp: get_step_def Let_def split: get_pc.splits option.splits)

lemma get_step_ok:
  assumes "get_pc_ok (length (curs s)) pc" "get_step s pc = (s', pc')"
  shows "get_pc_ok (length (curs s)) pc'"
  using assms by (cases pc) (auto simp: get_step_def Let_def Suc_le_eq intro!: loop_head_ok split: option.splits)

lemma get_step_remaining:
  assumes "get_pc_ok (length (curs s)) pc" "get_step s pc = (s', pc')"
  shows "remaining (length (curs s)) pc' \<le> remaining (length (curs s)) pc - 1"
  using assms by (cases pc; cases "curs s") (auto simp: get_step_def Let_def loop_head_def split: option.splits)

lemma get_step_owed:
  assumes "get_pc_ok (length (curs s)) pc" "get_step s pc = (s', pc')"
  shows "(sum_list (curs s') - owed pc') mod 4294967296 = (sum_list (curs s) - owed pc) mod 4294967296"
proof -
  have add: "(sum_list ((curs s)[i := wrap32 (curs s ! i + e)]) - wrap32 (tot + e)) mod 4294967296 =
      (sum_list (curs s) - tot) mod 4294967296" if "i < length (curs s)" for i e tot
  proof -
    obtain k1 k2 where "wrap32 (curs s ! i + e) = curs s ! i + e + 4294967296 * k1" "wrap32 (tot + e) = tot + e + 4294967296 * k2"
      using wrap32_ex by meson
    then have "sum_list ((curs s)[i := wrap32 (curs s ! i + e)]) - wrap32 (tot + e) = sum_list (curs s) - tot + 4294967296 * (k1 - k2)"
      using sum_list_update_int [OF that, of "wrap32 (curs s ! i + e)"] by (simp add: algebra_simps)
    then show ?thesis by (simp only: mod_mult_self2)
  qed
  have settle: "sum_list ((curs s)[b := wrap32 (curs s ! b - tot)]) mod 4294967296 = (sum_list (curs s) - tot) mod 4294967296"
    if "b < length (curs s)" for b tot
  proof -
    obtain k where "wrap32 (curs s ! b - tot) = curs s ! b - tot + 4294967296 * k" using wrap32_ex by meson
    then have "sum_list ((curs s)[b := wrap32 (curs s ! b - tot)]) = sum_list (curs s) - tot + 4294967296 * k"
      using sum_list_update_int [OF that, of "wrap32 (curs s ! b - tot)"] by (simp add: algebra_simps)
    then show ?thesis by (simp only: mod_mult_self2)
  qed
  show ?thesis using assms add settle by (cases pc) (auto simp: get_step_def Let_def split: option.splits)
qed

section \<open>Every run\<close>

interpretation gets: wait_free get_start get_step set_effective
  "\<lambda>s. length (curs s) = n \<and> 0 < n" "\<lambda>s. get_pc_ok n" "remaining n" for n
proof unfold_locales
  fix s pc s' pc' assume "length (curs s) = n \<and> 0 < n" "get_pc_ok n pc" "get_step s pc = (s', pc')"
  then show "(length (curs s') = n \<and> 0 < n) \<and> get_pc_ok n pc'" "remaining n pc' \<le> remaining n pc - 1"
    using get_step_length [of s pc s' pc'] get_step_ok [of s pc s' pc'] get_step_remaining [of s pc s' pc'] by auto
qed (auto simp: get_start_def loop_head_def set_effective_def)

definition fresh_gets :: "int list \<Rightarrow> int list \<Rightarrow> (get_shared, get_pc) system" where
  "fresh_gets cs es = \<lparr>shared = \<lparr>curs = cs, effs = es\<rparr>, calls = []\<rparr>"

lemma fresh_gets_ok: "0 < length cs \<Longrightarrow> all_ok (\<lambda>s. length (curs s) = length cs \<and> 0 < length cs) (\<lambda>s. get_pc_ok (length cs)) (fresh_gets cs es)"
  by (simp add: all_ok_def fresh_gets_def)

text \<open>The sum of the current weights, without what the calls under way have added.\<close>

definition settled_sum :: "nat \<Rightarrow> int \<Rightarrow> (get_shared, get_pc) system \<Rightarrow> bool" where
  "settled_sum n S st \<longleftrightarrow> all_ok (\<lambda>s. length (curs s) = n \<and> 0 < n) (\<lambda>s. get_pc_ok n) st
     \<and> (sum_list (curs (shared st)) - sum_list (map owed (calls st))) mod 4294967296 = S mod 4294967296"

lemma settled_sum_Run:
  assumes "settled_sum n S st" "k < length (calls st)" "get_step (shared st) (calls st ! k) = (s, pc)"
  shows "(sum_list (curs s) - sum_list (map owed ((calls st)[k := pc]))) mod 4294967296 = S mod 4294967296"
proof -
  have ok: "get_pc_ok (length (curs (shared st))) (calls st ! k)"
    using assms(1,2) by (auto simp: settled_sum_def all_ok_def list_all_length)
  have m: "(sum_list (curs s) - owed pc - (sum_list (map owed (calls st)) - owed (calls st ! k))) mod 4294967296 =
      (sum_list (curs (shared st)) - owed (calls st ! k) - (sum_list (map owed (calls st)) - owed (calls st ! k))) mod 4294967296"
    by (rule mod_diff_cong [OF get_step_owed [OF ok assms(3)] refl])
  have "sum_list (curs s) - sum_list (map owed ((calls st)[k := pc])) =
      sum_list (curs s) - owed pc - (sum_list (map owed (calls st)) - owed (calls st ! k))"
    using sum_list_update_int [of k "map owed (calls st)" "owed pc"] assms(2) by (simp add: map_update)
  then show ?thesis using assms(1) m by (simp only: settled_sum_def) simp
qed

interpretation sums: event_system "apply_event get_start get_step set_effective" "settled_sum n S" for n S
proof
  fix st :: "(get_shared, get_pc) system" and ev
  assume inv: "settled_sum n S st"
  have "(sum_list (curs (shared (apply_event get_start get_step set_effective ev st)))
      - sum_list (map owed (calls (apply_event get_start get_step set_effective ev st)))) mod 4294967296 = S mod 4294967296"
    using inv settled_sum_Run [OF inv]
    by (cases ev) (auto simp: settled_sum_def get_start_def set_effective_def split: prod.split)
  then show "settled_sum n S (apply_event get_start get_step set_effective ev st)"
    using inv gets.apply_all_ok [of n st ev] by (simp add: settled_sum_def)
qed

lemma fresh_settled: "0 < length cs \<Longrightarrow> settled_sum (length cs) (sum_list cs) (get_run evs (fresh_gets cs es))"
  unfolding run_events_def
  by (rule sums.run_inv) (use fresh_gets_ok [of cs es] in \<open>auto simp: settled_sum_def fresh_gets_def\<close>)

lemma remaining_0: "get_pc_ok n pc \<Longrightarrow> remaining n pc = 0 \<Longrightarrow> \<exists>b < n. pc = GetReturned b"
  by (cases pc) auto

section \<open>A call that is not interrupted\<close>

definition shared_of :: "upstream list \<Rightarrow> get_shared" where
  "shared_of us = \<lparr>curs = map currentWeight us, effs = map effectiveWeight us\<rparr>"

lemma shared_bump:
  "i < length us \<Longrightarrow> (shared_of us)\<lparr>curs := (curs (shared_of us))[i := wrap32 (curs (shared_of us) ! i + effs (shared_of us) ! i)]\<rparr>
    = shared_of (us[i := bump (us ! i)])"
  by (simp add: shared_of_def map_update bump_def list_update_id nth_list_update list_eq_iff_nth_eq)


lemma one_round:
  assumes "i < length us" "case best of None \<Rightarrow> True | Some b \<Rightarrow> b < length us"
  defines "us' \<equiv> us[i := bump (us ! i)]"
  shows "\<exists>m \<le> 4. steps_alone get_step m (shared_of us, loop_head (length us) i tot best) =
    (shared_of us', loop_head (length us) (Suc i) (wrap32 (tot + effectiveWeight (us ! i)))
      (case best of None \<Rightarrow> Some i | Some b \<Rightarrow> if currentWeight (us' ! i) > currentWeight (us' ! b) then Some i else Some b))"
proof -
  have sh: "length (curs (shared_of us)) = length us" "length (curs (shared_of us')) = length us"
      "effs (shared_of us) ! i = effectiveWeight (us ! i)"
    using assms(1) by (simp_all add: shared_of_def us'_def)
  have cur: "curs (shared_of us') ! j = currentWeight (us' ! j)" if "j < length us" for j
    using that by (simp add: shared_of_def us'_def)
  have s1: "get_step (shared_of us) (loop_head (length us) i tot best) = (shared_of us, AddCurrent i (effectiveWeight (us ! i)) tot best)"
    using assms(1) sh(3) by (simp add: loop_head_def get_step_def)
  have s2: "get_step (shared_of us) (AddCurrent i (effectiveWeight (us ! i)) tot best) = (shared_of us', case best of
      None \<Rightarrow> loop_head (length us) (Suc i) (wrap32 (tot + effectiveWeight (us ! i))) (Some i)
    | Some b \<Rightarrow> LoadCurrent i (wrap32 (tot + effectiveWeight (us ! i))) b)"
    using shared_bump [OF assms(1)] sh by (simp add: get_step_def Let_def us'_def)
  show ?thesis
  proof (cases best)
    case None
    then show ?thesis using s1 s2 by (intro exI [of _ 2]) (simp add: numeral_2_eq_2)
  next
    case (Some b)
    then show ?thesis using s1 s2 assms(1,2) cur sh(2)
      by (intro exI [of _ 4]) (simp add: numeral_nat get_step_def Let_def)
  qed
qed

lemma scan_steps:
  assumes "length us = n" "case best of None \<Rightarrow> True | Some b \<Rightarrow> b < n" "i \<le> n" "nginx_scan [i..<n] us tot best = (us', tot', best')"
  shows "\<exists>m \<le> 4 * (n - i). steps_alone get_step m (shared_of us, loop_head n i tot best) = (shared_of us', Settle tot' best') \<and> length us' = n
    \<and> (case best' of None \<Rightarrow> True | Some b \<Rightarrow> b < n)"
  using assms
proof (induction "n - i" arbitrary: i us tot best)
  case 0
  then show ?case by (auto simp: loop_head_def intro!: exI [of _ 0])
next
  case (Suc d)
  then have i: "i < n" and d: "d = n - Suc i" by simp_all
  let ?us = "us[i := bump (us ! i)]" and ?tot = "wrap32 (tot + effectiveWeight (us ! i))"
  let ?best = "case best of None \<Rightarrow> Some i
    | Some b \<Rightarrow> if currentWeight (us[i := bump (us ! i)] ! i) > currentWeight (us[i := bump (us ! i)] ! b) then Some i else Some b"
  have "nginx_scan [Suc i..<n] ?us ?tot ?best = (us', tot', best')"
    using Suc.prems(4) unfolding upt_conv_Cons [OF i] by (simp add: Let_def)
  moreover have "case ?best of None \<Rightarrow> True | Some b \<Rightarrow> b < n" using Suc.prems(2) i by (auto split: option.split)
  moreover have "length ?us = n" "Suc i \<le> n" using Suc.prems(1) i by simp_all
  ultimately obtain m where m: "m \<le> 4 * (n - Suc i)" "steps_alone get_step m (shared_of ?us, loop_head n (Suc i) ?tot ?best) = (shared_of us', Settle tot' best')"
      "length us' = n" "case best' of None \<Rightarrow> True | Some b \<Rightarrow> b < n"
    using Suc.hyps(1) [OF d, of ?us ?best ?tot] by blast
  obtain k where k: "k \<le> 4" "steps_alone get_step k (shared_of us, loop_head n i tot best) = (shared_of ?us, loop_head n (Suc i) ?tot ?best)"
    using one_round [of i us best tot] Suc.prems(1,2) i by auto
  have "steps_alone get_step (k + m) (shared_of us, loop_head n i tot best) = (shared_of us', Settle tot' best')"
    unfolding alone_add k(2) by (fact m(2))
  then show ?case using k(1) m(1,3,4) i by (intro exI [of _ "k + m"]) simp
qed

lemma Get_alone:
  assumes "nginx_Get ws = Inr (ws', b)"
  shows "steps_alone get_step (4 * length (nwUpstreams ws) + 1) (shared_of (nwUpstreams ws), get_start (shared_of (nwUpstreams ws)) ()) =
    (shared_of (nwUpstreams ws'), GetReturned b)"
proof -
  let ?us = "nwUpstreams ws" and ?n = "length (nwUpstreams ws)"
  obtain us tot where sc: "nginx_scan [0..<?n] ?us 0 None = (us, tot, Some b)"
    and ws': "nwUpstreams ws' = us[b := (us ! b)\<lparr>currentWeight := wrap32 (currentWeight (us ! b) - tot)\<rparr>]"
    using assms by (auto simp: nginx_Get_def split: prod.splits option.splits)
  obtain m where m: "m \<le> 4 * ?n" "steps_alone get_step m (shared_of ?us, loop_head ?n 0 0 None) = (shared_of us, Settle tot (Some b))" "length us = ?n"
    and b: "b < length us" using scan_steps [OF refl _ _ sc] by auto
  have s: "get_step (shared_of us) (Settle tot (Some b)) = (shared_of (nwUpstreams ws'), GetReturned b)"
    using b list_update_id [of "map effectiveWeight us" b] by (simp add: get_step_def shared_of_def ws' map_update Let_def)
  have fin: "get_step s (GetReturned b) = (s, GetReturned b)" for s by (simp add: get_step_def)
  have "steps_alone get_step (m + (1 + (4 * ?n - m))) (shared_of ?us, loop_head ?n 0 0 None) = (shared_of (nwUpstreams ws'), GetReturned b)"
    unfolding alone_add m(2) by (simp add: s alone_end [where step = get_step, OF fin])
  then show ?thesis using m(1) by (simp add: get_start_def shared_of_def)
qed

section \<open>Properties\<close>

text \<open>Property C5.  In every interleaving of any number of concurrent calls of \<open>Get\<close>, of reports and of
  probes on a selector with upstreams: no call panics and each that has returned has returned an
  upstream of the selector, and whenever no call is under way the current weights add up to what they
  were at the start (in \<open>int32\<close> arithmetic), so the calls do not make the selector drift.\<close>

theorem concurrent_Get_invariant:
  assumes "0 < length cs" "st = get_run evs (fresh_gets cs es)"
  shows "GetPanicked \<notin> set (calls st) \<and> (\<forall>b. GetReturned b \<in> set (calls st) \<longrightarrow> b < length cs)
    \<and> ((\<forall>pc \<in> set (calls st). \<exists>b. pc = GetReturned b) \<longrightarrow> sum_list (curs (shared st)) mod 4294967296 = sum_list cs mod 4294967296)"
proof -
  have inv: "settled_sum (length cs) (sum_list cs) st" using fresh_settled [OF assms(1)] assms(2) by simp
  then have ok: "pc \<in> set (calls st) \<Longrightarrow> get_pc_ok (length cs) pc" for pc by (simp add: settled_sum_def all_ok_def list_all_iff)
  have "sum_list (map owed pcs) = 0" if "\<forall>pc \<in> set pcs. \<exists>b. pc = GetReturned b" for pcs
    using that by (induction pcs) auto
  then show ?thesis using ok [of GetPanicked] ok [of "GetReturned _"] inv by (auto simp: settled_sum_def)
qed

text \<open>Two calls on two upstreams that overlap: both see the same current weights and choose the same upstream.\<close>

definition overlapping :: "(unit, nat \<times> int) event list" where
  "overlapping = [Start (), Start ()] @ concat (replicate 5 [Run 0, Run 1]) @ [Run 0, Outside (0, 4), Run 1, Run 1, Run 0]"

lemma overlapping_calls: "calls (get_run overlapping (fresh_gets [0, 0] [5, 2])) = [GetReturned 0, GetReturned 0]"
  by code_simp

theorem concurrent_Get_invariant_witness:
  "calls (get_run overlapping (fresh_gets [0, 0] [5, 2])) = [GetReturned 0, GetReturned 0] \<and>
   sum_list (curs (shared (get_run overlapping (fresh_gets [0, 0] [5, 2])))) mod 4294967296 = 0"
  using concurrent_Get_invariant [OF _ refl, of "[0, 0]" overlapping "[5, 2]"] overlapping_calls by simp

text \<open>Property C6.  \<open>Get\<close> is wait-free: a call on a selector with \<open>n\<close> upstreams returns after at most
  \<open>4 n + 1\<close> atomic operations of its own, whatever other calls, reports and probes do in between.\<close>

theorem concurrent_Get_returns:
  assumes "0 < length cs" "st = get_run evs (fresh_gets cs es)"
    "k = length (calls st)" "4 * length cs + 1 \<le> count_list evs' (Run k)"
  shows "\<exists>b < length cs. calls (get_run (Start () # evs') st) ! k = GetReturned b"
proof -
  note ok = gets.run_all_ok [OF fresh_gets_ok [OF assms(1)], of evs es, folded assms(2)]
  have "remaining (length cs) (get_start (shared st) ()) \<le> count_list evs' (Run (length (calls st)))"
    using assms(1,3,4) ok by (simp add: get_start_def loop_head_def all_ok_def)
  then show ?thesis by (rule gets.finished [OF ok]) (use remaining_0 assms(3) in blast)
qed

theorem concurrent_Get_returns_witness:
  "\<exists>b < 2. calls (get_run (Start () # concat (replicate 9 [Run 1, Run 0]))
     (get_run [Start (), Run 0] (fresh_gets [0, 0] [5, 2]))) ! 1 = GetReturned b"
proof -
  have "length (calls (get_run [Start (), Run 0] (fresh_gets [0, 0] [5, 2]))) = 1" by code_simp
  moreover have "count_list (concat (replicate 9 [Run 1, Run 0])) (Run 1 :: (unit, nat \<times> int) event) = 9" by code_simp
  ultimately show ?thesis
    using concurrent_Get_returns [OF _ refl refl, where cs = "[0, 0]" and evs = "[Start (), Run 0]" and es = "[5, 2]"
        and evs' = "concat (replicate 9 [Run 1, Run 0])"]
    by (simp only: list.size numeral_2_eq_2) simp
qed

text \<open>Property C7.  A call that is not interrupted by others is \<open>nginx_Get\<close>, the \<open>Get\<close> of the sequential
  model: it returns the same upstream and leaves the same current weights.\<close>

theorem uninterrupted_Get:
  assumes "nginx_Get ws = Inr (ws', b)"
  shows "get_run (Start () # replicate (4 * length (nwUpstreams ws) + 1) (Run 0)) \<lparr>shared = shared_of (nwUpstreams ws), calls = []\<rparr> =
    \<lparr>shared = shared_of (nwUpstreams ws'), calls = [GetReturned b]\<rparr>"
  using Get_alone [OF assms] run_alone [of 0 "\<lparr>shared = shared_of (nwUpstreams ws), calls = [get_start (shared_of (nwUpstreams ws)) ()]\<rparr>"
      get_start get_step set_effective "4 * length (nwUpstreams ws) + 1"]
  by simp


definition two_upstreams :: NginxWRRSelector where
  "two_upstreams = \<lparr>nwUpstreams = [
     \<lparr>uType = IETF, URL = ''a'', RequestType = ''application/dns-message'', weight = 5, effectiveWeight = 5, currentWeight = 0\<rparr>,
     \<lparr>uType = IETF, URL = ''b'', RequestType = ''application/dns-message'', weight = 2, effectiveWeight = 2, currentWeight = 0\<rparr>],
     nwTimeout = 0\<rparr>"

theorem uninterrupted_Get_witness:
  "\<exists>ws'. nginx_Get two_upstreams = Inr (ws', 0) \<and>
    get_run (Start () # replicate 9 (Run 0)) \<lparr>shared = shared_of (nwUpstreams two_upstreams), calls = []\<rparr> =
    \<lparr>shared = shared_of (nwUpstreams ws'), calls = [GetReturned 0]\<rparr>"
proof -
  have "map_sum id snd (nginx_Get two_upstreams) = Inr 0" by code_simp
  then obtain ws' where g: "nginx_Get two_upstreams = Inr (ws', 0)" by (cases "nginx_Get two_upstreams") auto
  have "length (nwUpstreams two_upstreams) = 2" by (simp add: two_upstreams_def)
  then show ?thesis using uninterrupted_Get [OF g] g by simp
qed

end
