(* ===== verification/LVS_Steps.thy ===== *)
theory LVS_Steps
  imports LVS_WRR Interleaving
begin

text \<open>
  Concurrent calls of \<open>Get\<close> of the LVS selector, and of the updates of effective weights by reports and
  probes.  Like \<open>Get\<close> of the smooth weighted selector it takes no lock: each atomic operation of
  \<open>Get\<close>, \<open>gcdWeight\<close> and \<open>maxWeight\<close> is a step, and so are the addition and the store of an update.  The
  theorems say that in every interleaving a call that returns has returned an upstream and that two
  panics only are possible, that a call which is not interrupted is \<open>lvs_Get\<close>, and that both panics
  do occur: the first queries, if they overlap, can bring the current weight to 0, and a call that
  reads an effective weight between the two operations of an update can divide by zero.
\<close>

section \<open>Get and the updates as atomic operations\<close>

datatype lvs_request = GetUpstream | Lower nat int | Raise nat int

datatype lvs_pc =
    LoadLast
  | StoreLast int
  | TestLast
  | GcdFirst
  | GcdSecond int
  | GcdLoad nat int
  | SubGcd int
  | TestCurrent
  | MaxLoad nat int
  | AddMax int
  | TestZero
  | LoadPosition
  | LoadWeight nat
  | Compare int
  | Choose
  | AddLower nat int
  | AddRaise nat int
  | StoreWeight nat int
  | Updated
  | Returned nat
  | Panicked go_panic
  | Hung

definition lvs_start :: "LVSWRRSelector \<Rightarrow> lvs_request \<Rightarrow> lvs_pc" where
  "lvs_start ls q = (case q of
       GetUpstream \<Rightarrow> if length (lsUpstreams ls) = 1 then Returned 0 else LoadLast
     | Lower j d \<Rightarrow> AddLower j d
     | Raise j d \<Rightarrow> AddRaise j d)"

text \<open>The loop of \<open>gcdWeight\<close> with the next index, after a call of \<open>gcd\<close>; the loop of \<open>maxWeight\<close>.\<close>

definition gcd_next :: "nat \<Rightarrow> nat \<Rightarrow> (go_panic + int) option \<Rightarrow> lvs_pc" where
  "gcd_next n i r = (case r of
       None \<Rightarrow> Hung
     | Some (Inl p) \<Rightarrow> Panicked p
     | Some (Inr g) \<Rightarrow> if i < n then GcdLoad i g else SubGcd g)"

definition max_next :: "nat \<Rightarrow> nat \<Rightarrow> int \<Rightarrow> lvs_pc" where
  "max_next n i res = (if i < n then MaxLoad i res else AddMax res)"

definition set_weight :: "nat \<Rightarrow> int \<Rightarrow> LVSWRRSelector \<Rightarrow> LVSWRRSelector" where
  "set_weight j e ls = ls\<lparr>lsUpstreams := (lsUpstreams ls)[j := (lsUpstreams ls ! j)\<lparr>effectiveWeight := e\<rparr>]\<rparr>"

text \<open>An index into the upstreams: out of range it panics.\<close>

definition index_upstream :: "nat \<Rightarrow> int \<Rightarrow> (nat \<Rightarrow> lvs_pc) \<Rightarrow> lvs_pc" where
  "index_upstream n x k = (if x < 0 \<or> int n \<le> x then Panicked IndexOutOfRange else k (nat x))"

definition lvs_step :: "LVSWRRSelector \<Rightarrow> lvs_pc \<Rightarrow> LVSWRRSelector \<times> lvs_pc" where
  "lvs_step ls pc =
     (let us = lsUpstreams ls; n = length us; n32 = wrap32 (int n) in
      case pc of
        LoadLast \<Rightarrow> (ls, if n32 = 0 then Panicked DivideByZero else StoreLast (lastChoose ls))
      | StoreLast x \<Rightarrow> (ls\<lparr>lastChoose := go_rem (wrap32 (x + 1)) n32\<rparr>, TestLast)
      | TestLast \<Rightarrow> (ls, if lastChoose ls = 0 then GcdFirst else LoadPosition)
      | GcdFirst \<Rightarrow> (ls, if n = 0 then Panicked IndexOutOfRange else GcdSecond (effectiveWeight (us ! 0)))
      | GcdSecond x \<Rightarrow> (ls, gcd_next n 1 (lvs_gcd x (effectiveWeight (us ! 0))))
      | GcdLoad i res \<Rightarrow> (ls, gcd_next n (Suc i) (lvs_gcd res (effectiveWeight (us ! i))))
      | SubGcd g \<Rightarrow> (ls\<lparr>lsCurrentWeight := wrap32 (lsCurrentWeight ls - g)\<rparr>, TestCurrent)
      | TestCurrent \<Rightarrow> (ls, if lsCurrentWeight ls \<le> 0 then max_next n 0 0 else LoadPosition)
      | MaxLoad i res \<Rightarrow>
          (ls, max_next n (Suc i) (if effectiveWeight (us ! i) > res then effectiveWeight (us ! i) else res))
      | AddMax m \<Rightarrow> (ls\<lparr>lsCurrentWeight := wrap32 (lsCurrentWeight ls + m)\<rparr>, TestZero)
      | TestZero \<Rightarrow>
          (ls, if lsCurrentWeight ls = 0 then Panicked (ExplicitPanic ''current weight is 0'') else LoadPosition)
      | LoadPosition \<Rightarrow> (ls, index_upstream n (lastChoose ls) LoadWeight)
      | LoadWeight i \<Rightarrow> (ls, Compare (effectiveWeight (us ! i)))
      | Compare e \<Rightarrow> (ls, if e \<ge> lsCurrentWeight ls then Choose else LoadLast)
      | Choose \<Rightarrow> (ls, index_upstream n (lastChoose ls) Returned)
      | AddLower j d \<Rightarrow>
          (let e = wrap32 (effectiveWeight (us ! j) - d) in (set_weight j e ls, if e < 1 then StoreWeight j 1 else Updated))
      | AddRaise j d \<Rightarrow>
          (let e = wrap32 (effectiveWeight (us ! j) + d)
           in (set_weight j e ls, if e > weight (us ! j) then StoreWeight j (weight (us ! j)) else Updated))
      | StoreWeight j e \<Rightarrow> (set_weight j e ls, Updated)
      | Updated \<Rightarrow> (ls, Updated)
      | Returned i \<Rightarrow> (ls, Returned i)
      | Panicked p \<Rightarrow> (ls, Panicked p)
      | Hung \<Rightarrow> (ls, Hung))"

abbreviation "lvs_run \<equiv> run_events lvs_start lvs_step no_outside"

section \<open>Every interleaving\<close>

definition in_range :: "nat \<Rightarrow> LVSWRRSelector \<Rightarrow> bool" where
  "in_range n ls \<longleftrightarrow> length (lsUpstreams ls) = n \<and> n < 2147483648 \<and> -1 \<le> lastChoose ls \<and> lastChoose ls < int n"

text \<open>The panics that are possible: those of \<open>gcd\<close> and of the test for 0.\<close>

definition lvs_panics :: "go_panic set" where
  "lvs_panics = {DivideByZero, ExplicitPanic ''current weight is 0''}"

fun lvs_pc_ok :: "nat \<Rightarrow> LVSWRRSelector \<Rightarrow> lvs_pc \<Rightarrow> bool" where
  "lvs_pc_ok n ls (StoreLast x) \<longleftrightarrow> -1 \<le> x \<and> x < int n \<and> 0 < n"
| "lvs_pc_ok n ls (Returned i) \<longleftrightarrow> i < n"
| "lvs_pc_ok n ls (Panicked p) \<longleftrightarrow> p \<in> lvs_panics"
| "lvs_pc_ok n ls LoadLast \<longleftrightarrow> True"
| "lvs_pc_ok n ls (AddLower j d) \<longleftrightarrow> True"
| "lvs_pc_ok n ls (AddRaise j d) \<longleftrightarrow> True"
| "lvs_pc_ok n ls (StoreWeight j e) \<longleftrightarrow> True"
| "lvs_pc_ok n ls Updated \<longleftrightarrow> True"
| "lvs_pc_ok n ls Hung \<longleftrightarrow> True"
| "lvs_pc_ok n ls pc \<longleftrightarrow> 0 \<le> lastChoose ls"

lemma lvs_gcd_panics: "lvs_gcd x y = Some (Inl p) \<Longrightarrow> p = DivideByZero"
proof -
  have "r = Inl p \<longrightarrow> p = DivideByZero" if "lvs_gcd x y = Some r" for r
  proof (rule lvs_gcd.raw_induct [where P = "\<lambda>x y r. r = Inl p \<longrightarrow> p = DivideByZero" and xa = "(x, y)" and ya = r, simplified])
    fix f :: "int \<Rightarrow> int \<Rightarrow> (go_panic + int) option" and x y r
    assume "\<And>x y r. f x y = Some r \<Longrightarrow> r = Inl p \<longrightarrow> p = DivideByZero"
      and "(let a = (if x < y then y else x); b = (if x < y then x else y)
        in if b = 0 then Some (Inl DivideByZero) else if go_rem a b = 0 then Some (Inr b)
           else f (go_rem a b) b) = Some r"
    then show "r = Inl p \<longrightarrow> p = DivideByZero" by (auto simp: Let_def split: if_splits)
  qed (rule that)
  then show "lvs_gcd x y = Some (Inl p) \<Longrightarrow> p = DivideByZero" by blast
qed

lemma gcd_next_ok: "0 \<le> lastChoose ls \<Longrightarrow> lvs_pc_ok n ls (gcd_next n i (lvs_gcd x y))"
  using lvs_gcd_panics [of x y] by (auto simp: gcd_next_def lvs_panics_def split: option.split sum.split)

lemma max_next_ok: "0 \<le> lastChoose ls \<Longrightarrow> lvs_pc_ok n ls (max_next n i res)"
  by (simp add: max_next_def)

lemma set_weight_simps [simp]:
  "lastChoose (set_weight j e ls) = lastChoose ls" "lsCurrentWeight (set_weight j e ls) = lsCurrentWeight ls"
  "length (lsUpstreams (set_weight j e ls)) = length (lsUpstreams ls)"
  by (simp_all add: set_weight_def)

lemma next_position:
  assumes "-1 \<le> x" "x < int n" "0 < n" "n < 2147483648"
  shows "0 \<le> go_rem (wrap32 (x + 1)) (wrap32 (int n))" "go_rem (wrap32 (x + 1)) (wrap32 (int n)) < int n"
proof -
  have "wrap32 (x + 1) = x + 1" "wrap32 (int n) = int n" using assms by (auto intro!: wrap32_id simp: in32_def)
  then show "0 \<le> go_rem (wrap32 (x + 1)) (wrap32 (int n))" "go_rem (wrap32 (x + 1)) (wrap32 (int n)) < int n"
    using assms by simp_all
qed

lemma lvs_step_ok:
  assumes "in_range n ls" "lvs_pc_ok n ls pc" "lvs_step ls pc = (ls', pc')"
  shows "in_range n ls' \<and> lvs_pc_ok n ls' pc' \<and> (0 \<le> lastChoose ls \<longrightarrow> 0 \<le> lastChoose ls')"
proof -
  have n: "length (lsUpstreams ls) = n" "wrap32 (int n) = int n"
    using assms(1) by (auto simp: in_range_def intro!: wrap32_id simp: in32_def)
  show ?thesis
  proof (cases pc)
    case (StoreLast x)
    then show ?thesis using assms n next_position [of x n] by (auto simp: lvs_step_def Let_def in_range_def)
  qed (use assms n in \<open>auto simp: lvs_step_def Let_def in_range_def index_upstream_def lvs_panics_def
    intro: gcd_next_ok max_next_ok split: if_splits\<close>)
qed

lemma lvs_pc_ok_mono: "lvs_pc_ok n ls pc \<Longrightarrow> (0 \<le> lastChoose ls \<longrightarrow> 0 \<le> lastChoose ls') \<Longrightarrow> lvs_pc_ok n ls' pc"
  by (cases pc) auto

interpretation lvs_calls: interleaving lvs_start lvs_step no_outside "in_range n" "lvs_pc_ok n" for n
proof
  fix ls ls' pc pc' other q
  assume ok: "in_range n ls"
  show "lvs_pc_ok n ls (lvs_start ls q)" using ok by (auto simp: lvs_start_def in_range_def split: lvs_request.split)
  assume "lvs_pc_ok n ls pc" "lvs_step ls pc = (ls', pc')"
  from lvs_step_ok [OF ok this] show "in_range n ls' \<and> lvs_pc_ok n ls' pc'"
    and "lvs_pc_ok n ls other \<Longrightarrow> lvs_pc_ok n ls' other" using lvs_pc_ok_mono by blast+
qed (simp_all add: no_outside_def)


section \<open>A call that is not interrupted\<close>

definition after_gcd :: "(go_panic + int) option \<Rightarrow> lvs_pc" where
  "after_gcd r = (case r of None \<Rightarrow> Hung | Some (Inl p) \<Rightarrow> Panicked p | Some (Inr g) \<Rightarrow> SubGcd g)"

lemma gcd_next_stop [simp]:
  "gcd_next n i None = Hung" "gcd_next n i (Some (Inl p)) = Panicked p"
  "after_gcd None = Hung" "after_gcd (Some (Inl p)) = Panicked p" "after_gcd (Some (Inr g)) = SubGcd g"
  by (simp_all add: gcd_next_def after_gcd_def)

lemma gcd_loads:
  "i \<le> length (lsUpstreams ls) \<Longrightarrow> reaches lvs_step (ls, gcd_next (length (lsUpstreams ls)) i (Some (Inr res)))
     (ls, after_gcd (gcdWeight_loop res (drop i (lsUpstreams ls))))"
proof (induction "length (lsUpstreams ls) - i" arbitrary: i res)
  case 0
  then show ?case by (simp add: gcd_next_def after_gcd_def)
next
  case (Suc d)
  let ?n = "length (lsUpstreams ls)" and ?r = "lvs_gcd res (effectiveWeight (lsUpstreams ls ! i))"
  have i: "i < ?n" and d: "d = ?n - Suc i" using Suc.hyps(2) by simp_all
  have rest: "drop i (lsUpstreams ls) = lsUpstreams ls ! i # drop (Suc i) (lsUpstreams ls)" using i by (simp add: Cons_nth_drop_Suc)
  have "reaches lvs_step (ls, gcd_next ?n (Suc i) ?r) (ls, after_gcd (gcdWeight_loop res (drop i (lsUpstreams ls))))"
    using Suc.hyps(1) [OF d] i by (auto simp: rest split: option.split sum.split)
  then show ?case using i by (auto intro: reaches_step simp: gcd_next_def [of ?n i] lvs_step_def Let_def)
qed

lemma gcd_steps:
  assumes "lsUpstreams ls \<noteq> []"
  shows "reaches lvs_step (ls, GcdFirst) (ls, after_gcd (gcdWeight (lsUpstreams ls)))"
proof -
  obtain u us where us: "lsUpstreams ls = u # us" using assms by (cases "lsUpstreams ls") auto
  have "reaches lvs_step (ls, gcd_next (length (lsUpstreams ls)) 1 (lvs_gcd (effectiveWeight u) (effectiveWeight u)))
      (ls, after_gcd (gcdWeight (lsUpstreams ls)))"
    using gcd_loads [of 1 ls] us by (auto simp: gcdWeight_def split: option.split sum.split)
  then have "reaches lvs_step (ls, GcdSecond (effectiveWeight u)) (ls, after_gcd (gcdWeight (lsUpstreams ls)))"
    by (auto intro: reaches_step simp: lvs_step_def us)
  then show ?thesis by (auto intro: reaches_step simp: lvs_step_def us)
qed

lemma max_steps:
  "i \<le> length (lsUpstreams ls) \<Longrightarrow> reaches lvs_step (ls, max_next (length (lsUpstreams ls)) i res)
     (ls, AddMax (maxWeight_loop res (drop i (lsUpstreams ls))))"
proof (induction "length (lsUpstreams ls) - i" arbitrary: i res)
  case 0
  then show ?case by (simp add: max_next_def)
next
  case (Suc d)
  let ?n = "length (lsUpstreams ls)" and ?e = "effectiveWeight (lsUpstreams ls ! i)"
  have i: "i < ?n" and d: "d = ?n - Suc i" using Suc.hyps(2) by simp_all
  have rest: "drop i (lsUpstreams ls) = lsUpstreams ls ! i # drop (Suc i) (lsUpstreams ls)" using i by (simp add: Cons_nth_drop_Suc)
  have "reaches lvs_step (ls, max_next ?n (Suc i) (if ?e > res then ?e else res))
      (ls, AddMax (maxWeight_loop res (drop i (lsUpstreams ls))))"
    using Suc.hyps(1) [OF d, of "if ?e > res then ?e else res"] i by (simp add: rest)
  then show ?case using i by (auto intro!: reaches_step simp: max_next_def [of ?n i] lvs_step_def Let_def)
qed

text \<open>What a call does after it has subtracted the divisor.\<close>

lemma refill_steps:
  assumes "lsCurrentWeight ls \<le> 0"
  defines "ls' \<equiv> ls\<lparr>lsCurrentWeight := wrap32 (lsCurrentWeight ls + maxWeight (lsUpstreams ls))\<rparr>"
  shows "reaches lvs_step (ls, TestCurrent)
    (ls', if lsCurrentWeight ls' = 0 then Panicked (ExplicitPanic ''current weight is 0'') else LoadPosition)"
proof -
  let ?fin = "(ls', if lsCurrentWeight ls' = 0 then Panicked (ExplicitPanic ''current weight is 0'') else LoadPosition)"
  have "reaches lvs_step (ls', TestZero) ?fin" by (rule reaches_step) (simp add: lvs_step_def Let_def)
  then have "reaches lvs_step (ls, AddMax (maxWeight (lsUpstreams ls))) ?fin"
    by (intro reaches_step) (simp add: lvs_step_def Let_def ls'_def)
  then have "reaches lvs_step (ls, max_next (length (lsUpstreams ls)) 0 0) ?fin"
    using max_steps [of 0 ls 0] reaches_trans by (fastforce simp: maxWeight_def)
  then show ?thesis using assms(1) by (intro reaches_step) (simp add: lvs_step_def Let_def)
qed

text \<open>From the store of the next position to the subtraction, when the position is the first.\<close>

lemma new_lap_steps:
  assumes "lsUpstreams ls \<noteq> []" "gcdWeight (lsUpstreams ls) = Some (Inr g)"
    "go_rem (wrap32 (x + 1)) (wrap32 (int (length (lsUpstreams ls)))) = 0"
  shows "reaches lvs_step (ls, StoreLast x)
    (ls\<lparr>lastChoose := 0, lsCurrentWeight := wrap32 (lsCurrentWeight ls - g)\<rparr>, TestCurrent)"
proof -
  let ?ls = "ls\<lparr>lastChoose := 0\<rparr>"
  let ?fin = "(ls\<lparr>lastChoose := 0, lsCurrentWeight := wrap32 (lsCurrentWeight ls - g)\<rparr>, TestCurrent)"
  have "reaches lvs_step (?ls, SubGcd g) ?fin"
    by (rule reaches_step) (simp add: lvs_step_def Let_def)
  then have "reaches lvs_step (?ls, GcdFirst) ?fin"
    using gcd_steps [of ?ls] assms(1,2) reaches_trans by fastforce
  then have "reaches lvs_step (?ls, TestLast) ?fin" by (intro reaches_step) (simp add: lvs_step_def Let_def)
  then show ?thesis using assms(3) by (intro reaches_step) (simp add: lvs_step_def Let_def)
qed


text \<open>Where a call ends that runs alone: at the value of the sequential function, or at its panic.\<close>

definition ends_with :: "LVSWRRSelector \<times> lvs_pc \<Rightarrow> ('a \<Rightarrow> LVSWRRSelector \<times> lvs_pc) \<Rightarrow> go_panic + 'a \<Rightarrow> bool" where
  "ends_with x k r = (case r of Inl p \<Rightarrow> \<exists>ls'. reaches lvs_step x (ls', Panicked p) | Inr y \<Rightarrow> reaches lvs_step x (k y))"

lemma ends_with_simps [simp]:
  "ends_with x k (Inl p) \<longleftrightarrow> (\<exists>ls'. reaches lvs_step x (ls', Panicked p))"
  "ends_with x k (Inr y) \<longleftrightarrow> reaches lvs_step x (k y)"
  by (simp_all add: ends_with_def)

lemma ends_with_trans: "reaches lvs_step x y \<Longrightarrow> ends_with y k r \<Longrightarrow> ends_with x k r"
  by (cases r) (auto intro: reaches_trans)

lemma lap_steps:
  assumes adv: "lvs_advance ls = Some r" and n: "wrap32 (int (length (lsUpstreams ls))) \<noteq> 0"
    and x: "go_rem (wrap32 (lastChoose ls + 1)) (wrap32 (int (length (lsUpstreams ls)))) = 0"
  shows "ends_with (ls, StoreLast (lastChoose ls)) (\<lambda>ls'. (ls', LoadPosition)) r"
proof -
  have ne: "lsUpstreams ls \<noteq> []" using n by (auto simp: wrap32_def)
  consider (panic) p where "gcdWeight (lsUpstreams ls) = Some (Inl p)" | (divisor) g where "gcdWeight (lsUpstreams ls) = Some (Inr g)"
    using adv n x by (cases "gcdWeight (lsUpstreams ls)") (auto simp: lvs_advance_def Let_def split: sum.splits)
  then show ?thesis
  proof cases
    case panic
    then have "reaches lvs_step (ls\<lparr>lastChoose := 0\<rparr>, GcdFirst) (ls\<lparr>lastChoose := 0\<rparr>, Panicked p)"
      using gcd_steps [of "ls\<lparr>lastChoose := 0\<rparr>"] ne by simp
    then have "reaches lvs_step (ls\<lparr>lastChoose := 0\<rparr>, TestLast) (ls\<lparr>lastChoose := 0\<rparr>, Panicked p)"
      by (intro reaches_step) (simp add: lvs_step_def Let_def)
    then have "reaches lvs_step (ls, StoreLast (lastChoose ls)) (ls\<lparr>lastChoose := 0\<rparr>, Panicked p)"
      by (intro reaches_step) (simp add: lvs_step_def Let_def x)
    then show ?thesis using adv n x panic by (auto simp: lvs_advance_def)
  next
    case divisor
    let ?ls1 = "ls\<lparr>lastChoose := 0, lsCurrentWeight := wrap32 (lsCurrentWeight ls - g)\<rparr>"
    have "ends_with (?ls1, TestCurrent) (\<lambda>ls'. (ls', LoadPosition)) r"
    proof (cases "lsCurrentWeight ?ls1 \<le> 0")
      case True
      then show ?thesis using adv n x divisor refill_steps [of ?ls1] by (auto simp: lvs_advance_def Let_def split: if_splits)
    next
      case False
      then have "reaches lvs_step (?ls1, TestCurrent) (?ls1, LoadPosition)" by (intro reaches_step) (simp add: lvs_step_def)
      then show ?thesis using adv n x divisor False by (auto simp: lvs_advance_def Let_def)
    qed
    then show ?thesis by (rule ends_with_trans [OF new_lap_steps [OF ne divisor x]])
  qed
qed

lemma advance_steps:
  assumes "lvs_advance ls = Some r"
  shows "ends_with (ls, LoadLast) (\<lambda>ls'. (ls', LoadPosition)) r"
proof -
  let ?n32 = "wrap32 (int (length (lsUpstreams ls)))"
  let ?x = "go_rem (wrap32 (lastChoose ls + 1)) ?n32"
  let ?ls = "ls\<lparr>lastChoose := ?x\<rparr>"
  have load: "reaches lvs_step (ls, LoadLast) (ls, StoreLast (lastChoose ls))" if "?n32 \<noteq> 0"
    using that by (intro reaches_step) (simp add: lvs_step_def)
  consider (none) "?n32 = 0" | (lap) "?n32 \<noteq> 0" "?x = 0" | (inner) "?n32 \<noteq> 0" "?x \<noteq> 0" by blast
  then show ?thesis
  proof cases
    case none
    then have "reaches lvs_step (ls, LoadLast) (ls, Panicked DivideByZero)" by (intro reaches_step) (simp add: lvs_step_def)
    then show ?thesis using assms none by (auto simp: lvs_advance_def)
  next
    case lap
    then show ?thesis using ends_with_trans [OF load lap_steps [OF assms]] by simp
  next
    case inner
    then have "reaches lvs_step (?ls, TestLast) (?ls, LoadPosition)" by (intro reaches_step) (simp add: lvs_step_def)
    then have "reaches lvs_step (ls, StoreLast (lastChoose ls)) (?ls, LoadPosition)"
      by (intro reaches_step) (simp add: lvs_step_def Let_def)
    then show ?thesis using reaches_trans [OF load] assms inner by (auto simp: lvs_advance_def)
  qed
qed

lemma pick_steps:
  assumes "0 \<le> lastChoose ls" "lastChoose ls < int (length (lsUpstreams ls))"
  shows "reaches lvs_step (ls, LoadPosition)
    (ls, if effectiveWeight (lsUpstreams ls ! nat (lastChoose ls)) \<ge> lsCurrentWeight ls then Returned (nat (lastChoose ls)) else LoadLast)"
proof -
  let ?e = "effectiveWeight (lsUpstreams ls ! nat (lastChoose ls))"
  have "reaches lvs_step (ls, Choose) (ls, Returned (nat (lastChoose ls)))"
    using assms by (intro reaches_step) (simp add: lvs_step_def index_upstream_def)
  then have "reaches lvs_step (ls, Compare ?e) (ls, if ?e \<ge> lsCurrentWeight ls then Returned (nat (lastChoose ls)) else LoadLast)"
    by (intro reaches_step) (simp add: lvs_step_def)
  then have "reaches lvs_step (ls, LoadWeight (nat (lastChoose ls)))
      (ls, if ?e \<ge> lsCurrentWeight ls then Returned (nat (lastChoose ls)) else LoadLast)"
    by (intro reaches_step) (simp add: lvs_step_def)
  then show ?thesis using assms by (intro reaches_step) (simp add: lvs_step_def index_upstream_def)
qed

lemma loop_steps: "lvs_loop ls = Some r \<Longrightarrow> ends_with (ls, LoadLast) (\<lambda>(ls', i). (ls', Returned i)) r"
proof (erule lvs_loop.raw_induct [where P = "\<lambda>ls r. ends_with (ls, LoadLast) (\<lambda>(ls', i). (ls', Returned i)) r", rotated], goal_cases)
  case (1 loop ls r)
  then obtain a where a: "lvs_advance ls = Some a" by (cases "lvs_advance ls") auto
  show ?case
  proof (cases a)
    case (Inl p)
    then show ?thesis using 1(2) a advance_steps [OF a] by auto
  next
    case (Inr ls1)
    have to: "reaches lvs_step (ls, LoadLast) (ls1, LoadPosition)" using advance_steps [OF a] Inr by simp
    show ?thesis
    proof (cases "lastChoose ls1 < 0 \<or> int (length (lsUpstreams ls1)) \<le> lastChoose ls1")
      case True
      then have "reaches lvs_step (ls1, LoadPosition) (ls1, Panicked IndexOutOfRange)"
        by (intro reaches_step) (auto simp: lvs_step_def index_upstream_def)
      then show ?thesis using 1(2) a Inr True to reaches_trans by fastforce
    next
      case False
      then have pick: "reaches lvs_step (ls, LoadLast) (ls1,
          if effectiveWeight (lsUpstreams ls1 ! nat (lastChoose ls1)) \<ge> lsCurrentWeight ls1 then Returned (nat (lastChoose ls1)) else LoadLast)"
        using reaches_trans [OF to pick_steps] by simp
      show ?thesis
      proof (cases "effectiveWeight (lsUpstreams ls1 ! nat (lastChoose ls1)) \<ge> lsCurrentWeight ls1")
        case True
        then show ?thesis using 1(2) a Inr False pick by auto
      next
        case again: False
        then have "loop ls1 = Some r" using 1(2) a Inr False by auto
        from ends_with_trans [OF _ 1(1) [OF this]] show ?thesis using pick again by simp
      qed
    qed
  qed
qed


lemma Get_steps:
  assumes "lvs_Get ls = Some r"
  shows "ends_with (ls, lvs_start ls GetUpstream) (\<lambda>(ls', i). (ls', Returned i)) r"
  using assms loop_steps [of ls r] by (auto simp: lvs_Get_def lvs_start_def split: if_splits)

section \<open>First calls that overlap\<close>

text \<open>\<open>k\<close> calls that have all loaded the position before any of them stores the next one.\<close>

definition loaded :: "nat \<Rightarrow> (lvs_request, unit) event list" where
  "loaded k = concat (map (\<lambda>i. [Start GetUpstream, Run i]) [0..<k])"

lemma loaded_run:
  assumes "2 \<le> length (lsUpstreams ls)" "length (lsUpstreams ls) < 2147483648" "lastChoose ls = -1"
  shows "lvs_run (loaded k) \<lparr>shared = ls, calls = []\<rparr> = \<lparr>shared = ls, calls = replicate k (StoreLast (-1))\<rparr>"
proof (induction k)
  case (Suc k)
  have "wrap32 (int (length (lsUpstreams ls))) \<noteq> 0" using assms by (auto simp: wrap32_length)
  then show ?case using Suc assms
    by (simp add: loaded_def lvs_start_def lvs_step_def nth_append list_update_append replicate_append_same)
qed (simp add: loaded_def)

lemma subtracted:
  assumes ok: "weights_ok (lsUpstreams ls)" and n: "length (lsUpstreams ls) < 2147483648"
    and k: "int k * gcd_eff (lsUpstreams ls) = maxWeight (lsUpstreams ls)" and "lastChoose ls = -1" "lsCurrentWeight ls = 0"
  shows "i \<le> k \<Longrightarrow> \<exists>evs x. set evs \<subseteq> range Run \<and> lvs_run evs \<lparr>shared = ls, calls = replicate k (StoreLast (-1))\<rparr> =
     \<lparr>shared = ls\<lparr>lastChoose := x, lsCurrentWeight := - (int i * gcd_eff (lsUpstreams ls))\<rparr>,
      calls = replicate i TestCurrent @ replicate (k - i) (StoreLast (-1))\<rparr>"
proof (induction i)
  case 0
  have "ls\<lparr>lastChoose := -1, lsCurrentWeight := 0\<rparr> = ls" using assms by simp
  then show ?case by (intro exI [of _ "[]"] exI [of _ "-1"]) simp
next
  case (Suc i)
  let ?g = "gcd_eff (lsUpstreams ls)"
  obtain evs x where evs: "set evs \<subseteq> range Run" "lvs_run evs \<lparr>shared = ls, calls = replicate k (StoreLast (-1))\<rparr> =
     \<lparr>shared = ls\<lparr>lastChoose := x, lsCurrentWeight := - (int i * ?g)\<rparr>, calls = replicate i TestCurrent @ replicate (k - i) (StoreLast (-1))\<rparr>"
    using Suc by auto
  let ?ls = "ls\<lparr>lastChoose := x, lsCurrentWeight := - (int i * ?g)\<rparr>"
  let ?st = "\<lparr>shared = ?ls, calls = replicate i TestCurrent @ replicate (k - i) (StoreLast (-1))\<rparr>"
  let ?ls' = "ls\<lparr>lastChoose := 0, lsCurrentWeight := - (int (Suc i) * ?g)\<rparr>"
  have rep: "replicate (k - i) (StoreLast (-1)) = StoreLast (-1) # replicate (k - Suc i) (StoreLast (-1))"
    using Suc.prems by (simp add: Suc_diff_Suc flip: replicate_Suc)
  have ne: "lsUpstreams ?ls \<noteq> []" using ok by (simp add: weights_ok_def)
  have "int (Suc i) * ?g \<le> int k * ?g" using Suc.prems gcd_eff_le_max [OF ok] by (intro mult_right_mono) auto
  moreover have "0 \<le> int (Suc i) * ?g" using gcd_eff_le_max [OF ok] by simp
  ultimately have w: "wrap32 (- (int (Suc i) * ?g)) = - (int (Suc i) * ?g)"
    using maxWeight_facts(3) [OF ok] k by (intro wrap32_id) (simp add: in32_def)
  have "reaches lvs_step (?ls, StoreLast (-1)) (?ls\<lparr>lastChoose := 0, lsCurrentWeight := wrap32 (lsCurrentWeight ?ls - ?g)\<rparr>, TestCurrent)"
    using ne gcdWeight_eq [OF ok] by (intro new_lap_steps) (simp_all add: wrap32_def go_rem_def)
  moreover have "lsCurrentWeight ?ls - ?g = - (int (Suc i) * ?g)" by (simp add: algebra_simps)
  ultimately have "reaches lvs_step (shared ?st, calls ?st ! i) (?ls', TestCurrent)" using w by (simp add: rep nth_append)
  then obtain m where "lvs_run (replicate m (Run i)) ?st = ?st\<lparr>shared := ?ls', calls := (calls ?st)[i := TestCurrent]\<rparr>"
    using reaches_run [where start = lvs_start and outside = no_outside, of lvs_step ?st i ?ls' TestCurrent] Suc.prems by auto
  then have "lvs_run (evs @ replicate m (Run i)) \<lparr>shared = ls, calls = replicate k (StoreLast (-1))\<rparr> =
     \<lparr>shared = ?ls', calls = replicate (Suc i) TestCurrent @ replicate (k - Suc i) (StoreLast (-1))\<rparr>"
    using evs(2) by (simp add: rep list_update_append replicate_append_same)
  then show ?case using evs(1) by (intro exI [of _ "evs @ replicate m (Run i)"] exI [of _ 0]) auto
qed


section \<open>A weight read between the two operations of an update\<close>

lemma lvs_gcd_zero: "0 \<le> x \<Longrightarrow> lvs_gcd x 0 = Some (Inl DivideByZero)"
  by (subst lvs_gcd.simps) simp

lemma gcdWeight_loop_zero:
  "0 < g \<Longrightarrow> \<forall>u \<in> set us. 0 \<le> effectiveWeight u \<Longrightarrow> \<exists>u \<in> set us. effectiveWeight u = 0 \<Longrightarrow>
   gcdWeight_loop g us = Some (Inl DivideByZero)"
proof (induction us arbitrary: g)
  case (Cons u us)
  then show ?case using lvs_gcd_zero [of g] lvs_gcd_pos [of g "effectiveWeight u"] Cons.IH [of "gcd g (effectiveWeight u)"]
    by (cases "effectiveWeight u = 0") auto
qed simp

lemma gcdWeight_zero:
  assumes "\<forall>u \<in> set us. 0 \<le> effectiveWeight u" "\<exists>u \<in> set us. effectiveWeight u = 0"
  shows "gcdWeight us = Some (Inl DivideByZero)"
proof (cases us)
  case (Cons u us')
  then show ?thesis using assms lvs_gcd_zero [of 0] lvs_gcd_pos [of "effectiveWeight u" "effectiveWeight u"]
      gcdWeight_loop_zero [of "effectiveWeight u" us']
    by (cases "effectiveWeight u = 0") (auto simp: gcdWeight_def)
qed (use assms in simp)

lemma weight_zero_set:
  assumes "weights_ok us" "j < length us" "u \<in> set (us[j := (us ! j)\<lparr>effectiveWeight := 0\<rparr>])"
  shows "0 \<le> effectiveWeight u"
  using assms set_update_subset_insert [of us j] by (fastforce simp: weights_ok_def weight_ok_def)

lemma advance_zero:
  assumes "weights_ok (lsUpstreams ls)" "length (lsUpstreams ls) < 2147483648" "at_end ls" "j < length (lsUpstreams ls)"
  shows "lvs_advance (set_weight j 0 ls) = Some (Inl DivideByZero)"
proof -
  let ?us = "lsUpstreams (set_weight j 0 ls)"
  have "(lsUpstreams ls ! j)\<lparr>effectiveWeight := 0\<rparr> \<in> set ?us" using assms(4) by (simp add: set_weight_def set_update_memI)
  then have "\<exists>u \<in> set ?us. effectiveWeight u = 0" by force
  then have "gcdWeight ?us = Some (Inl DivideByZero)"
    using weight_zero_set [OF assms(1,4)] by (intro gcdWeight_zero) (auto simp: set_weight_def)
  moreover have "wrap32 (lastChoose ls + 1) = lastChoose ls + 1"
    using assms(2,3) by (intro wrap32_id) (auto simp: at_end_def in32_def)
  ultimately show ?thesis using assms by (auto simp: lvs_advance_def Let_def at_end_def wrap32_length go_rem_def)
qed

section \<open>Properties\<close>

text \<open>Property C8.  In every interleaving of calls of \<open>Get\<close>, reports and probes on the LVS selector: every
  call that returns has returned one of the upstreams, and a call panics only with a division by zero
  (in \<open>gcd\<close>) or with "current weight is 0"; no index is ever out of range.\<close>

theorem concurrent_lvs_Get:
  assumes "in_range n ls" "0 < n" "st = lvs_run evs \<lparr>shared = ls, calls = []\<rparr>"
  shows "(\<forall>i. Returned i \<in> set (calls st) \<longrightarrow> i < n)
    \<and> (\<forall>p. Panicked p \<in> set (calls st) \<longrightarrow> p = DivideByZero \<or> p = ExplicitPanic ''current weight is 0'')
    \<and> -1 \<le> lastChoose (shared st) \<and> lastChoose (shared st) < int n"
proof -
  have "all_ok (in_range n) (lvs_pc_ok n) \<lparr>shared = ls, calls = []\<rparr>" using assms(1) by (simp add: all_ok_def)
  from lvs_calls.run_all_ok [OF this, of evs] have "in_range n (shared st)" "pc \<in> set (calls st) \<Longrightarrow> lvs_pc_ok n (shared st) pc" for pc
    by (simp_all add: all_ok_def list_all_iff assms(3))
  from this(1) this(2) [of "Returned _"] this(2) [of "Panicked _"] show ?thesis by (auto simp: in_range_def lvs_panics_def)
qed

text \<open>Two overlapping first calls with the weights 2 and 1, and a report: the first call panics, the second goes on.\<close>

definition overlapping_calls :: "(lvs_request, unit) event list" where
  "overlapping_calls = loaded 2 @ replicate 6 (Run 0) @ replicate 6 (Run 1) @ [Start (Lower 0 2)] @ replicate 5 (Run 0) @ [Run 2, Run 1]"

theorem concurrent_lvs_Get_witness:
  "calls (lvs_run overlapping_calls \<lparr>shared = two_upstreams 2 1, calls = []\<rparr>) =
     [Panicked (ExplicitPanic ''current weight is 0''), MaxLoad 0 0, StoreWeight 0 1] \<and>
   lastChoose (shared (lvs_run overlapping_calls \<lparr>shared = two_upstreams 2 1, calls = []\<rparr>)) < 2"
proof
  show "calls (lvs_run overlapping_calls \<lparr>shared = two_upstreams 2 1, calls = []\<rparr>) =
     [Panicked (ExplicitPanic ''current weight is 0''), MaxLoad 0 0, StoreWeight 0 1]" by code_simp
  have "in_range 2 (two_upstreams 2 1)" by (simp add: in_range_def two_upstreams_def)
  from concurrent_lvs_Get [OF this _ refl, of overlapping_calls]
  show "lastChoose (shared (lvs_run overlapping_calls \<lparr>shared = two_upstreams 2 1, calls = []\<rparr>)) < 2" by simp
qed

text \<open>Property C9.  A call of \<open>Get\<close> that is not interrupted is \<open>lvs_Get\<close>, the \<open>Get\<close> of the sequential
  model: it returns the same upstream and leaves the same selector, or it ends with the same panic.\<close>

theorem uninterrupted_lvs_Get:
  assumes "lvs_Get ls = Some r"
  shows "\<exists>m st. lvs_run (Start GetUpstream # replicate m (Run 0)) \<lparr>shared = ls, calls = []\<rparr> = st \<and>
    (case r of Inr (ls', i) \<Rightarrow> st = \<lparr>shared = ls', calls = [Returned i]\<rparr> | Inl p \<Rightarrow> calls st = [Panicked p])"
proof -
  let ?st = "\<lparr>shared = ls, calls = [lvs_start ls GetUpstream]\<rparr>"
  obtain ls' pc where pc: "reaches lvs_step (ls, lvs_start ls GetUpstream) (ls', pc)"
      "case r of Inr (ls1, i) \<Rightarrow> ls' = ls1 \<and> pc = Returned i | Inl p \<Rightarrow> pc = Panicked p"
    using Get_steps [OF assms] by (cases r) auto
  then obtain m where "lvs_run (replicate m (Run 0)) ?st = ?st\<lparr>shared := ls', calls := [pc]\<rparr>"
    using reaches_run [where start = lvs_start and outside = no_outside, of lvs_step ?st 0 ls' pc] by auto
  then show ?thesis using pc(2) by (intro exI [of _ m]) (auto split: sum.splits)
qed

theorem uninterrupted_lvs_Get_witness:
  "\<exists>m. calls (lvs_run (Start GetUpstream # replicate m (Run 0)) \<lparr>shared = two_upstreams 50 50, calls = []\<rparr>) =
    [Panicked (ExplicitPanic ''current weight is 0'')]"
proof -
  have "lvs_advance (two_upstreams 50 50) = Some (Inl (ExplicitPanic ''current weight is 0''))" by code_simp
  then have "lvs_loop (two_upstreams 50 50) = Some (Inl (ExplicitPanic ''current weight is 0''))" by (subst lvs_loop.simps) simp
  then have "lvs_Get (two_upstreams 50 50) = Some (Inl (ExplicitPanic ''current weight is 0''))" by (simp add: lvs_Get_def two_upstreams_def)
  from uninterrupted_lvs_Get [OF this] show ?thesis by auto
qed

text \<open>Property C10.  The first queries of a client, if they overlap, can end it.  On a selector as
  \<open>NewLVSWRRSelector\<close> and \<open>Add\<close> leave it, with at least two upstreams whose maximal weight is \<open>k\<close> times
  the greatest common divisor of the weights, there is an interleaving of \<open>k\<close> calls of \<open>Get\<close> in which a
  call panics with "current weight is 0", also when the weights differ.\<close>

theorem overlapping_first_Gets_panic:
  assumes "weights_ok (lsUpstreams ls)" "2 \<le> length (lsUpstreams ls)" "length (lsUpstreams ls) < 2147483648"
    "lastChoose ls = -1" "lsCurrentWeight ls = 0" "int k * gcd_eff (lsUpstreams ls) = maxWeight (lsUpstreams ls)"
  shows "\<exists>evs. length (calls (lvs_run evs \<lparr>shared = ls, calls = []\<rparr>)) = k \<and> set evs \<subseteq> insert (Start GetUpstream) (range Run)
    \<and> Panicked (ExplicitPanic ''current weight is 0'') \<in> set (calls (lvs_run evs \<lparr>shared = ls, calls = []\<rparr>))"
proof -
  let ?us = "lsUpstreams ls" and ?p = "Panicked (ExplicitPanic ''current weight is 0'')"
  have k: "0 < k" using assms(6) gcd_eff_le_max [OF assms(1)] by (cases k) auto
  obtain evs x where evs: "set evs \<subseteq> range Run" "lvs_run evs \<lparr>shared = ls, calls = replicate k (StoreLast (-1))\<rparr> =
     \<lparr>shared = ls\<lparr>lastChoose := x, lsCurrentWeight := - maxWeight ?us\<rparr>, calls = replicate k TestCurrent\<rparr>"
    using subtracted [OF assms(1,3,6,4,5) order.refl] assms(6) by auto
  let ?ls = "ls\<lparr>lastChoose := x, lsCurrentWeight := - maxWeight ?us\<rparr>"
  have "reaches lvs_step (?ls, TestCurrent) (?ls\<lparr>lsCurrentWeight := 0\<rparr>, ?p)"
    using refill_steps [of ?ls] gcd_eff_le_max [OF assms(1)] by (simp add: wrap32_def)
  then obtain m where "lvs_run (replicate m (Run 0)) \<lparr>shared = ?ls, calls = replicate k TestCurrent\<rparr> =
      \<lparr>shared = ?ls\<lparr>lsCurrentWeight := 0\<rparr>, calls = (replicate k TestCurrent)[0 := ?p]\<rparr>"
    using reaches_run [where start = lvs_start and outside = no_outside, of lvs_step "\<lparr>shared = ?ls, calls = replicate k TestCurrent\<rparr>" 0 "?ls\<lparr>lsCurrentWeight := 0\<rparr>" ?p] k by auto
  then have "calls (lvs_run (loaded k @ evs @ replicate m (Run 0)) \<lparr>shared = ls, calls = []\<rparr>) = (replicate k TestCurrent)[0 := ?p]"
    using loaded_run [OF assms(2-4)] evs(2) by simp
  moreover have "?p \<in> set ((replicate k TestCurrent)[0 := ?p])" using k by (simp add: set_update_memI)
  moreover have "set (loaded k @ evs @ replicate m (Run 0)) \<subseteq> insert (Start GetUpstream) (range Run)"
    using evs(1) by (auto simp: loaded_def)
  ultimately show ?thesis by (intro exI [of _ "loaded k @ evs @ replicate m (Run 0)"]) simp
qed


lemma gcd_eff_two: "gcd_eff (lsUpstreams (two_upstreams v w)) = gcd v w"
  by (simp add: gcd_eff_def two_upstreams_def)

theorem overlapping_first_Gets_panic_witness:
  "\<exists>evs. length (calls (lvs_run evs \<lparr>shared = two_upstreams 100 50, calls = []\<rparr>)) = 2 \<and>
    Panicked (ExplicitPanic ''current weight is 0'') \<in> set (calls (lvs_run evs \<lparr>shared = two_upstreams 100 50, calls = []\<rparr>))"
proof -
  have "maxWeight (lsUpstreams (two_upstreams 100 50)) = 100" by (simp add: maxWeight_def two_upstreams_def)
  moreover have "gcd (100 :: int) 50 = 50" by code_simp
  moreover have "weights_ok (lsUpstreams (two_upstreams 100 50))" "length (lsUpstreams (two_upstreams 100 50)) = 2"
      "lastChoose (two_upstreams 100 50) = -1" "lsCurrentWeight (two_upstreams 100 50) = 0"
    by (simp_all add: two_upstreams_def weights_ok_def weight_ok_def)
  ultimately show ?thesis using overlapping_first_Gets_panic [of "two_upstreams 100 50" 2] by (auto simp: gcd_eff_two)
qed

text \<open>Property C11.  A query that starts a new lap while the effective weight of an upstream is being
  lowered can end the client: if the reduction \<open>d\<close> is just the effective weight, the call reads 0
  between the addition and the store of the update, and \<open>gcd\<close> divides by zero.\<close>

theorem report_race_divides_by_zero:
  assumes "weights_ok (lsUpstreams ls)" "2 \<le> length (lsUpstreams ls)" "length (lsUpstreams ls) < 2147483648"
    "at_end ls" "j < length (lsUpstreams ls)" "effectiveWeight (lsUpstreams ls ! j) = d"
  shows "\<exists>m. calls (lvs_run ([Start (Lower j d), Start GetUpstream, Run 0] @ replicate m (Run 1)) \<lparr>shared = ls, calls = []\<rparr>) =
    [StoreWeight j 1, Panicked DivideByZero]"
proof -
  let ?ls = "set_weight j 0 ls"
  let ?st = "\<lparr>shared = ?ls, calls = [StoreWeight j 1, LoadLast]\<rparr>"
  obtain ls' where "reaches lvs_step (?ls, LoadLast) (ls', Panicked DivideByZero)"
    using advance_steps [OF advance_zero [OF assms(1,3,4,5)]] by auto
  then obtain m where "lvs_run (replicate m (Run 1)) ?st = ?st\<lparr>shared := ls', calls := [StoreWeight j 1, Panicked DivideByZero]\<rparr>"
    using reaches_run [where start = lvs_start and outside = no_outside, of lvs_step ?st 1 ls'] by auto
  moreover have "lvs_run [Start (Lower j d), Start GetUpstream, Run 0] \<lparr>shared = ls, calls = []\<rparr> = ?st"
    using assms(2,6) by (simp add: lvs_start_def lvs_step_def Let_def wrap32_def)
  ultimately show ?thesis by (intro exI [of _ m]) simp
qed

theorem report_race_divides_by_zero_witness:
  "\<exists>m. calls (lvs_run ([Start (Lower 1 5), Start GetUpstream, Run 0] @ replicate m (Run 1)) \<lparr>shared = two_upstreams 50 5, calls = []\<rparr>) =
    [StoreWeight 1 1, Panicked DivideByZero]"
  using report_race_divides_by_zero [of "two_upstreams 50 5" 1 5]
  by (simp add: two_upstreams_def weights_ok_def weight_ok_def at_end_def)

end
