(* ===== verification/Client_Concurrent.thy ===== *)
theory Client_Concurrent
  imports Client_Handler Interleaving
begin

text \<open>
  The client under concurrent queries.  The DNS library runs \<open>handlerFunc\<close> in a goroutine for each
  query, and the evaluation runs its rounds beside them; what they share is the selector.  A handler
  touches it twice, with \<open>Get\<close> and with \<open>ReportUpstreamStatus\<close>, and the exchange with the upstream
  lies between the two: these are its three steps.  The fields of the chosen upstream it reads (its URL
  and types) do not change.  The operations of the selector are one step here; the theories of the
  atomic operations split them further.
\<close>

section \<open>Handlers as goroutines\<close>

datatype handler_pc =
    Received client_query
  | Querying client_query nat upstream
  | Reporting client_query nat "upstreamStatus option" dns_writer
  | Handled client_query dns_writer
  | HandlerPanicked client_query go_panic
  | HandlerHung client_query

text \<open>The first part of the handler, up to the choice of an upstream.\<close>

definition choose_step :: "Client \<Rightarrow> client_query \<Rightarrow> Client \<times> handler_pc" where
  "choose_step c q = (case q of (E, draw, w, r, isTCP) \<Rightarrow>
     if Response r then (c, Handled q w)
     else if length (msgQuestion r) \<noteq> 1 then (c, Handled q (write_failure RcodeFormatError r w))
     else if shouldPassthrough E c (qName (msgQuestion r ! 0)) then
       (c, case pass_through E c draw w r isTCP of Inl p \<Rightarrow> HandlerPanicked q p | Inr w' \<Rightarrow> Handled q w')
     else case selector_Get draw (cSelector c) of
       None \<Rightarrow> (c, HandlerHung q)
     | Some (Inl p) \<Rightarrow> (c, HandlerPanicked q p)
     | Some (Inr (s, i)) \<Rightarrow> (c\<lparr>cSelector := s\<rparr>, Querying q i (selector_upstreams s ! i)))"

text \<open>The exchange with the upstream and the answer to the querier.\<close>

definition exchange_step :: "dns_lib \<Rightarrow> 't iptree \<Rightarrow> Config \<Rightarrow> client_query \<Rightarrow> nat \<Rightarrow> upstream \<Rightarrow> handler_pc" where
  "exchange_step L T conf q i u = (case q of (E, draw, w, r, isTCP) \<Rightarrow>
     case generate_request L conf T E w r u of
       Inl p \<Rightarrow> HandlerPanicked q p
     | Inr (w', r', Inl err) \<Rightarrow> Reporting q i (reported_status (Inl err)) w'
     | Inr (w', r', Inr req) \<Rightarrow>
         (case parse_response L E w' r' isTCP u req of
            Inl p \<Rightarrow> HandlerPanicked q p
          | Inr w'' \<Rightarrow> Reporting q i (reported_status (Inr req)) w''))"

definition handle_step :: "dns_lib \<Rightarrow> 't iptree \<Rightarrow> Client \<Rightarrow> handler_pc \<Rightarrow> Client \<times> handler_pc" where
  "handle_step L T c pc = (case pc of
       Received q \<Rightarrow> choose_step c q
     | Querying q i u \<Rightarrow> (c, exchange_step L T (cConf c) q i u)
     | Reporting q i st w \<Rightarrow> (c\<lparr>cSelector := report_status i st (cSelector c)\<rparr>, Handled q w)
     | _ \<Rightarrow> (c, pc))"

definition receive :: "Client \<Rightarrow> client_query \<Rightarrow> handler_pc" where
  "receive c q = Received q"

text \<open>A round of the evaluation over some upstreams; a round that panics leaves no selector behind.\<close>

definition evaluation_round :: "probe_env \<times> nat list \<Rightarrow> Client \<Rightarrow> Client" where
  "evaluation_round = (\<lambda>(e, ord) c.
     if set ord \<subseteq> {..<length (selector_upstreams (cSelector c))} then
       (case selector_StartEvaluate e ord (cSelector c) of Inl p \<Rightarrow> c | Inr s \<Rightarrow> c\<lparr>cSelector := s\<rparr>)
     else c)"

abbreviation "client_run L T \<equiv> run_events receive (handle_step L T) evaluation_round"

section \<open>The invariant of every interleaving\<close>

definition client_ok :: "nat \<Rightarrow> Client \<Rightarrow> bool" where
  "client_ok n c \<longleftrightarrow> client_inv c \<and> length (selector_upstreams (cSelector c)) = n"

fun handler_ok :: "dns_lib \<Rightarrow> nat \<Rightarrow> handler_pc \<Rightarrow> bool" where
  "handler_ok L n (Received q) \<longleftrightarrow> True"
| "handler_ok L n (Querying q i u) \<longleftrightarrow> i < n \<and> known_type u \<and> (case q of (E, draw, w, r, isTCP) \<Rightarrow> msgQuestion r \<noteq> [])"
| "handler_ok L n (Reporting q i st w) \<longleftrightarrow> i < n \<and> (query_ok q \<longrightarrow> answered L q w)"
| "handler_ok L n (Handled q w) \<longleftrightarrow> (query_ok q \<longrightarrow> answered L q w)"
| "handler_ok L n (HandlerPanicked q p) \<longleftrightarrow> \<not> query_ok q"
| "handler_ok L n (HandlerHung q) \<longleftrightarrow> False"

fun handler_left :: "handler_pc \<Rightarrow> nat" where
  "handler_left (Received q) = 3"
| "handler_left (Querying q i u) = 2"
| "handler_left (Reporting q i st w) = 1"
| "handler_left pc = 0"

lemma client_ok_selector:
  assumes "client_ok n c" "selector_inv s" "map upstream_id (selector_upstreams s) = map upstream_id (selector_upstreams (cSelector c))"
  shows "client_ok n (c\<lparr>cSelector := s\<rparr>)"
  using assms known_type_ids [OF assms(3)] map_eq_imp_length_eq [OF assms(3)] by (simp add: client_ok_def client_inv_def)

text \<open>The queries that a handler answers without asking an upstream.\<close>

definition asks_upstream :: "Client \<Rightarrow> client_query \<Rightarrow> bool" where
  "asks_upstream c q \<longleftrightarrow> (case q of (E, draw, w, r, isTCP) \<Rightarrow>
     \<not> Response r \<and> length (msgQuestion r) = 1 \<and> \<not> shouldPassthrough E c (qName (msgQuestion r ! 0)))"

lemma answer_alone_ok:
  assumes boot: "passthrough c \<noteq> [] \<longrightarrow> bootstrap c \<noteq> []" and step: "choose_step c q = (c', pc')" and "\<not> asks_upstream c q"
  shows "c' = c \<and> handler_ok L n pc' \<and> handler_left pc' = 0"
proof -
  obtain E draw w r isTCP where q: "q = (E, draw, w, r, isTCP)" by (cases q)
  consider (none) "Response r \<or> length (msgQuestion r) \<noteq> 1"
    | (pass) "\<not> Response r" "length (msgQuestion r) = 1" "shouldPassthrough E c (qName (msgQuestion r ! 0))"
    using assms(3) by (auto simp: q asks_upstream_def)
  then show ?thesis
  proof cases
    case none
    then show ?thesis using step wrote_reply [OF write_failure_one]
      by (auto simp: q choose_step_def query_ok_def answered_def split: if_splits)
  next
    case pass
    then have "bootstrap c \<noteq> []" using boot by (auto simp: shouldPassthrough_def)
    then have "exchange_id_ok E \<Longrightarrow> \<exists>w'. pass_through E c draw w r isTCP = Inr w' \<and> wrote_one (reply_to L r) w w'"
      using pass_through_one wrote_reply by blast
    then show ?thesis using step pass by (auto simp: q choose_step_def query_ok_def answered_def split: sum.splits)
  qed
qed

lemma choose_step_ok:
  assumes ok: "client_ok n c" and step: "choose_step c q = (c', pc')"
  shows "client_ok n c' \<and> handler_ok L n pc'"
proof (cases "asks_upstream c q")
  case False
  then show ?thesis using answer_alone_ok [OF _ step False] ok by (simp add: client_ok_def client_inv_def)
next
  case True
  obtain E draw w r isTCP where q: "q = (E, draw, w, r, isTCP)" by (cases q)
  have inv: "selector_inv (cSelector c)" using ok by (simp add: client_ok_def client_inv_def)
  obtain s i where g: "selector_Get draw (cSelector c) = Some (Inr (s, i))" using sel.get_returns [OF inv] by blast
  note s = sel.get_invar [OF inv g] sel.get_ids [OF inv g]
  have n: "i < n" using sel.get_range [OF inv g] ok by (simp add: client_ok_def)
  have c': "client_ok n (c\<lparr>cSelector := s\<rparr>)" by (rule client_ok_selector [OF ok s])
  then have "known_type (selector_upstreams s ! i)" using n by (simp add: client_ok_def client_inv_def list_all_length)
  then show ?thesis using step True g c' n by (auto simp: q choose_step_def asks_upstream_def)
qed

lemma exchange_step_ok:
  assumes "dns_lib_ok L" "truncate_ok L" "handler_ok L n (Querying q i u)"
  shows "handler_ok L n (exchange_step L T conf q i u)"
proof (cases "query_ok q")
  case True
  obtain E draw w r isTCP where q: "q = (E, draw, w, r, isTCP)" by (cases q)
  have pre: "wf_msg r" "msgQuestion r \<noteq> []" "known_type u" "i < n" using assms(3) True by (simp_all add: q query_ok_def)
  obtain w' r' res where g: "generate_request L conf T E w r u = Inr (w', r', res)"
    and p: "case res of Inl err \<Rightarrow> wrote_one (reply_to L r) w w' | Inr req \<Rightarrow> w' = w \<and> Id r' = Id r \<and> Id (crReply req) = Id r"
    using generate_request_one [OF assms(1) pre(1-3)] by blast
  show ?thesis
  proof (cases res)
    case (Inl err)
    then show ?thesis using g p pre(4) by (simp add: q exchange_step_def answered_def)
  next
    case (Inr req)
    then obtain w'' where "parse_response L E w r' isTCP u req = Inr w''" "wrote_one (answer_id L (Id r)) w w''"
      using parse_response_one [OF assms(2) pre(3), of r' "Id r" req E w isTCP] p by auto
    then show ?thesis using g p pre(4) Inr wrote_reply by (simp add: q exchange_step_def answered_def)
  qed
next
  case False
  then show ?thesis using assms(3)
    by (cases q) (auto simp: exchange_step_def split: sum.split prod.split)
qed

lemma report_ok:
  assumes "client_ok n c" "i < n"
  shows "client_ok n (c\<lparr>cSelector := report_status i st (cSelector c)\<rparr>)"
  using assms sel.report_invar [of "cSelector c" i] sel.report_ids [of i _ "cSelector c"]
  by (intro client_ok_selector) (auto simp: report_status_def client_ok_def client_inv_def split: option.split)

lemma evaluation_ok:
  assumes "client_ok n c"
  shows "client_ok n (evaluation_round e c)"
proof (cases "selector_StartEvaluate (fst e) (snd e) (cSelector c)")
  case (Inr s)
  then show ?thesis using assms sel.evaluate_invar [OF _ _ Inr] sel.evaluate_ids [OF _ _ Inr] client_ok_selector [OF assms, of s]
    by (auto simp: evaluation_round_def client_ok_def client_inv_def split: prod.split)
qed (use assms in \<open>auto simp: evaluation_round_def split: prod.split\<close>)

text \<open>The library's documented behaviour is part of the invariant, so that the interpretation has no premise.\<close>

definition served_ok :: "dns_lib \<Rightarrow> nat \<Rightarrow> Client \<Rightarrow> bool" where
  "served_ok L n c \<longleftrightarrow> dns_lib_ok L \<and> truncate_ok L \<and> client_ok n c"

interpretation handlers: wait_free receive "handle_step L T" evaluation_round "served_ok L n" "\<lambda>c. handler_ok L n" handler_left for L T n
proof
  fix c c' pc pc'
  assume ok: "served_ok L n c" and pc: "handler_ok L n pc" and step: "handle_step L T c pc = (c', pc')"
  have c: "client_ok n c" "dns_lib_ok L" "truncate_ok L" using ok by (simp_all add: served_ok_def)
  have "client_ok n c' \<and> handler_ok L n pc'"
  proof (cases pc)
    case (Received q)
    then show ?thesis using choose_step_ok [OF c(1)] step by (simp add: handle_step_def)
  next
    case (Querying q i u)
    then show ?thesis using exchange_step_ok [OF c(2,3), of n q i u T "cConf c"] pc step c(1) by (auto simp: handle_step_def)
  next
    case (Reporting q i st w)
    then show ?thesis using report_ok [OF c(1)] pc step by (auto simp: handle_step_def)
  qed (use pc step c(1) in \<open>auto simp: handle_step_def\<close>)
  then show "served_ok L n c' \<and> handler_ok L n pc'" using c by (simp add: served_ok_def)
  show "handler_left pc' \<le> handler_left pc - 1"
  proof (cases pc)
    case (Received q)
    then have "handler_left pc' \<le> 2" using step
      by (cases q) (auto simp: handle_step_def choose_step_def split: if_splits option.splits sum.splits)
    then show ?thesis using Received by simp
  next
    case (Querying q i u)
    then have "handler_left pc' \<le> 1" using step
      by (cases q) (auto simp: handle_step_def exchange_step_def split: sum.splits)
    then show ?thesis using Querying by simp
  qed (use step in \<open>auto simp: handle_step_def\<close>)
qed (simp_all add: receive_def served_ok_def evaluation_ok)

lemma served_start:
  assumes "dns_lib_ok L" "truncate_ok L" "client_inv c"
  obtains n where "all_ok (served_ok L n) (\<lambda>c. handler_ok L n) \<lparr>shared = c, calls = []\<rparr>"
  using assms by (simp add: all_ok_def served_ok_def client_ok_def)

fun query_of :: "handler_pc \<Rightarrow> client_query" where
  "query_of (Received q) = q"
| "query_of (Querying q i u) = q"
| "query_of (Reporting q i st w) = q"
| "query_of (Handled q w) = q"
| "query_of (HandlerPanicked q p) = q"
| "query_of (HandlerHung q) = q"

lemma query_kept: "query_of (snd (handle_step L T c pc)) = query_of pc"
proof (cases pc)
  case (Received q)
  then show ?thesis by (cases q) (simp add: handle_step_def choose_step_def split: option.split sum.split)
next
  case (Querying q i u)
  then show ?thesis by (cases q) (simp add: handle_step_def exchange_step_def split: sum.split)
qed (simp_all add: handle_step_def)

lemma handler_end:
  "handler_ok L n pc \<Longrightarrow> handler_left pc = 0 \<Longrightarrow> query_ok (query_of pc) \<Longrightarrow> \<exists>w. pc = Handled (query_of pc) w \<and> answered L (query_of pc) w"
  by (cases pc) auto

section \<open>A handler that is not interrupted\<close>

lemma three_steps:
  assumes "client_handlerFunc L T E c draw w r isTCP = Some (Inr (c', w'))"
  shows "steps_alone (handle_step L T) 3 (c, Received (E, draw, w, r, isTCP)) = (c', Handled (E, draw, w, r, isTCP) w')"
  using assms by (auto simp: numeral_3_eq_3 handle_step_def choose_step_def exchange_step_def client_handlerFunc_def Let_def
      split: option.splits sum.splits prod.splits if_splits)

section \<open>Properties\<close>

text \<open>Every query is answered, however the handlers of other queries and the rounds of the
  evaluation interleave with its own: in any state that a client built by \<open>NewClient\<close> for the random or
  the smooth weighted selector can be in, a query that arrives is answered with exactly one message
  (as in the sequential case) once its handler has had three steps, and no handler has panicked.\<close>

theorem concurrent_client_answers:
  assumes "dns_lib_ok L" "truncate_ok L" "NewClient N E0 conf = Inr c" "weights_allowed conf"
    "UpstreamSelector (confUpstream conf) \<noteq> LVSWRR" "query_ok q"
    "st = client_run L T evs \<lparr>shared = c, calls = []\<rparr>" "k = length (calls st)" "3 \<le> count_list evs' (Run k)"
  shows "(\<exists>w. calls (client_run L T (Start q # evs') st) ! k = Handled q w \<and> answered L q w)
    \<and> (\<forall>q' p. HandlerPanicked q' p \<in> set (calls st) \<longrightarrow> \<not> query_ok q')"
proof
  obtain n where n: "all_ok (served_ok L n) (\<lambda>c. handler_ok L n) \<lparr>shared = c, calls = []\<rparr>"
    by (rule served_start [OF assms(1,2) NewClient_client_inv [OF assms(3-5)]])
  note ok = handlers.run_all_ok [OF n, of T evs, folded assms(7)]
  show "\<forall>q' p. HandlerPanicked q' p \<in> set (calls st) \<longrightarrow> \<not> query_ok q'" using ok by (auto simp: all_ok_def list_all_iff)
  let ?pc = "calls (client_run L T (Start q # evs') st) ! k"
  have "query_of ?pc = query_of (calls (apply_event receive (handle_step L T) evaluation_round (Start q) st) ! k)"
    using run_kept [where f = query_of and step = "handle_step L T" and k = k and start = receive and outside = evaluation_round
        and evs = evs' and st = "apply_event receive (handle_step L T) evaluation_round (Start q) st", OF query_kept] assms(8)
    by simp
  then have q: "query_of ?pc = q" using assms(8) by (simp add: receive_def)
  have "handler_left (receive (shared st) q) \<le> count_list evs' (Run (length (calls st)))" using assms(8,9) by (simp add: receive_def)
  then show "\<exists>w. ?pc = Handled q w \<and> answered L q w"
    by (rule handlers.finished [OF ok]) (use handler_end [of L n ?pc] q assms(6,8) in auto)
qed

text \<open>Two queries whose handlers alternate, before a third arrives.\<close>

definition alternating :: "(client_query, probe_env \<times> nat list) event list" where
  "alternating = [Start sample_client_query, Start sample_client_query, Run 0, Run 1, Run 1]"

lemma alternating_calls: "length (calls (client_run L T alternating \<lparr>shared = c, calls = []\<rparr>)) = 2"
  by (simp add: alternating_def split: prod.split)

theorem concurrent_client_answers_witness:
  "\<exists>c w. NewClient sample_net sample_client_env sample_config = Inr c \<and>
    calls (client_run sample_lib list_tree ([Start sample_client_query, Run 2, Run 0, Run 2, Run 1, Run 0, Run 2])
      (client_run sample_lib list_tree alternating \<lparr>shared = c, calls = []\<rparr>)) ! 2 = Handled sample_client_query w
    \<and> answered sample_lib sample_client_query w"
proof -
  obtain c where c: "NewClient sample_net sample_client_env sample_config = Inr c" using sample_client_ex by blast
  have "UpstreamSelector (confUpstream sample_config) \<noteq> LVSWRR"
    using sample_config_allowed(2) by (simp add: NginxWRR_def LVSWRR_def)
  moreover have "3 \<le> count_list [Run 2, Run 0, Run 2, Run 1, Run 0, Run 2] (Run 2 :: (client_query, probe_env \<times> nat list) event)" by simp
  ultimately show ?thesis
    using concurrent_client_answers [OF sample_lib_ok sample_query_ok(2) c sample_config_allowed(1) _ sample_query_ok(1) refl
        alternating_calls [symmetric], where T = list_tree] c by blast
qed

text \<open>A handler that is not interrupted is \<open>client_handlerFunc\<close>, the handler of the
  sequential model: three steps lead to the same state of the client and the same answer.\<close>

theorem uninterrupted_handler:
  assumes "client_handlerFunc L T E c draw w r isTCP = Some (Inr (c', w'))"
  shows "client_run L T [Start (E, draw, w, r, isTCP), Run 0, Run 0, Run 0] \<lparr>shared = c, calls = []\<rparr> =
    \<lparr>shared = c', calls = [Handled (E, draw, w, r, isTCP) w']\<rparr>"
  using run_alone [of 0 "\<lparr>shared = c, calls = [Received (E, draw, w, r, isTCP)]\<rparr>" receive "handle_step L T" evaluation_round 3]
    three_steps [OF assms]
  by (simp add: numeral_3_eq_3 receive_def)

theorem uninterrupted_handler_witness:
  "\<exists>c c' w'. client_run sample_lib list_tree [Start sample_client_query, Run 0, Run 0, Run 0] \<lparr>shared = c, calls = []\<rparr> =
    \<lparr>shared = c', calls = [Handled sample_client_query w']\<rparr>"
proof -
  obtain c where c: "NewClient sample_net sample_client_env sample_config = Inr c" using sample_client_ex by blast
  have "UpstreamSelector (confUpstream sample_config) \<noteq> LVSWRR"
    using sample_config_allowed(2) by (simp add: NginxWRR_def LVSWRR_def)
  then have inv: "client_inv c" by (rule NewClient_client_inv [OF c sample_config_allowed(1)])
  obtain E draw w r isTCP where q: "sample_client_query = (E, draw, w, r, isTCP)" by (cases sample_client_query)
  then have "exchange_id_ok E" "wf_msg r" "\<not> Response r" using sample_query_ok(1) unfolding q by (simp_all add: query_ok_def)
  then obtain c' w' where "client_handlerFunc sample_lib list_tree E c draw w r isTCP = Some (Inr (c', w'))"
    using handler_one [OF sample_lib_ok sample_query_ok(2) _ _ inv] by blast
  from uninterrupted_handler [OF this] show ?thesis unfolding q by blast
qed

end
