(* ===== verification/Int32_Types.thy ===== *)
theory Int32_Types
  imports Client_Concurrent
begin

text \<open>
  The weights and counters of the selectors are \<open>int32\<close> in the source and integers with explicit
  wrap-around in the model.  Here every operation of every selector is shown to keep them in the
  range of their type, with no condition on the weights or on the outcome of the probes, and with it
  every interleaving of the handlers and of the evaluation.
\<close>

section \<open>Typed upstreams\<close>

definition upstream32 :: "upstream \<Rightarrow> bool" where
  "upstream32 u \<longleftrightarrow> in32 (weight u) \<and> in32 (effectiveWeight u) \<and> in32 (currentWeight u)"

lemma in32_small [simp]: "in32 0" "in32 1" "in32 (-1)"
  by (simp_all add: in32_def)

lemma upstream32_adjust [simp]:
  "upstream32 u \<Longrightarrow> upstream32 (lower_weight d u)" "upstream32 u \<Longrightarrow> upstream32 (raise_weight d u)"
  by (simp_all add: upstream32_def lower_weight_def raise_weight_def Let_def)

lemma upstream32_current [simp]: "upstream32 u \<Longrightarrow> in32 c \<Longrightarrow> upstream32 (u\<lparr>currentWeight := c\<rparr>)"
  by (simp add: upstream32_def)

lemma upstreams32_update:
  "list_all upstream32 us \<Longrightarrow> (i < length us \<Longrightarrow> upstream32 (us ! i) \<Longrightarrow> upstream32 v) \<Longrightarrow> list_all upstream32 (us[i := v])"
  by (cases "i < length us") (auto simp: list_all_length nth_list_update)

lemma evaluate_round32:
  assumes "\<And>u v. ev u = Inr v \<Longrightarrow> upstream32 u \<Longrightarrow> upstream32 v"
  shows "evaluate_round ev ord us = Inr us' \<Longrightarrow> list_all upstream32 us \<Longrightarrow> list_all upstream32 us'"
  by (induction ord arbitrary: us) (auto intro: upstreams32_update assms split: sum.splits)

section \<open>The selectors\<close>

definition selector32 :: "client_selector \<Rightarrow> bool" where
  "selector32 s \<longleftrightarrow> list_all upstream32 (selector_upstreams s)
     \<and> (case s of LVSSel ls \<Rightarrow> in32 (lastChoose ls) \<and> in32 (lsCurrentWeight ls) | _ \<Rightarrow> True)"

lemma nginx_scan32:
  "nginx_scan is us tot best = (us', tot', best') \<Longrightarrow> list_all upstream32 us \<Longrightarrow> list_all upstream32 us'"
proof (induction "is" arbitrary: us tot best)
  case (Cons i js)
  have "list_all upstream32 (us[i := bump (us ! i)])"
    using Cons.prems(2) by (intro upstreams32_update) (simp_all add: bump_def)
  then show ?case using Cons by (auto simp: Let_def)
qed simp

lemma nginx_Get32:
  "nginx_Get ws = Inr (ws', i) \<Longrightarrow> list_all upstream32 (nwUpstreams ws) \<Longrightarrow> list_all upstream32 (nwUpstreams ws')"
  by (auto simp: nginx_Get_def dest!: nginx_scan32 intro!: upstreams32_update
      split: prod.splits option.splits)

definition lvs32 :: "LVSWRRSelector \<Rightarrow> bool" where
  "lvs32 ls \<longleftrightarrow> in32 (lastChoose ls) \<and> in32 (lsCurrentWeight ls)"

lemma go_rem32: "in32 x \<Longrightarrow> in32 (go_rem x y)"
proof -
  assume x: "in32 x"
  have "\<bar>x\<bar> mod \<bar>y\<bar> \<le> \<bar>x\<bar>" by (cases "y = 0") (simp_all add: zmod_le_nonneg_dividend)
  moreover have "0 \<le> \<bar>x\<bar> mod \<bar>y\<bar>" by (cases "y = 0") simp_all
  ultimately show ?thesis using x by (cases "x < 0"; cases "x = 0") (auto simp: go_rem_def in32_def)
qed

lemma lvs_advance32: "lvs_advance ls = Some (Inr ls') \<Longrightarrow> lvs32 ls \<Longrightarrow> lvs32 ls' \<and> lsUpstreams ls' = lsUpstreams ls"
  by (auto simp: lvs_advance_def lvs32_def Let_def go_rem32 split: if_splits option.splits sum.splits)

lemma lvs_loop32:
  "lvs_loop ls = Some r \<Longrightarrow> lvs32 ls \<longrightarrow> (\<forall>ls' i. r = Inr (ls', i) \<longrightarrow> lvs32 ls' \<and> lsUpstreams ls' = lsUpstreams ls)"
proof (erule lvs_loop.raw_induct [where P = "\<lambda>ls r. lvs32 ls \<longrightarrow> (\<forall>ls' i. r = Inr (ls', i) \<longrightarrow> lvs32 ls' \<and> lsUpstreams ls' = lsUpstreams ls)", rotated], goal_cases)
  case (1 loop ls r)
  show ?case
  proof (cases "\<exists>ls1. lvs_advance ls = Some (Inr ls1)")
    case True
    then obtain ls1 where a: "lvs_advance ls = Some (Inr ls1)" by blast
    consider "\<exists>p. r = Inl p" | i where "r = Inr (ls1, i)" | "loop ls1 = Some r" using 1(2) a by (auto split: if_splits)
    then show ?thesis
    proof cases
      case 3
      then show ?thesis using 1(1) [OF 3] lvs_advance32 [OF a] by metis
    qed (use lvs_advance32 [OF a] in auto)
  qed (use 1(2) in \<open>auto split: option.splits sum.splits\<close>)
qed

lemma lvs_Get32: "lvs_Get ls = Some (Inr (ls', i)) \<Longrightarrow> lvs32 ls \<Longrightarrow> lvs32 ls' \<and> lsUpstreams ls' = lsUpstreams ls"
  using lvs_loop32 [of ls "Inr (ls', i)"] by (auto simp: lvs_Get_def split: if_splits)

lemma selector_Get32:
  assumes "selector_Get r s = Some (Inr (s', i))" "selector32 s"
  shows "selector32 s'"
proof (cases s)
  case (RandomSel rs)
  then show ?thesis using assms by (auto simp: selector_Get_def random_Get_def selector32_def split: sum.splits)
next
  case (NginxSel ws)
  then obtain ws' where "nginx_Get ws = Inr (ws', i)" "s' = NginxSel ws'"
    using assms(1) by (cases "nginx_Get ws") (auto simp: selector_Get_def)
  then show ?thesis using NginxSel assms(2) nginx_Get32 [of ws ws' i] by (simp add: selector32_def selector_upstreams_def)
next
  case (LVSSel ls)
  then obtain x where x: "lvs_Get ls = Some x" "map_sum id (apfst LVSSel) x = Inr (s', i)" using assms(1) by (auto simp: selector_Get_def)
  then obtain ls' where "x = Inr (ls', i)" "s' = LVSSel ls'" by (cases x) auto
  then show ?thesis using LVSSel assms(2) x(1) lvs_Get32 [of ls ls' i] by (simp add: selector32_def selector_upstreams_def lvs32_def)
qed

lemma status32:
  "upstream32 u \<Longrightarrow> upstream32 (nginx_status st u)" "upstream32 u \<Longrightarrow> upstream32 (lvs_status st u)"
  by (simp_all add: nginx_status_def lvs_status_def split: upstreamStatus.split)

lemma selector_Report32: "selector32 s \<Longrightarrow> selector32 (selector_Report i st s)"
  by (auto simp: selector_Report_def selector32_def selector_upstreams_def random_ReportUpstreamStatus_def
      nginx_ReportUpstreamStatus_def lvs_ReportUpstreamStatus_def status32 intro!: upstreams32_update split: client_selector.splits)

lemma probe32:
  "nginx_probe e u = Inr v \<Longrightarrow> upstream32 u \<Longrightarrow> upstream32 v" "lvs_probe e u = Inr v \<Longrightarrow> upstream32 u \<Longrightarrow> upstream32 v"
  by (auto simp: nginx_probe_def lvs_probe_def nginx_checkGoogleResponse_def nginx_checkIETFResponse_def
      lvs_checkGoogleResponse_def lvs_checkIETFResponse_def
      split: option.splits sum.splits UpstreamType.splits json_value.splits if_splits)

lemma selector_StartEvaluate32: "selector_StartEvaluate e ord s = Inr s' \<Longrightarrow> selector32 s \<Longrightarrow> selector32 s'"
proof (cases s)
  case (NginxSel ws)
  assume a: "selector_StartEvaluate e ord s = Inr s'" "selector32 s"
  then obtain us where "evaluate_round (nginx_probe e) ord (nwUpstreams ws) = Inr us" "s' = NginxSel (ws\<lparr>nwUpstreams := us\<rparr>)"
    using NginxSel by (auto simp: selector_StartEvaluate_def nginx_StartEvaluate_def split: sum.splits)
  then show ?thesis using a(2) NginxSel evaluate_round32 [OF probe32(1)] by (auto simp: selector32_def selector_upstreams_def)
next
  case (LVSSel ls)
  assume a: "selector_StartEvaluate e ord s = Inr s'" "selector32 s"
  then obtain us where "evaluate_round (lvs_probe e) ord (lsUpstreams ls) = Inr us" "s' = LVSSel (ls\<lparr>lsUpstreams := us\<rparr>)"
    using LVSSel by (auto simp: selector_StartEvaluate_def lvs_StartEvaluate_def split: sum.splits)
  then show ?thesis using a(2) LVSSel evaluate_round32 [OF probe32(2)] by (auto simp: selector32_def selector_upstreams_def)
qed (auto simp: selector_StartEvaluate_def random_StartEvaluate_def)

lemma new_selector32:
  assumes "new_selector conf = Inr s" "\<forall>d \<in> configured_details conf. in32 (udWeight d)"
  shows "selector32 s"
proof -
  have w: "UpstreamSelector (confUpstream conf) = LVSWRR \<longrightarrow> (\<forall>u \<in> configured_details conf. 1 \<le> udWeight u)"
    using new_selector_refused [of conf] assms(1) by force
  have "upstream32 (added b t d)" if "d \<in> configured_details conf" for b t d
    using that assms(2) by (simp add: upstream32_def added_def)
  then have "list_all upstream32 (configured_upstreams b conf)" for b
    by (auto simp: configured_upstreams_def configured_details_def list_all_iff)
  then show ?thesis using new_selector_built [OF w] assms(1) by (auto simp: selector32_def split: client_selector.split)
qed


section \<open>Every interleaving\<close>

lemma handle_step32: "selector32 (cSelector c) \<Longrightarrow> handle_step L T c pc = (c', pc') \<Longrightarrow> selector32 (cSelector c')"
proof (cases pc)
  case (Received q)
  assume "selector32 (cSelector c)" "handle_step L T c pc = (c', pc')"
  then show ?thesis using Received selector_Get32
    by (cases q) (auto simp: handle_step_def choose_step_def split: if_splits option.splits sum.splits)
qed (auto simp: handle_step_def report_status_def selector_Report32 split: option.split)

lemma evaluation_round32: "selector32 (cSelector c) \<Longrightarrow> selector32 (cSelector (evaluation_round e c))"
  using selector_StartEvaluate32 by (auto simp: evaluation_round_def split: sum.split prod.split)

interpretation typed: event_system "apply_event receive (handle_step L T) evaluation_round"
  "\<lambda>st. selector32 (cSelector (shared st))" for L T
proof
  fix st :: "(Client, handler_pc) system" and ev
  assume "selector32 (cSelector (shared st))"
  then show "selector32 (cSelector (shared (apply_event receive (handle_step L T) evaluation_round ev st)))"
    using handle_step32 evaluation_round32 by (cases ev) (auto split: prod.split)
qed

section \<open>Properties\<close>



end
