(* ===== verification/Client_Atomic.thy ===== *)
theory Client_Atomic
  imports Client_Concurrent Get_Steps
begin

text \<open>
  The client with the smooth weighted selector at the grain of its atomic operations: between any two
  loads, additions and stores of a handler's \<open>Get\<close> and report, other handlers and the probes may run.
  A handler is a goroutine of \<open>Client_Concurrent\<close> whose call of \<open>Get\<close> is one of \<open>Get_Steps\<close> and whose
  report is an \<open>AddInt32\<close> that may be followed by a \<open>StoreInt32\<close>.  The operations of the random selector
  change nothing, so each is one step.  The theorems: every query is answered, within a bound on the
  handler's own operations, whatever the weights and the other goroutines do, and a handler that is not
  interrupted is the sequential \<open>client_handlerFunc\<close>.
\<close>

section \<open>Handlers as atomic operations\<close>

datatype atomic_pc =
    Waiting handler_pc
  | Getting client_query get_pc
  | Storing client_query nat int dns_writer

definition put_currents :: "int list \<Rightarrow> upstream list \<Rightarrow> upstream list" where
  "put_currents xs us = map2 (\<lambda>x u. u\<lparr>currentWeight := x\<rparr>) xs us"

definition put_effective :: "nat \<Rightarrow> int \<Rightarrow> upstream list \<Rightarrow> upstream list" where
  "put_effective i e us = us[i := (us ! i)\<lparr>effectiveWeight := e\<rparr>]"

definition with_upstreams :: "upstream list \<Rightarrow> NginxWRRSelector \<Rightarrow> Client \<Rightarrow> Client" where
  "with_upstreams us ws c = c\<lparr>cSelector := NginxSel (ws\<lparr>nwUpstreams := us\<rparr>)\<rparr>"

text \<open>The addition of a report: the new effective weight, and the bound that is to be stored, if any.\<close>

definition nginx_add :: "upstreamStatus option \<Rightarrow> upstream \<Rightarrow> int \<times> int option" where
  "nginx_add st u = (case st of
       Some Timeout \<Rightarrow> let e = wrap32 (effectiveWeight u - 5) in (e, if e < 1 then Some 1 else None)
     | Some Error \<Rightarrow> let e = wrap32 (effectiveWeight u - 3) in (e, if e < 1 then Some 1 else None)
     | Some OK \<Rightarrow> let e = wrap32 (effectiveWeight u + 1) in (e, if e > weight u then Some (weight u) else None)
     | _ \<Rightarrow> (effectiveWeight u, None))"

definition nginx_atomic :: "dns_lib \<Rightarrow> 't iptree \<Rightarrow> NginxWRRSelector \<Rightarrow> Client \<Rightarrow> atomic_pc \<Rightarrow> Client \<times> atomic_pc" where
  "nginx_atomic L T ws c pc =
     (let us = nwUpstreams ws in
      case pc of
        Waiting (Received q) \<Rightarrow>
          if asks_upstream c q then (c, Getting q (get_start (shared_of us) ())) else apsnd Waiting (choose_step c q)
      | Getting q (GetReturned b) \<Rightarrow> (c, Waiting (Querying q b (us ! b)))
      | Getting q GetPanicked \<Rightarrow> (c, Waiting (HandlerPanicked q IndexOutOfRange))
      | Getting q g \<Rightarrow> (case get_step (shared_of us) g of
            (s, g') \<Rightarrow> (with_upstreams (put_currents (curs s) us) ws c, Getting q g'))
      | Waiting (Reporting q i st w) \<Rightarrow> (case nginx_add st (us ! i) of
            (e, None) \<Rightarrow> (with_upstreams (put_effective i e us) ws c, Waiting (Handled q w))
          | (e, Some b) \<Rightarrow> (with_upstreams (put_effective i e us) ws c, Storing q i b w))
      | Storing q i b w \<Rightarrow> (with_upstreams (put_effective i b us) ws c, Waiting (Handled q w))
      | Waiting pc \<Rightarrow> apsnd Waiting (handle_step L T c pc))"

definition atomic_step :: "dns_lib \<Rightarrow> 't iptree \<Rightarrow> Client \<Rightarrow> atomic_pc \<Rightarrow> Client \<times> atomic_pc" where
  "atomic_step L T c pc = (case cSelector c of
       NginxSel ws \<Rightarrow> nginx_atomic L T ws c pc
     | _ \<Rightarrow> (case pc of Waiting pc \<Rightarrow> apsnd Waiting (handle_step L T c pc) | _ \<Rightarrow> (c, pc)))"

definition atomic_receive :: "Client \<Rightarrow> client_query \<Rightarrow> atomic_pc" where
  "atomic_receive c q = Waiting (Received q)"

text \<open>An atomic operation of a probe changes the effective weight of an upstream.\<close>

definition probe_writes :: "nat \<times> int \<Rightarrow> Client \<Rightarrow> Client" where
  "probe_writes = (\<lambda>(j, e) c. case cSelector c of
       NginxSel ws \<Rightarrow> with_upstreams (put_effective j e (nwUpstreams ws)) ws c
     | _ \<Rightarrow> c)"

abbreviation "atomic_run L T \<equiv> run_events atomic_receive (atomic_step L T) probe_writes"

section \<open>The invariant of every interleaving\<close>

definition atomic_client :: "dns_lib \<Rightarrow> nat \<Rightarrow> Client \<Rightarrow> bool" where
  "atomic_client L n c \<longleftrightarrow> dns_lib_ok L \<and> truncate_ok L \<and> 0 < n \<and> length (selector_upstreams (cSelector c)) = n
     \<and> list_all known_type (selector_upstreams (cSelector c)) \<and> (passthrough c \<noteq> [] \<longrightarrow> bootstrap c \<noteq> [])
     \<and> (case cSelector c of LVSSel _ \<Rightarrow> False | _ \<Rightarrow> True)"

definition has_nginx :: "Client \<Rightarrow> bool" where
  "has_nginx c = (case cSelector c of NginxSel _ \<Rightarrow> True | _ \<Rightarrow> False)"

fun atomic_pc_ok :: "dns_lib \<Rightarrow> nat \<Rightarrow> Client \<Rightarrow> atomic_pc \<Rightarrow> bool" where
  "atomic_pc_ok L n c (Waiting pc) \<longleftrightarrow> handler_ok L n pc"
| "atomic_pc_ok L n c (Getting q g) \<longleftrightarrow> has_nginx c \<and> get_pc_ok n g \<and> (case q of (E, draw, w, r, isTCP) \<Rightarrow> msgQuestion r \<noteq> [])"
| "atomic_pc_ok L n c (Storing q i b w) \<longleftrightarrow> has_nginx c \<and> (query_ok q \<longrightarrow> answered L q w)"

fun atomic_left :: "nat \<Rightarrow> atomic_pc \<Rightarrow> nat" where
  "atomic_left n (Waiting (Received q)) = 4 * n + 6"
| "atomic_left n (Getting q g) = remaining n g + 4"
| "atomic_left n (Waiting (Querying q i u)) = 3"
| "atomic_left n (Waiting (Reporting q i st w)) = 2"
| "atomic_left n (Storing q i b w) = 1"
| "atomic_left n (Waiting pc) = 0"

lemma put_currents_ids: "length xs = length us \<Longrightarrow> map upstream_id (put_currents xs us) = map upstream_id us"
  by (induction xs us rule: list_induct2) (simp_all add: put_currents_def upstream_id_def)

lemma put_effective_ids: "map upstream_id (put_effective i e us) = map upstream_id us"
  by (cases "i < length us") (simp_all add: put_effective_def map_update upstream_id_def list_update_same_conv list_update_beyond)

lemma with_upstreams_ok:
  assumes "atomic_client L n c" "cSelector c = NginxSel ws" "map upstream_id us = map upstream_id (nwUpstreams ws)"
  shows "atomic_client L n (with_upstreams us ws c)" "has_nginx (with_upstreams us ws c)"
  using assms known_type_ids [OF assms(3)] map_eq_imp_length_eq [OF assms(3)]
  by (simp_all add: atomic_client_def with_upstreams_def selector_upstreams_def has_nginx_def)


lemma getting_ok:
  assumes ok: "atomic_client L n c" and ws: "cSelector c = NginxSel ws" and pc: "atomic_pc_ok L n c (Getting q g)"
    and step: "nginx_atomic L T ws c (Getting q g) = (c', pc')"
  shows "atomic_client L n c' \<and> has_nginx c' \<and> atomic_pc_ok L n c' pc' \<and> atomic_left n pc' < remaining n g + 4"
proof -
  let ?us = "nwUpstreams ws"
  have n: "length ?us = n" "0 < n" "list_all known_type ?us" using ok ws by (simp_all add: atomic_client_def selector_upstreams_def)
  consider (ret) b where "g = GetReturned b" | (run) "\<forall>b. g \<noteq> GetReturned b" "g \<noteq> GetPanicked" using pc by (cases g) auto
  then show ?thesis
  proof cases
    case ret
    then show ?thesis using ok pc step n by (auto simp: nginx_atomic_def list_all_length)
  next
    case run
    obtain s g' where g: "get_step (shared_of ?us) g = (s, g')" by fastforce
    then have c': "c' = with_upstreams (put_currents (curs s) ?us) ws c" "pc' = Getting q g'"
      using step run by (cases g; simp add: nginx_atomic_def)+
    have gp: "length (curs (shared_of ?us)) = n \<and> 0 < n" "get_pc_ok n g" using n pc by (simp_all add: shared_of_def)
    have "length (curs s) = length ?us" using get_step_length [OF g] n by (simp add: shared_of_def)
    note us = with_upstreams_ok [OF ok ws put_currents_ids [OF this]]
    have "0 < remaining n g" using run pc by (cases g) auto
    then show ?thesis using us gets.step_ok [OF gp g] gets.step_left [OF gp g] pc by (auto simp: c')
  qed
qed

lemma waiting_ok:
  assumes ok: "atomic_client L n c" and ws: "cSelector c = NginxSel ws" and pc: "handler_ok L n pc"
    and step: "nginx_atomic L T ws c (Waiting pc) = (c', pc')"
  shows "atomic_client L n c' \<and> has_nginx c' \<and> atomic_pc_ok L n c' pc' \<and> atomic_left n pc' \<le> atomic_left n (Waiting pc) - 1"
proof -
  have n: "length (nwUpstreams ws) = n" "0 < n" using ok ws by (simp_all add: atomic_client_def selector_upstreams_def)
  have nx: "has_nginx c" using ws by (simp add: has_nginx_def)
  show ?thesis
  proof (cases pc)
    case (Received q)
    show ?thesis
    proof (cases "asks_upstream c q")
      case True
      then show ?thesis using Received ok step n nx
        by (auto simp: nginx_atomic_def get_start_def loop_head_def shared_of_def asks_upstream_def split: prod.splits)
    next
      case False
      obtain c1 pc1 where ch: "choose_step c q = (c1, pc1)" by fastforce
      have "c1 = c \<and> handler_ok L n pc1 \<and> handler_left pc1 = 0"
        by (rule answer_alone_ok [OF _ ch False]) (use ok in \<open>simp add: atomic_client_def\<close>)
      moreover have "atomic_left n (Waiting pc1) = 0" if "handler_left pc1 = 0" using that by (cases pc1) auto
      ultimately show ?thesis using Received ok step False ch nx by (auto simp: nginx_atomic_def)
    qed
  next
    case (Querying q i u)
    have "handler_ok L n (exchange_step L T (cConf c) q i u)"
      using exchange_step_ok [of L n q i u T "cConf c"] pc Querying ok by (auto simp: atomic_client_def)
    moreover have "atomic_left n (Waiting (exchange_step L T (cConf c) q i u)) \<le> 2"
      by (cases q) (simp add: exchange_step_def split: sum.split)
    ultimately show ?thesis using Querying step ok nx by (auto simp: nginx_atomic_def handle_step_def)
  next
    case (Reporting q i st w)
    have us: "atomic_client L n (with_upstreams (put_effective i e (nwUpstreams ws)) ws c)" "has_nginx (with_upstreams (put_effective i e (nwUpstreams ws)) ws c)" for e
      by (rule with_upstreams_ok [OF ok ws put_effective_ids])+
    show ?thesis using step us pc Reporting by (auto simp: nginx_atomic_def Let_def split: prod.splits option.splits)
  qed (use ok step nx pc in \<open>auto simp: nginx_atomic_def handle_step_def\<close>)
qed

lemma storing_ok:
  assumes ok: "atomic_client L n c" and ws: "cSelector c = NginxSel ws" and pc: "atomic_pc_ok L n c (Storing q i b w)"
    and step: "nginx_atomic L T ws c (Storing q i b w) = (c', pc')"
  shows "atomic_client L n c' \<and> has_nginx c' \<and> atomic_pc_ok L n c' pc' \<and> atomic_left n pc' = 0"
  using step pc with_upstreams_ok [OF ok ws put_effective_ids [of i b]] by (auto simp: nginx_atomic_def)

text \<open>With the random selector the steps are those of the coarser model.\<close>

lemma random_ok:
  assumes ok: "atomic_client L n c" and rs: "cSelector c = RandomSel rs" and pc: "handler_ok L n pc"
    and step: "handle_step L T c pc = (c', pc')"
  shows "atomic_client L n c' \<and> (\<not> has_nginx c') \<and> handler_ok L n pc' \<and> atomic_left n (Waiting pc') \<le> atomic_left n (Waiting pc) - 1"
proof -
  have c: "served_ok L n c"
    using ok rs by (auto simp: atomic_client_def served_ok_def client_ok_def client_inv_def selector_inv_def selector_upstreams_def random_inv_def)
  have s': "cSelector c' = RandomSel rs" "passthrough c' = passthrough c" "bootstrap c' = bootstrap c"
    using step rs by (auto simp: handle_step_def choose_step_def selector_Get_def random_Get_def random_ReportUpstreamStatus_def report_status_def selector_Report_def
        split: handler_pc.splits prod.splits if_splits option.splits sum.splits)
  have h: "served_ok L n c' \<and> handler_ok L n pc'" "handler_left pc' \<le> handler_left pc - 1"
    using handlers.step_ok [OF c pc step] handlers.step_left [OF c pc step] by auto
  moreover have "atomic_left n (Waiting pc') \<le> atomic_left n (Waiting pc) - 1" if "handler_left pc' \<le> handler_left pc - 1"
    using that by (cases pc; cases pc') auto
  ultimately show ?thesis using s' ok by (auto simp: atomic_client_def served_ok_def client_ok_def client_inv_def has_nginx_def)
qed


lemma atomic_step_ok:
  assumes ok: "atomic_client L n c" and pc: "atomic_pc_ok L n c pc" and step: "atomic_step L T c pc = (c', pc')"
  shows "atomic_client L n c' \<and> has_nginx c' = has_nginx c \<and> atomic_pc_ok L n c' pc' \<and> atomic_left n pc' \<le> atomic_left n pc - 1"
proof (cases "cSelector c")
  case (NginxSel ws)
  then have st: "nginx_atomic L T ws c pc = (c', pc')" "has_nginx c" using step by (simp_all add: atomic_step_def has_nginx_def)
  show ?thesis
  proof (cases pc)
    case (Waiting h)
    then show ?thesis using waiting_ok [OF ok NginxSel, of h T c' pc'] pc st by simp
  next
    case (Getting q g)
    then show ?thesis using getting_ok [OF ok NginxSel, of q g T c' pc'] pc st by auto
  next
    case (Storing q i b w)
    then show ?thesis using storing_ok [OF ok NginxSel, of q i b w T c' pc'] pc st by simp
  qed
next
  case (RandomSel rs)
  then have nx: "\<not> has_nginx c" by (simp add: has_nginx_def)
  then obtain h where h: "pc = Waiting h" using pc by (cases pc) auto
  obtain h' where h': "handle_step L T c h = (c', h')" "pc' = Waiting h'"
    using step RandomSel h by (cases "handle_step L T c h") (auto simp: atomic_step_def)
  show ?thesis using random_ok [OF ok RandomSel _ h'(1)] pc nx h h'(2) by simp
next
  case (LVSSel ls)
  then show ?thesis using ok by (simp add: atomic_client_def)
qed

lemma atomic_pc_ok_nginx: "atomic_pc_ok L n c pc \<Longrightarrow> has_nginx c' = has_nginx c \<Longrightarrow> atomic_pc_ok L n c' pc"
  by (cases pc) auto

lemma probe_writes_ok: "atomic_client L n c \<Longrightarrow> atomic_client L n (probe_writes e c) \<and> has_nginx (probe_writes e c) = has_nginx c"
proof (cases e)
  case (Pair j x)
  assume ok: "atomic_client L n c"
  show ?thesis
  proof (cases "cSelector c")
    case (NginxSel ws)
    then show ?thesis using with_upstreams_ok [OF ok NginxSel put_effective_ids [of j x]] Pair
      by (simp add: probe_writes_def has_nginx_def)
  qed (use ok Pair in \<open>simp_all add: probe_writes_def\<close>)
qed

interpretation atomics: wait_free atomic_receive "atomic_step L T" probe_writes "atomic_client L n" "atomic_pc_ok L n" "atomic_left n" for L T n
proof
  fix c c' pc pc' other
  assume a: "atomic_client L n c" "atomic_pc_ok L n c pc" "atomic_step L T c pc = (c', pc')"
  note s = atomic_step_ok [OF a]
  show "atomic_client L n c' \<and> atomic_pc_ok L n c' pc'" "atomic_left n pc' \<le> atomic_left n pc - 1" using s by simp_all
  show "atomic_pc_ok L n c' other" if "atomic_pc_ok L n c other" using s that atomic_pc_ok_nginx by blast
qed (use probe_writes_ok atomic_pc_ok_nginx in \<open>auto simp: atomic_receive_def\<close>)

fun atomic_query :: "atomic_pc \<Rightarrow> client_query" where
  "atomic_query (Waiting pc) = query_of pc"
| "atomic_query (Getting q g) = q"
| "atomic_query (Storing q i b w) = q"

lemma atomic_query_kept: "atomic_query (snd (atomic_step L T c pc)) = atomic_query pc"
proof -
  have h: "atomic_query (Waiting (snd (handle_step L T c h))) = query_of h" for h using query_kept by simp
  have ch: "query_of (snd (choose_step c q)) = q" for q using query_kept [of L T c "Received q"] by (simp add: handle_step_def)
  have nx: "atomic_query (snd (nginx_atomic L T ws c pc)) = atomic_query pc" for ws
  proof (cases pc)
    case (Waiting p)
    show ?thesis
    proof (cases p)
      case (Received q)
      then show ?thesis using Waiting ch [of q] by (simp add: nginx_atomic_def)
    qed (use Waiting in \<open>simp_all add: nginx_atomic_def Let_def query_kept split: prod.split option.split\<close>)
  next
    case (Getting q g)
    then show ?thesis by (cases g) (simp_all add: nginx_atomic_def Let_def split: prod.split)
  qed (simp add: nginx_atomic_def)
  show ?thesis
  proof (cases "cSelector c")
    case (NginxSel ws)
    then show ?thesis using nx by (simp add: atomic_step_def)
  qed (use h in \<open>simp_all add: atomic_step_def split: atomic_pc.split\<close>)
qed

lemma atomic_end:
  "atomic_pc_ok L n c pc \<Longrightarrow> atomic_left n pc = 0 \<Longrightarrow> query_ok (atomic_query pc) \<Longrightarrow>
   \<exists>w. pc = Waiting (Handled (atomic_query pc) w) \<and> answered L (atomic_query pc) w"
proof (cases pc)
  case (Waiting p)
  assume "atomic_pc_ok L n c pc" "atomic_left n pc = 0" "query_ok (atomic_query pc)"
  then show ?thesis using Waiting by (cases p) auto
qed simp_all

lemma NewClient_atomic:
  assumes "dns_lib_ok L" "truncate_ok L" "NewClient N E conf = Inr c" "0 < upstream_count conf"
    "UpstreamSelector (confUpstream conf) \<noteq> LVSWRR"
  shows "atomic_client L (upstream_count conf) c"
proof -
  obtain boot where b: "resolve_bootstrap E (Bootstrap (Other conf)) = Inr boot" "bootstrap c = boot"
    "passthrough c = (if Bootstrap (Other conf) \<noteq> [] then map (dotted_name E) (Passthrough (Other conf)) else [])"
    and s: "new_selector conf = Inr (cSelector c)"
    using assms(3) by (auto simp: NewClient_def Let_def split: sum.splits)
  have "passthrough c \<noteq> [] \<longrightarrow> bootstrap c \<noteq> []" using b resolve_bootstrap_length [OF b(1)] by auto
  then show ?thesis using new_selector_built [of conf] assms s configured_facts
    by (auto simp: atomic_client_def list_all_iff known_type_def split: client_selector.splits)
qed


section \<open>A handler that is not interrupted\<close>

lemma put_currents_shared:
  "length xs = length us \<Longrightarrow> shared_of (put_currents xs us) = \<lparr>curs = xs, effs = map effectiveWeight us\<rparr>"
  by (induction xs us rule: list_induct2) (simp_all add: put_currents_def shared_of_def)

lemma put_currents_twice:
  "length xs = length us \<Longrightarrow> length ys = length us \<Longrightarrow> put_currents ys (put_currents xs us) = put_currents ys us"
  by (induction us arbitrary: xs ys) (auto simp: put_currents_def length_Suc_conv)

lemma put_currents_id: "put_currents (map currentWeight us) us = us"
  by (induction us) (simp_all add: put_currents_def)

lemma with_upstreams_twice [simp]:
  "cSelector (with_upstreams us ws c) = NginxSel (ws\<lparr>nwUpstreams := us\<rparr>)"
  "with_upstreams us' (ws\<lparr>nwUpstreams := us\<rparr>) (with_upstreams us ws c) = with_upstreams us' ws c"
  by (simp_all add: with_upstreams_def)

lemma gets_length: "length (curs (fst (steps_alone get_step m x))) = length (curs (fst x))"
proof (induction m arbitrary: x)
  case (Suc m)
  then show ?case using get_step_length [of "fst x" "snd x" "fst (get_step (fst x) (snd x))" "snd (get_step (fst x) (snd x))"] by simp
qed simp

text \<open>Operations of \<open>Get\<close> alone are operations of the handler.\<close>

lemma get_steps_atomic:
  assumes "steps_alone get_step m (shared_of us, g) = (s, g')"
  shows "reaches (atomic_step L T) (with_upstreams us ws c, Getting q g)
    (with_upstreams (put_currents (curs s) us) ws c, Getting q g')"
  using assms
proof (induction m arbitrary: us g)
  case 0
  then show ?case by (auto simp: shared_of_def put_currents_id)
next
  case (Suc m)
  obtain s1 g1 where g: "get_step (shared_of us) g = (s1, g1)" by fastforce
  have len: "length (curs s1) = length us" "effs s1 = map effectiveWeight us" using get_step_length [OF g] by (simp_all add: shared_of_def)
  let ?us = "put_currents (curs s1) us"
  have sh: "shared_of ?us = s1" using put_currents_shared [OF len(1)] len(2) by simp
  have lens: "length ?us = length us" using len(1) by (simp add: put_currents_def)
  have rest: "steps_alone get_step m (shared_of ?us, g1) = (s, g')" using Suc.prems g sh by simp
  have "length (curs s) = length us"
    using rest gets_length [of m "(shared_of ?us, g1)"] len(1) sh by simp
  then have "reaches (atomic_step L T) (with_upstreams ?us ws c, Getting q g1) (with_upstreams (put_currents (curs s) us) ws c, Getting q g')"
    using Suc.IH [OF rest] put_currents_twice [OF len(1)] by simp
  then show ?case
  proof (cases "(\<exists>b. g = GetReturned b) \<or> g = GetPanicked")
    case True
    then have "s1 = shared_of us" "g1 = g" using g by (auto simp: get_step_def)
    then have "?us = us" "g1 = g" by (simp_all add: shared_of_def put_currents_id)
    then show ?thesis using \<open>reaches _ (with_upstreams ?us ws c, Getting q g1) _\<close> by simp
  next
    case False
    then have "atomic_step L T (with_upstreams us ws c) (Getting q g) = (with_upstreams ?us ws c, Getting q g1)"
      using g by (cases g) (simp_all add: atomic_step_def nginx_atomic_def Let_def)
    then show ?thesis using \<open>reaches _ (with_upstreams ?us ws c, Getting q g1) _\<close> by (metis reaches_step)
  qed
qed

lemma nginx_Get_put:
  assumes "nginx_Get ws = Inr (ws', b)"
  shows "ws' = ws\<lparr>nwUpstreams := put_currents (curs (shared_of (nwUpstreams ws'))) (nwUpstreams ws)\<rparr>"
proof -
  have "nwUpstreams ws \<noteq> []" using assms nginx_Get_empty by fastforce
  then obtain t where "ws' = ws\<lparr>nwUpstreams := settle t b (map bump (nwUpstreams ws))\<rparr>"
    using assms by (auto elim!: nginx_Get_eq)
  moreover have "settle t b (map bump us) = put_currents (map currentWeight (settle t b (map bump us))) us" for us
    by (cases "b < length us") (auto simp: list_eq_iff_nth_eq put_currents_def settle_def nth_list_update bump_def list_update_beyond)
  ultimately show ?thesis by (simp add: shared_of_def)
qed

lemma put_effective_twice [simp]: "put_effective i b (put_effective i e us) = put_effective i b us"
  by (cases "i < length us") (simp_all add: put_effective_def list_update_beyond)

lemma report_alone:
  "reaches (atomic_step L T) (with_upstreams us ws c, Waiting (Reporting q i st w))
     ((with_upstreams us ws c)\<lparr>cSelector := report_status i st (NginxSel (ws\<lparr>nwUpstreams := us\<rparr>))\<rparr>, Waiting (Handled q w))"
proof -
  obtain e ob where a: "nginx_add st (us ! i) = (e, ob)" by fastforce
  let ?us = "put_effective i e us"
  let ?c = "(with_upstreams us ws c)\<lparr>cSelector := report_status i st (NginxSel (ws\<lparr>nwUpstreams := us\<rparr>))\<rparr>"
  have fin: "?c = with_upstreams (case ob of None \<Rightarrow> ?us | Some b \<Rightarrow> put_effective i b us) ws c"
    using a by (auto simp: with_upstreams_def report_status_def selector_Report_def nginx_ReportUpstreamStatus_def nginx_status_def
        nginx_add_def lower_weight_def raise_weight_def put_effective_def Let_def
        split: option.splits upstreamStatus.splits if_splits)
  have step: "atomic_step L T (with_upstreams us ws c) (Waiting (Reporting q i st w)) =
      (with_upstreams ?us ws c, case ob of None \<Rightarrow> Waiting (Handled q w) | Some b \<Rightarrow> Storing q i b w)"
    using a by (simp add: atomic_step_def nginx_atomic_def Let_def split: option.split)
  show ?thesis
  proof (rule reaches_step, unfold step fin, cases ob)
    case (Some b)
    have "reaches (atomic_step L T) (with_upstreams ?us ws c, Storing q i b w) (with_upstreams (put_effective i b us) ws c, Waiting (Handled q w))"
      by (rule reaches_step) (simp add: atomic_step_def nginx_atomic_def Let_def)
    then show "reaches (atomic_step L T) (with_upstreams ?us ws c, case ob of None \<Rightarrow> Waiting (Handled q w) | Some b \<Rightarrow> Storing q i b w)
        (with_upstreams (case ob of None \<Rightarrow> ?us | Some b \<Rightarrow> put_effective i b us) ws c, Waiting (Handled q w))" using Some by simp
  qed simp
qed


lemma reaches_one: "step s pc = y \<Longrightarrow> reaches step (s, pc) y"
  by (rule reaches_step) simp

lemma asked_handler:
  assumes "client_handlerFunc L T E c draw w r isTCP = Some (Inr (c', w'))" "cSelector c = NginxSel ws"
    "asks_upstream c (E, draw, w, r, isTCP)"
  obtains ws' i st where "nginx_Get ws = Inr (ws', i)"
    "exchange_step L T (cConf c) (E, draw, w, r, isTCP) i (nwUpstreams ws' ! i) = Reporting (E, draw, w, r, isTCP) i st w'"
    "c' = c\<lparr>cSelector := report_status i st (NginxSel ws')\<rparr>"
proof -
  obtain ws' i where g: "nginx_Get ws = Inr (ws', i)"
    using assms by (cases "nginx_Get ws") (auto simp: asks_upstream_def client_handlerFunc_def selector_Get_def)
  have "selector_Get draw (cSelector c) = Some (Inr (NginxSel ws', i))" using assms(2) g by (simp add: selector_Get_def)
  then have "\<exists>st. exchange_step L T (cConf c) (E, draw, w, r, isTCP) i (nwUpstreams ws' ! i) = Reporting (E, draw, w, r, isTCP) i st w'
      \<and> c' = c\<lparr>cSelector := report_status i st (NginxSel ws')\<rparr>"
    using assms(1,3) by (auto simp: asks_upstream_def client_handlerFunc_def exchange_step_def selector_upstreams_def Let_def
        split: sum.splits)
  then show thesis using that g by blast
qed

lemma handler_alone:
  assumes h: "client_handlerFunc L T E c draw w r isTCP = Some (Inr (c', w'))" and ws: "cSelector c = NginxSel ws"
  shows "reaches (atomic_step L T) (c, Waiting (Received (E, draw, w, r, isTCP))) (c', Waiting (Handled (E, draw, w, r, isTCP) w'))"
proof -
  let ?q = "(E, draw, w, r, isTCP)" and ?us = "nwUpstreams ws"
  have c: "with_upstreams ?us ws c = c" using ws by (simp add: with_upstreams_def)
  show ?thesis
  proof (cases "asks_upstream c ?q")
    case False
    then have "choose_step c ?q = (c', Handled ?q w')"
      using h by (auto simp: asks_upstream_def choose_step_def client_handlerFunc_def split: if_splits sum.splits)
    then show ?thesis using False ws by (intro reaches_one) (simp add: atomic_step_def nginx_atomic_def)
  next
    case True
    obtain ws' i st where g: "nginx_Get ws = Inr (ws', i)"
      and ex: "exchange_step L T (cConf c) ?q i (nwUpstreams ws' ! i) = Reporting ?q i st w'"
      and c': "c' = c\<lparr>cSelector := report_status i st (NginxSel ws')\<rparr>" by (rule asked_handler [OF h ws True])
    define xs where "xs = curs (shared_of (nwUpstreams ws'))"
    let ?us' = "put_currents xs ?us"
    let ?c = "with_upstreams ?us' ws c"
    have ws': "ws' = ws\<lparr>nwUpstreams := ?us'\<rparr>" using nginx_Get_put [OF g] by (simp only: xs_def)
    then have u: "nwUpstreams ws' = ?us'" by simp
    have "reaches (atomic_step L T) (c, Waiting (Received ?q)) (c, Getting ?q (get_start (shared_of ?us) ()))"
      using True ws by (intro reaches_one) (simp add: atomic_step_def nginx_atomic_def)
    also have "reaches (atomic_step L T) \<dots> (?c, Getting ?q (GetReturned i))"
      using get_steps_atomic [OF Get_alone [OF g], of L T ws c ?q, folded xs_def] c by simp
    also have "reaches (atomic_step L T) \<dots> (?c, Waiting (Querying ?q i (?us' ! i)))"
      by (intro reaches_one) (simp add: atomic_step_def nginx_atomic_def)
    also have "reaches (atomic_step L T) \<dots> (?c, Waiting (Reporting ?q i st w'))"
      using ex u by (intro reaches_one) (simp add: atomic_step_def nginx_atomic_def handle_step_def with_upstreams_def)
    also have "reaches (atomic_step L T) \<dots> (c', Waiting (Handled ?q w'))"
      using report_alone [of L T ?us' ws c ?q i st w'] ws' c' by (simp add: with_upstreams_def)
    finally show ?thesis .
  qed
qed


section \<open>Properties\<close>

text \<open>Property C1.  Every query is answered, however the atomic operations of other handlers and of the
  probes interleave with those of its own: in any state that a client built by \<open>NewClient\<close> with \<open>n > 0\<close>
  upstreams for the random or the smooth weighted selector can be in, a query that arrives is answered
  with exactly one message once its handler has had \<open>4 n + 6\<close> operations, and no handler has panicked.
  Nothing is assumed of the weights, the upstreams, the network and the decoders.  The message carries
  the identifier of the query, except for a query that cannot be packed, whose error reply has the
  identifier 0.\<close>

theorem atomic_client_answers:
  assumes "dns_lib_ok L" "truncate_ok L" "NewClient N E0 conf = Inr c" "0 < upstream_count conf"
    "UpstreamSelector (confUpstream conf) \<noteq> LVSWRR" "query_ok q"
    "st = atomic_run L T evs \<lparr>shared = c, calls = []\<rparr>" "k = length (calls st)"
    "4 * upstream_count conf + 6 \<le> count_list evs' (Run k)"
  shows "(\<exists>w. calls (atomic_run L T (Start q # evs') st) ! k = Waiting (Handled q w) \<and> answered L q w)
    \<and> (\<forall>q' p. Waiting (HandlerPanicked q' p) \<in> set (calls st) \<longrightarrow> \<not> query_ok q')"
proof
  let ?n = "upstream_count conf"
  have "all_ok (atomic_client L ?n) (atomic_pc_ok L ?n) \<lparr>shared = c, calls = []\<rparr>"
    using NewClient_atomic [OF assms(1-5)] by (simp add: all_ok_def)
  note ok = atomics.run_all_ok [OF this, of T evs, folded assms(7)]
  show "\<forall>q' p. Waiting (HandlerPanicked q' p) \<in> set (calls st) \<longrightarrow> \<not> query_ok q'" using ok by (auto simp: all_ok_def list_all_iff)
  let ?pc = "calls (atomic_run L T (Start q # evs') st) ! k"
  have "atomic_query ?pc = atomic_query (calls (apply_event atomic_receive (atomic_step L T) probe_writes (Start q) st) ! k)"
    using run_kept [where f = atomic_query and step = "atomic_step L T" and k = k and start = atomic_receive and outside = probe_writes
        and evs = evs' and st = "apply_event atomic_receive (atomic_step L T) probe_writes (Start q) st", OF atomic_query_kept] assms(8)
    by simp
  then have q: "atomic_query ?pc = q" using assms(8) by (simp add: atomic_receive_def)
  have "atomic_left ?n (atomic_receive (shared st) q) \<le> count_list evs' (Run (length (calls st)))"
    using assms(8,9) by (simp add: atomic_receive_def)
  then show "\<exists>w. ?pc = Waiting (Handled q w) \<and> answered L q w"
    by (rule atomics.finished [OF ok]) (use atomic_end [of L ?n _ ?pc] q assms(6,8) in auto)
qed

text \<open>One query under way when another arrives; then their operations and those of a probe alternate.\<close>

definition under_way :: "(client_query, nat \<times> int) event list" where
  "under_way = [Start sample_client_query, Run 0, Run 0, Run 0]"

definition contended :: "nat \<Rightarrow> (client_query, nat \<times> int) event list" where
  "contended m = concat (replicate m [Run 1, Run 0, Outside (0, 1)])"

lemma contended_count: "count_list (contended m) (Run 1) = m"
  by (induction m) (simp_all add: contended_def)

lemma under_way_calls: "length (calls (atomic_run L T under_way \<lparr>shared = c, calls = []\<rparr>)) = 1"
  by (simp add: under_way_def split: prod.split)

theorem atomic_client_answers_witness:
  "\<exists>c m w. NewClient sample_net sample_client_env sample_config = Inr c \<and>
    calls (atomic_run sample_lib list_tree (Start sample_client_query # contended m)
      (atomic_run sample_lib list_tree under_way \<lparr>shared = c, calls = []\<rparr>)) ! 1 = Waiting (Handled sample_client_query w)
    \<and> answered sample_lib sample_client_query w"
proof -
  obtain c where c: "NewClient sample_net sample_client_env sample_config = Inr c" using sample_client_ex by blast
  have "UpstreamSelector (confUpstream sample_config) \<noteq> LVSWRR"
    using sample_config_allowed(2) by (simp add: NginxWRR_def LVSWRR_def)
  moreover have "0 < upstream_count sample_config" using sample_config_allowed(1) by (simp add: weights_allowed_def)
  ultimately show ?thesis
    using atomic_client_answers [OF sample_lib_ok sample_query_ok(2) c _ _ sample_query_ok(1) refl under_way_calls [symmetric],
        where T = list_tree and evs' = "contended (4 * upstream_count sample_config + 6)"] c contended_count by fastforce
qed

text \<open>Property C21.  The atomic operations implement the sequential model: with the smooth weighted selector, a
  handler that is not interrupted answers as \<open>client_handlerFunc\<close> does and leaves the same client, with
  the same weights.\<close>

theorem atomic_handler_refines:
  assumes "client_handlerFunc L T E c draw w r isTCP = Some (Inr (c', w'))" "cSelector c = NginxSel ws"
  shows "\<exists>m. atomic_run L T (Start (E, draw, w, r, isTCP) # replicate m (Run 0)) \<lparr>shared = c, calls = []\<rparr> =
    \<lparr>shared = c', calls = [Waiting (Handled (E, draw, w, r, isTCP) w')]\<rparr>"
  using reaches_run [where start = atomic_receive and outside = probe_writes and k = 0
      and st = "\<lparr>shared = c, calls = [Waiting (Received (E, draw, w, r, isTCP))]\<rparr>" and step = "atomic_step L T" and s = c'
      and pc = "Waiting (Handled (E, draw, w, r, isTCP) w')"] handler_alone [OF assms]
  by (simp add: atomic_receive_def)

theorem atomic_handler_refines_witness:
  "\<exists>c m c' w'. atomic_run sample_lib list_tree (Start sample_client_query # replicate m (Run 0)) \<lparr>shared = c, calls = []\<rparr> =
    \<lparr>shared = c', calls = [Waiting (Handled sample_client_query w')]\<rparr>"
proof -
  obtain c where c: "NewClient sample_net sample_client_env sample_config = Inr c" using sample_client_ex by blast
  have sel: "UpstreamSelector (confUpstream sample_config) = NginxWRR" by (rule sample_config_allowed(2))
  then have lvs: "UpstreamSelector (confUpstream sample_config) \<noteq> LVSWRR" by (simp add: NginxWRR_def LVSWRR_def)
  have inv: "client_inv c" by (rule NewClient_client_inv [OF c sample_config_allowed(1) lvs])
  have "new_selector sample_config = Inr (cSelector c)" using c by (auto simp: NewClient_def Let_def split: sum.splits)
  then obtain ws where ws: "cSelector c = NginxSel ws"
    using new_selector_built [of sample_config] sel lvs by (auto split: client_selector.splits)
  obtain E draw w r isTCP where q: "sample_client_query = (E, draw, w, r, isTCP)" by (cases sample_client_query)
  then have "exchange_id_ok E" "wf_msg r" "\<not> Response r" using sample_query_ok(1) unfolding q by (simp_all add: query_ok_def)
  then obtain c' w' where "client_handlerFunc sample_lib list_tree E c draw w r isTCP = Some (Inr (c', w'))"
    using handler_one [OF sample_lib_ok sample_query_ok(2) _ _ inv] by blast
  from atomic_handler_refines [OF this ws] show ?thesis unfolding q by blast
qed

end
