(* ===== verification/Spec2Isabelle.thy ===== *)
theory Spec2Isabelle
  imports Client_Server Programs Weight_Steps Get_Steps LVS_Steps Int32_Types Client_Atomic
begin

text \<open>
  This development models the DNS-over-HTTPS client and server (\<open>src/doh-client\<close>, \<open>src/doh-server\<close> and
  the package \<open>src/json-dns\<close> they share) and proves what makes them correct.

  \<^bold>\<open>The program.\<close>  The client listens for DNS queries, chooses one of its upstreams with a selector
  (random, smooth weighted round robin as in Nginx, or weighted round robin as in LVS), sends the query
  over HTTPS either in JSON form ("Google") or in binary form ("IETF", RFC 8484), turns the response
  into a DNS reply and reports to the selector how the upstream behaved; a background evaluation probes
  the upstreams.  Queries for configured names are passed to plain DNS servers instead.  The server
  accepts both forms over HTTP, finds the address of the client for the client subnet option, asks its
  own upstreams over UDP, TCP or TLS, and answers in the form the request asks for.

  \<^bold>\<open>The theories.\<close>
  \<^item> \<open>Doh_Prelude\<close>: machine integers, panics, shared list lemmas.  \<open>Go_Strings\<close>, \<open>Go_Base64\<close>, \<open>Go_Url\<close>,
    \<open>Go_Net\<close>, \<open>Go_Time\<close>, \<open>Go_Http\<close>: what the source uses of Go's standard library (strings, strconv,
    base64, net/url, net, time, http headers), with its round trips.
  \<^item> \<open>Upstream\<close>, \<open>Selector_Interface\<close>, \<open>Random_Selector\<close>, \<open>Nginx_WRR\<close>, \<open>LVS_WRR\<close>: the package \<open>doh-client/selector\<close>.  The Go interface \<open>Selector\<close> is the locale \<open>selector\<close>, interpreted on each of the
    selectors and, in \<open>Client_Selector\<close>, on the client's own field of the interface type.
  \<^item> \<open>Interleaving\<close>: goroutines on a shared state, with every list of events as an interleaving, and the
    locales for invariants and for bounds on the steps of a goroutine.  It is instantiated for the atomic
    operations of \<open>Get\<close> of the smooth weighted selector (\<open>Get_Steps\<close>), for those of \<open>Get\<close>, reports and probes of
    the LVS selector (\<open>LVS_Steps\<close>), for the client's handlers and evaluation rounds with each
    operation of the selector as one step (\<open>Client_Concurrent\<close>), and for the handlers with the atomic
    operations of the smooth weighted selector as steps (\<open>Client_Atomic\<close>).  \<open>Weight_Steps\<close> has the atomic updates of one effective weight as a step relation,
    \<open>Int32_Types\<close> the ranges of the selectors' \<open>int32\<close> fields in every interleaving of the client.
  \<^item> \<open>Dns_Message\<close>, \<open>Global_IP\<close>, \<open>Json_Marshal\<close>, \<open>Json_Unmarshal\<close>: DNS messages and the package \<open>json-dns\<close>
    (\<open>globalip.go\<close>, \<open>response.go\<close>, \<open>marshal.go\<close>, \<open>unmarshal.go\<close>; \<open>error.go\<close> is in \<open>Server_Handler\<close>).
  \<^item> \<open>Server_Config\<close> (\<open>config.go\<close>), \<open>Server_Query\<close> (\<open>doDNSQuery\<close> of \<open>server.go\<close>), \<open>Server_Request\<close> (request parsing
    of \<open>google.go\<close> and \<open>ietf.go\<close>, \<open>findClientIP\<close>), \<open>Server_Handler\<close> (responses and \<open>handlerFunc\<close>).
  \<^item> \<open>Client_Config\<close> (\<open>config/config.go\<close>), \<open>Client_Selector\<close> (the selector \<open>NewClient\<close> builds), \<open>Client_Net\<close>
    (\<open>getInterfaceIPs\<close>, \<open>newHTTPClient\<close>, the dialers), \<open>Client_Request\<close> (\<open>google.go\<close>, \<open>ietf.go\<close>,
    \<open>findClientIP\<close>), \<open>Client_Handler\<close> (\<open>NewClient\<close>, \<open>handlerFunc\<close>).
  \<^item> \<open>Pid_File\<close> and \<open>Programs\<close>: \<open>checkPIDFile\<close>, \<open>NewServer\<close>, both \<open>Start\<close> and both \<open>main\<close> functions.
  \<^item> \<open>Client_Server\<close>: the client's requests as the server sees them.  This theory holds the properties of
    client and server together.

  \<^bold>\<open>How the code is modelled.\<close>  A struct is a record, a Go error a left injection or an option, a panic a
  value of \<open>go_panic\<close> in a left injection.  Signed integers are wrapped to their width, unsigned ones on
  which the code works bitwise are words.  Every operation is one definition with the state as argument
  and result, and calls are composed as in the code.  The contracts between components are locales,
  interpreted on the definitions: \<open>selector\<close> (above), \<open>addable\<close> (what \<open>NewClient\<close> expects of \<open>Add\<close>),
  \<open>response_parser\<close> (what the client's handler expects of the two response parsers), and the chain
  \<open>event_system\<close>, \<open>interleaving\<close>, \<open>wait_free\<close> for what goroutines owe each other.  Lines that only write to
  the log are left out, except for the ones of \<open>ReportWeights\<close>.  The loops of \<open>lvs_gcd\<close>, \<open>lvs_loop\<close> and \<open>check_loop\<close> need not end and are partial functions with
  values of option type, where \<open>None\<close> means that the code does not return; that they return is
  proved where it is claimed, and that \<open>gcd\<close> may not is a theorem too.  Fuel is used in
  \<open>TrimSpace\<close> only, where the length of the text is enough because every round removes a byte.

  \<^bold>\<open>Code outside the repository\<close> is a parameter, with what is relied on as a named hypothesis, and a
  concrete instance in the witnesses: the DNS library (\<open>dns_lib\<close>; \<open>dns_lib_ok\<close>, \<open>truncate_ok\<close>, and
  \<open>carries\<close> for a message that is packed and unpacked unchanged), the tree of IP networks (\<open>iptree\<close>; \<open>iptree_ok\<close>),
  exchanges with DNS servers (\<open>query_env\<close>; \<open>exchange_ok\<close>, \<open>exchange_id_ok\<close>, \<open>upstream_answers\<close>), the JSON and TOML codecs
  (\<open>encode_ok\<close>), IDNA, the resolver, the HTTP client, the network interfaces, time and random numbers.

  \<^bold>\<open>What is proved.\<close>  Both handlers answer everything they are given (\<open>Client_Handler\<close>, \<open>Server_Handler\<close>,
  \<open>Programs\<close>), and a binary query through client and server comes back with the upstream's answer, a JSON query
  arrives at the server as it was meant (this theory).  The selectors return a configured
  upstream for ever, keep their weights within bounds under any interleaving, and smooth weighted round
  robin is exactly fair and, with calls that overlap, wait-free and without drift.  The client answers
  every query within a bounded number of atomic operations of its handler, in every interleaving with the
  operations of other handlers and of the probes, and a handler that is not interrupted is the sequential one.  For the LVS
  selector every interleaving stays in range, but two panics are possible and shown to occur: overlapping first
  calls, and a call that reads a weight in the middle of its update.  Neither program discloses an address that is not global or more of one than
  its network.  Records age by the time they were kept, caching headers are the least TTL, and response
  codes, subnets and TTLs survive the way through JSON.  Each way a request can fail has its status.
  Where the code does not do what it means to, the theorem says what it does: an LVS selector with
  equal weights panics at the first \<open>Get\<close>, a failed exchange for IXFR panics, an expired JSON record gets
  its TTL back, a stale PID file does not exclude a second process, and client authentication is off
  without a server certificate.

  \<^bold>\<open>Bounds.\<close>  Weights are those the configuration file documents, 1 to 100, and there are at most 4000
  upstreams, so that no \<open>int32\<close> overflows (\<open>weights_allowed\<close>); process numbers are below \<open>2 ^ 64\<close>.

  \<^bold>\<open>Not modelled:\<close> log output; parsing of command line flags and TOML, which libraries do; the HTTP and
  DNS listeners, TLS and X.509; \<open>ServeMux\<close>, except that it may refuse a path; cookies; the Swift wrapper
  for macOS.  The sequential models take one call after the other.  The code holds no lock in the
  selectors, so the interleavings are models of their own: atomic operations for the smooth weighted and the
  LVS selector and for the handlers of the client with the former; with the latter, each operation of the
  selector is one step of a handler.  The
  server's handler shares no state that it changes.  How the Go memory model orders operations that are
  not atomic is not modelled; the code uses atomic operations for all that goroutines share in a selector.
\<close>

section \<open>Client and server together\<close>

text \<open>Property C3.  A query that the client sends in binary form to this server comes back answered: if
  the upstreams of the server answer the question with the message \<open>m\<close>, the querier gets \<open>m\<close> under the
  identifier of its query, with all its records and their TTLs unchanged, truncated only to the size
  the querier accepts.  Everything on the way is part of the statement: the choice of the upstream,
  the OPT record and the client subnet, the base64 or POST encoding, the server's parsing, its query,
  its response with its headers and the client's ageing of the records.  The library has to pack and
  unpack the two messages faithfully.\<close>

theorem end_to_end_binary:
  assumes "dns_lib_ok L" "config_ok sconf" "\<forall>q. ceDo E q = served_by L sconf T' Es Q a q" "\<forall>m u. ceNewRequest E m u = None"
    "\<not> Response r" "length (msgQuestion r) = 1" "\<not> shouldPassthrough E c (qName (msgQuestion r ! 0))"
    "selector_Get draw (cSelector c) = Some (Inr (s, i))"
    "RequestType (selector_upstreams s ! i) = ''application/dns-message''" "clean_url (URL (selector_upstreams s ! i))"
    "wf_msg r" "ensure_opt L r = (r1, j)" "ietf_subnet L (cConf c) T E w r1 j = Inr (r2, addr, k)" "carries L (r2\<lparr>Id := 0\<rparr>)"
    "upstream_answers Q (msgQuestion r) m" "wf_msg m" "carries L (m\<lparr>Id := 0\<rparr>)"
  shows "\<exists>c' req. client_handlerFunc L T E c draw w r isTCP = Some (Inr (c', write_reply L isTCP w req (m\<lparr>Id := Id r\<rparr>)))
    \<and> crUdpSize req = query_udp_size L r"
proof -
  have "msgQuestion r2 = msgQuestion r" using ietf_subnet_total [OF assms(1,11,12), of "cConf c" T E w] assms(13) by fastforce
  then have "upstream_answers Q (msgQuestion r2) m" using assms(15) by simp
  from served_binary_query [OF assms(1,2,10,16) _ _ assms(12-14) this assms(17)]
  obtain r' req where "generateRequestIETF L (cConf c) T E w r (selector_upstreams s ! i) = Inr (w, r', Inr req)"
    "crUdpSize req = query_udp_size L r"
    "parse_response L E w r' isTCP (selector_upstreams s ! i) req = Inr (write_reply L isTCP w req (m\<lparr>Id := Id r\<rparr>))"
    using assms(3,4) by blast
  then show ?thesis using assms(5-9) by (auto simp: client_handlerFunc_def generate_request_def Let_def)
qed

definition relay_query :: dns_msg where
  "relay_query = fst (ensure_opt sample_lib sample_query)"

definition relay_lib :: dns_lib where
  "relay_lib = sample_lib\<lparr>Pack := (\<lambda>m. Inr (if msgAnswer m = [] then [1] else [2])),
     Unpack := (\<lambda>b. Inr (if b = [1] then relay_query\<lparr>Id := 0\<rparr> else sample_msg\<lparr>Id := 0\<rparr>))\<rparr>"

definition relay_upstream :: upstream where
  "relay_upstream = \<lparr>uType = IETF, URL = ''https://a/dns-query'', RequestType = ''application/dns-message'',
     weight = 1, effectiveWeight = 1, currentWeight = 0\<rparr>"

definition relay_client :: Client where
  "relay_client = \<lparr>cConf = empty_client_config, cSelector = RandomSel \<lparr>rsUpstreams = [relay_upstream]\<rparr>, passthrough = [],
     bootstrap = [], cHttp = \<lparr>httpTransport = None, httpClientLastCreate = None\<rparr>, dialAddr = None, udpServers = [],
     tcpServers = [], cookieJar = False\<rparr>"

definition relay_env :: client_env where
  "relay_env = sample_client_env\<lparr>ceDo := served_by relay_lib two_tries list_tree sample_server_env echo_query_env ''127.0.0.1:4''\<rparr>"

lemma relay_opt: "ensure_opt relay_lib m = ensure_opt sample_lib m"
  by (simp add: ensure_opt_def relay_lib_def new_opt_def split: option.split)

lemma relay_query_eq: "ensure_opt sample_lib sample_query = (relay_query, 0)"
  "msgQuestion relay_query = msgQuestion sample_query" "msgAnswer relay_query = []" "wf_msg relay_query"
  "rr_options (msgExtra relay_query ! 0) = []" "IsEdns0 relay_lib relay_query = Some 0"
proof -
  have "ensure_opt sample_lib sample_query =
      (sample_query\<lparr>msgExtra := [OPT (new_opt sample_lib DefaultMsgSize False) []]\<rparr>, 0)"
    by (simp add: ensure_opt_def sample_lib_def sample_query_def new_msg_def last_opt_def)
  then have r: "relay_query = sample_query\<lparr>msgExtra := [OPT (new_opt sample_lib DefaultMsgSize False) []]\<rparr>"
    "ensure_opt sample_lib sample_query = (relay_query, 0)" by (simp_all add: relay_query_def)
  show "ensure_opt sample_lib sample_query = (relay_query, 0)" by (fact r(2))
  show "msgQuestion relay_query = msgQuestion sample_query" "msgAnswer relay_query = []"
    "rr_options (msgExtra relay_query ! 0) = []" by (simp_all add: r(1) sample_query_def new_msg_def)
  show "wf_msg relay_query" using new_opt_facts(1) [OF sample_lib_ok]
    by (simp add: r(1) sample_query_def new_msg_def wf_msg_def wf_rr_def)
  show "IsEdns0 relay_lib relay_query = Some 0" using new_opt_facts(1) [OF sample_lib_ok]
    by (simp add: r(1) relay_lib_def sample_lib_def last_opt_def)
qed

lemma relay_lib_ok: "dns_lib_ok relay_lib"
proof -
  have "wf_msg (m\<lparr>Id := i\<rparr>) \<longleftrightarrow> wf_msg m" for m i by (simp add: wf_msg_def)
  then show ?thesis using sample_lib_ok relay_query_eq(4) sample_msg_wf by (simp add: dns_lib_ok_def relay_lib_def)
qed

theorem end_to_end_binary_witness:
  "\<exists>c' req. client_handlerFunc relay_lib list_tree relay_env relay_client 0 \<lparr>RemoteAddr = [], written = []\<rparr> sample_query False =
      Some (Inr (c', write_reply relay_lib False \<lparr>RemoteAddr = [], written = []\<rparr> req (sample_msg\<lparr>Id := 7\<rparr>)))
    \<and> crUdpSize req = 512"
proof -
  let ?s = "RandomSel \<lparr>rsUpstreams = [relay_upstream]\<rparr>" and ?w = "\<lparr>RemoteAddr = [], written = []\<rparr>"
  have g: "selector_Get 0 (cSelector relay_client) = Some (Inr (?s, 0))"
    by (simp add: selector_Get_def relay_client_def random_Get_def rand_Intn_def)
  have u: "RequestType (selector_upstreams ?s ! 0) = ''application/dns-message''" "clean_url (URL (selector_upstreams ?s ! 0))"
    by (simp_all add: selector_upstreams_def relay_upstream_def clean_url_def)
  have e: "ensure_opt relay_lib sample_query = (relay_query, 0)" using relay_opt relay_query_eq(1) by simp
  have sub: "ietf_subnet relay_lib (cConf relay_client) list_tree relay_env ?w relay_query 0 = Inr (relay_query, None, 255)"
    by (simp add: ietf_subnet_def relay_query_eq(5,6) client_findClientIP_def relay_client_def empty_client_config_def
        relay_env_def sample_client_env_def)
  have c: "carries relay_lib (relay_query\<lparr>Id := 0\<rparr>)" "carries relay_lib (sample_msg\<lparr>Id := 0\<rparr>)"
    by (simp_all add: carries_def relay_lib_def relay_query_eq(3) sample_msg_def)
  have up: "upstream_answers echo_query_env (msgQuestion sample_query) sample_msg"
    by (simp add: upstream_answers_def echo_query_env_def)
  have q: "\<not> Response sample_query" "length (msgQuestion sample_query) = 1" "wf_msg sample_query" "Id sample_query = 7"
    "query_udp_size relay_lib sample_query = 512"
    "\<not> shouldPassthrough relay_env relay_client (qName (msgQuestion sample_query ! 0))"
    by (simp_all add: sample_query_def new_msg_def wf_msg_def shouldPassthrough_def relay_client_def query_udp_size_def
        relay_lib_def sample_lib_def last_opt_def)
  have env: "\<forall>q. ceDo relay_env q = served_by relay_lib two_tries list_tree sample_server_env echo_query_env ''127.0.0.1:4'' q"
    "\<forall>m u. ceNewRequest relay_env m u = None" by (simp_all add: relay_env_def sample_client_env_def)
  show ?thesis
    using end_to_end_binary [OF relay_lib_ok two_tries_ok env q(1,2,6) g u q(3) e sub c(1) up sample_msg_wf c(2), of False] q(4,5)
    by simp
qed

text \<open>Property C17.  A query that the client sends in JSON form to this server arrives: the server parses
  the parameters of the URL without an error into a query with the same question (the name in its
  ASCII form and fully qualified) and the same flag for disabled checking, which carries the client
  subnet the client has put into the URL, if it is one of IPv4.\<close>

theorem json_request_reaches_server:
  assumes "dns_lib_ok L" "msgQuestion r = q # qs" "Qclass q = ClassINET" "qName q \<noteq> []" "seToASCII Es (qName q) = Inr name"
    "type_readable L (Qtype q)" "client_findClientIP L conf T E w r = Inr (addr, k)" "\<forall>x. addr = Some x \<longrightarrow> To4 x \<noteq> None"
    "clean_url (URL u)" "\<forall>m u. ceNewRequest E m u = None"
  shows "\<exists>rq req. generateRequestGoogle L conf T E w r u = Inr (send_request E rq u addr (query_udp_size L r) k w r)
    \<and> parseRequestGoogle L sconf T' Es (received rq a) = req \<and> errcode req = 0
    \<and> msgQuestion (request req) = [\<lparr>qName = Fqdn L name, Qtype = Qtype q, Qclass = ClassINET\<rparr>]
    \<and> CheckingDisabled (request req) = CheckingDisabled r \<and> RecursionDesired (request req)
    \<and> (\<forall>x v. addr = Some x \<and> To4 x = Some v \<longrightarrow> msgExtra (request req) = [OPT (new_opt L DefaultMsgSize True)
         [EDNS0_SUBNET \<lparr>ecsCode = EDNS0SUBNET, ecsFamily = 1, SourceNetmask = k, SourceScope = 0, ecsAddress = Some v\<rparr>]])"
proof -
  let ?h = "header_set ''Accept'' ''application/json, application/dns-message, application/dns-udpwireformat'' []"
  define rq where "rq = set_agent conf \<lparr>reqMethod = ''GET'', reqURL = google_url L u r q addr k, reqHeader = ?h, reqBody = []\<rparr>"
  let ?r = "received rq a"
  have form: "srForm ?r = google_params L r q addr k"
    using google_url_params [OF assms(9), of addr L r q k] assms(8) by (simp add: received_def rq_def set_agent_def Let_def)
  have sent: "generateRequestGoogle L conf T E w r u = Inr (send_request E rq u addr (query_udp_size L r) k w r)"
    by (simp add: generateRequestGoogle_def assms(2,3,7,10) Let_def rq_def)
  have f: "FormValue ?r ''name'' = qName q" "FormValue ?r ''type'' = type_text L (Qtype q)"
    "FormValue ?r ''cd'' = (if CheckingDisabled r then ''1'' else [])"
    "FormValue ?r ''edns_client_subnet'' = (case addr of None \<Rightarrow> [] | Some x \<Rightarrow> IP_String x @ ''/'' @ FormatUint (unat k))"
    using google_param_values [of L r q addr k] by (simp_all add: form)
  obtain fam ad n where g: "google_subnet sconf T' Es ?r = Inr (fam, ad, n)"
    and gv: "\<forall>x v. addr = Some x \<and> To4 x = Some v \<longrightarrow> (fam, ad, n) = (1, Some v, k)"
  proof (cases addr)
    case None
    then have "FormValue ?r ''edns_client_subnet'' = []" using f(4) by simp
    then have "\<exists>p. google_subnet sconf T' Es ?r = Inr p" by (simp add: google_subnet_def split: option.split)
    then show ?thesis using that None by auto
  next
    case (Some x)
    then obtain v where v: "To4 x = Some v" using assms(8) by blast
    have "FormValue ?r ''edns_client_subnet'' = IP_String x @ ''/'' @ FormatUint (unat k)" using f(4) Some by simp
    from google_subnet_sent [OF this v] show ?thesis by (rule that) (use Some v in simp)
  qed
  show ?thesis
    by (intro exI [of _ rq] exI conjI; (rule sent refl)?)
      (use f assms(4,5) parse_type_text [OF assms(6)] parse_cd_flag g gv dns_lib_okD(13) [OF assms(1)] in
        \<open>auto simp: parseRequestGoogle_def Let_def new_request_def new_msg_def\<close>)
qed


theorem json_request_reaches_server_witness:
  "\<exists>rq req. generateRequestGoogle sample_lib empty_client_config list_tree
       (sample_client_env\<lparr>ceResolveUDP := (\<lambda>_. Inr \<lparr>uaIP = Some [203, 0, 114, 77], uaPort = 9, uaZone = []\<rparr>)\<rparr>)
       \<lparr>RemoteAddr = ''203.0.114.77:9'', written = []\<rparr> sample_query relay_upstream =
     Inr (send_request (sample_client_env\<lparr>ceResolveUDP := (\<lambda>_. Inr \<lparr>uaIP = Some [203, 0, 114, 77], uaPort = 9, uaZone = []\<rparr>)\<rparr>)
       rq relay_upstream (Some [203, 0, 114, 0]) 512 24 \<lparr>RemoteAddr = ''203.0.114.77:9'', written = []\<rparr> sample_query)
    \<and> parseRequestGoogle sample_lib empty_config list_tree sample_server_env (received rq ''127.0.0.1:4'') = req \<and> errcode req = 0
    \<and> msgQuestion (request req) = [\<lparr>qName = ''example.com.'', Qtype = 1, Qclass = ClassINET\<rparr>]"
proof -
  let ?E = "sample_client_env\<lparr>ceResolveUDP := (\<lambda>_. Inr \<lparr>uaIP = Some [203, 0, 114, 77], uaPort = 9, uaZone = []\<rparr>)\<rparr>"
  let ?w = "\<lparr>RemoteAddr = ''203.0.114.77:9'', written = []\<rparr>"
  let ?q = "\<lparr>qName = ''example.com.'', Qtype = 1, Qclass = ClassINET\<rparr>"
  have q: "msgQuestion sample_query = [?q]" by (simp add: sample_query_def)
  have f: "client_findClientIP sample_lib empty_client_config list_tree ?E ?w sample_query = Inr (Some [203, 0, 114, 0], 24)"
    by code_simp
  have t: "type_readable sample_lib 1" "Fqdn sample_lib ''example.com.'' = ''example.com.''" by code_simp+
  have s: "query_udp_size sample_lib sample_query = 512" by code_simp
  have "To4 [203, 0, 114, 0] \<noteq> None" by (simp add: To4_def)
  moreover have "clean_url (URL relay_upstream)" by (simp add: relay_upstream_def clean_url_def)
  moreover have "seToASCII sample_server_env x = Inr x" for x by (simp add: sample_server_env_def)
  moreover have "\<forall>m u. ceNewRequest ?E m u = None" by (simp add: sample_client_env_def)
  ultimately show ?thesis
    using json_request_reaches_server [OF sample_lib_ok q _ _ _ _ f, of sample_server_env "''example.com.''" relay_upstream
        empty_config list_tree "''127.0.0.1:4''"] t s by simp blast
qed

end
